(* ===== verification/GoPrelude.thy ===== *)
theory GoPrelude
  imports Main "HOL-Library.Word"
begin

text \<open>
  What every component shares: byte strings, the Go run-time panics, the 64-bit wrap-around of
  Go's \<open>int\<close>/\<open>int64\<close>, and the handful of functions of Go's packages \<open>bytes\<close>, \<open>strings\<close> and
  \<open>net/http\<close> that the sources call, with the lemmas about them that the component theories use.

  A Go \<open>[]byte\<close> and a Go \<open>string\<close> are both a list of bytes (HOL \<open>char\<close>). The difference between a
  nil and an empty slice is kept (as an \<open>option\<close>) only where the code tests for nil.
\<close>

section \<open>Bytes, panics, fixed-width integers\<close>

type_synonym bytes = "char list"

datatype go_panic =
    IndexOutOfRange
  | NilDereference
  | PanicMsg string

type_synonym 'a go = "go_panic + 'a"

named_theorems go_simps \<open>evaluation rules of the Go library functions\<close>

definition go_bind :: "'a go \<Rightarrow> ('a \<Rightarrow> 'b go) \<Rightarrow> 'b go" where
  "go_bind m f = (case m of Inl e \<Rightarrow> Inl e | Inr x \<Rightarrow> f x)"

lemma go_bind_simps [simp]:
  "go_bind (Inl e) f = Inl e"
  "go_bind (Inr x) f = f x"
  by (simp_all add: go_bind_def)

lemma go_bind_Inr_iff: "go_bind m f = Inr y \<longleftrightarrow> (\<exists>x. m = Inr x \<and> f x = Inr y)"
  by (cases m) simp_all

text \<open>A call that may panic, return an error or a value, and what is done with the value.\<close>

definition go_try :: "('e + 'a) go \<Rightarrow> ('a \<Rightarrow> ('e + 'b) go) \<Rightarrow> ('e + 'b) go" where
  "go_try m f = go_bind m (\<lambda>r. case r of Inl err \<Rightarrow> Inr (Inl err) | Inr x \<Rightarrow> f x)"

lemma go_try_simps [simp]:
  "go_try (Inl e) f = Inl e"
  "go_try (Inr (Inl err)) f = Inr (Inl err)"
  "go_try (Inr (Inr x)) f = f x"
  by (simp_all add: go_try_def)

lemma go_try_Inr_iff: "go_try m f = Inr (Inr y) \<longleftrightarrow> (\<exists>x. m = Inr (Inr x) \<and> f x = Inr (Inr y))"
  by (cases m) (auto simp: go_try_def split: sum.split)

lemma go_try_Inl_iff: "go_try m f = Inl e \<longleftrightarrow> m = Inl e \<or> (\<exists>x. m = Inr (Inr x) \<and> f x = Inl e)"
  by (cases m) (auto simp: go_try_def split: sum.split)

text \<open>The value of a Go \<open>int\<close> (64 bits, two's complement) after an operation that may overflow.\<close>

definition i64 :: "int \<Rightarrow> int" where
  "i64 x = (x + 2 ^ 63) mod 2 ^ 64 - 2 ^ 63"

lemma i64_id [simp]: "- (2 ^ 63) \<le> x \<Longrightarrow> x < 2 ^ 63 \<Longrightarrow> i64 x = x"
  by (simp add: i64_def)

lemma i64_range: "- (2 ^ 63) \<le> i64 x \<and> i64 x < 2 ^ 63"
  by (simp add: i64_def)

lemma i64_overflow:
  assumes "2 ^ 63 \<le> x" "x < 2 ^ 63 + 2 ^ 64"
  shows "i64 x = x - 2 ^ 64"
proof -
  have "(x + 2 ^ 63) mod 2 ^ 64 = (x + 2 ^ 63 - 2 ^ 64) mod 2 ^ 64"
    by (simp only: minus_mod_self2)
  also have "\<dots> = x + 2 ^ 63 - 2 ^ 64"
    using assms by (intro mod_pos_pos_trivial) simp_all
  finally show ?thesis
    by (simp add: i64_def)
qed

section \<open>Package bytes and strings\<close>

definition HasPrefix :: "bytes \<Rightarrow> bytes \<Rightarrow> bool" where
  "HasPrefix s p \<longleftrightarrow> length p \<le> length s \<and> take (length p) s = p"

lemma HasPrefix_iff: "HasPrefix s p \<longleftrightarrow> (\<exists>t. s = p @ t)"
  unfolding HasPrefix_def
  by (metis append_eq_conv_conj append_take_drop_id length_append le_add1)

lemma HasPrefix_append [simp]: "HasPrefix (p @ t) p"
  by (simp add: HasPrefix_def)

lemma HasPrefix_Nil [simp]: "HasPrefix s []"
  by (simp add: HasPrefix_def)

text \<open>\<open>bytes.Index\<close> with a one-byte separator (and \<open>bytes.IndexByte\<close>): \<open>-1\<close> when absent.\<close>

fun IndexByte :: "bytes \<Rightarrow> char \<Rightarrow> int" where
  "IndexByte [] c = - 1"
| "IndexByte (x # xs) c =
     (if x = c then 0 else let i = IndexByte xs c in if i = - 1 then - 1 else i + 1)"

lemma IndexByte_absent: "IndexByte s c = - 1 \<longleftrightarrow> c \<notin> set s"
proof (induction s)
  case (Cons x xs)
  have "- 1 \<le> IndexByte xs c"
    by (induction xs) (auto simp: Let_def)
  with Cons show ?case
    by (auto simp: Let_def)
qed simp

lemma IndexByte_ge: "- 1 \<le> IndexByte s c"
  by (induction s) (auto simp: Let_def)

lemma IndexByte_split:
  assumes "c \<notin> set a"
  shows "IndexByte (a @ c # b) c = int (length a)"
  using assms by (induction a) (auto simp: Let_def)

lemma IndexByte_present:
  assumes "IndexByte s c \<noteq> - 1"
  obtains a b where "s = a @ c # b" "c \<notin> set a" "IndexByte s c = int (length a)"
proof -
  have "c \<in> set s" using assms by (simp add: IndexByte_absent)
  then obtain a b where "s = a @ c # b" "c \<notin> set a"
    by (metis split_list_first)
  then show ?thesis using that IndexByte_split by blast
qed

lemma IndexByte_lt: "IndexByte s c < int (length s)"
proof (cases "IndexByte s c = - 1")
  case False
  then obtain a b where "s = a @ c # b" "IndexByte s c = int (length a)"
    by (rule IndexByte_present)
  then show ?thesis by simp
qed simp

text \<open>
  \<open>strings.ToUpper\<close>, as far as ASCII is concerned: the two letters outside ASCII whose upper case is an ASCII
  letter are the dotless i (U+0131, in UTF-8 \<open>C4 B1\<close>) and the long s (U+017F, \<open>C5 BF\<close>). Other bytes from 0x80 on
  are left as they are (Go may replace them, by bytes that are not ASCII either).
\<close>

definition upper_byte :: "char \<Rightarrow> char" where
  "upper_byte c =
     (if 97 \<le> (of_char c :: nat) \<and> (of_char c :: nat) \<le> 122 then char_of (of_char c - 32 :: nat) else c)"

fun ToUpper :: "string \<Rightarrow> string" where
  "ToUpper [] = []"
| "ToUpper (c # s) =
     (case s of
        [] \<Rightarrow> [upper_byte c]
      | d # r \<Rightarrow> if c = CHR 0xC4 \<and> d = CHR 0xB1 then CHR ''I'' # ToUpper r
                else if c = CHR 0xC5 \<and> d = CHR 0xBF then CHR ''S'' # ToUpper r
                else upper_byte c # ToUpper s)"

declare ToUpper.simps(2) [simp del]

lemma ToUpper_Cons:
  "c \<noteq> CHR 0xC4 \<Longrightarrow> c \<noteq> CHR 0xC5 \<Longrightarrow> ToUpper (c # s) = upper_byte c # ToUpper s"
  by (cases s) (simp_all add: ToUpper.simps(2))

lemma ToUpper_Nil_iff [simp]: "ToUpper s = [] \<longleftrightarrow> s = []" "[] = ToUpper s \<longleftrightarrow> s = []"
  by (cases s; auto simp: ToUpper.simps(2) split: list.split)+

lemma ToUpper_append:
  assumes "t = [] \<or> hd t \<noteq> CHR 0xB1 \<and> hd t \<noteq> CHR 0xBF"
  shows "ToUpper (s @ t) = ToUpper s @ ToUpper t"
proof (induction s rule: ToUpper.induct)
  case (2 c s)
  show ?case
  proof (cases s)
    case Nil
    then show ?thesis
      using assms by (cases t) (auto simp: ToUpper.simps(2))
  next
    case (Cons d r)
    then show ?thesis
      using 2 by (simp add: ToUpper.simps(2))
  qed
qed simp

text \<open>A text in upper case can be cut anywhere: each part comes from a part of the original.\<close>

lemma ToUpper_split:
  "ToUpper s = x @ y \<Longrightarrow> \<exists>s1 s2. s = s1 @ s2 \<and> ToUpper s1 = x \<and> ToUpper s2 = y"
proof (induction s arbitrary: x rule: ToUpper.induct)
  case (2 c s)
  show ?case
  proof (cases x)
    case Nil
    then show ?thesis
      using 2(4) by (intro exI [of _ "[]"] exI [of _ "c # s"]) simp
  next
    case x: (Cons h x')
    show ?thesis
    proof (cases s)
      case Nil
      then show ?thesis
        using 2(4) x by (intro exI [of _ "[c]"] exI [of _ "[]"]) (simp add: ToUpper.simps(2))
    next
      case s: (Cons d r)
      show ?thesis
      proof (cases "c = CHR 0xC4 \<and> d = CHR 0xB1 \<or> c = CHR 0xC5 \<and> d = CHR 0xBF")
        case True
        then have "ToUpper r = x' @ y" "ToUpper (c # d # t) = h # ToUpper t" for t
          using 2(4) x s by (auto simp: ToUpper.simps(2))
        then obtain r1 r2 where r: "r = r1 @ r2" "ToUpper r1 = x'" "ToUpper r2 = y"
          using 2(1) [OF s, of x'] 2(2) [OF s, of x'] True by blast
        then show ?thesis
          using \<open>\<And>t. ToUpper (c # d # t) = h # ToUpper t\<close> [of r1] x s
          by (intro exI [of _ "c # d # r1"] exI [of _ r2]) simp
      next
        case False
        then have "ToUpper s = x' @ y" "h = upper_byte c"
          using 2(4) x s by (auto simp: ToUpper.simps(2) [of c])
        then obtain r1 r2 where r: "s = r1 @ r2" "ToUpper r1 = x'" "ToUpper r2 = y"
          using 2(3) [OF s, of x'] False s by blast
        moreover have "ToUpper (c # r1) = upper_byte c # ToUpper r1"
          using r(1) s False by (cases r1) (auto simp: ToUpper.simps(2) [of c])
        ultimately show ?thesis
          using x \<open>h = upper_byte c\<close> by (intro exI [of _ "c # r1"] exI [of _ r2]) simp
      qed
    qed
  qed
qed simp

lemma ToUpper_eq_single:
  assumes "ToUpper s = [x]"
  shows "(\<exists>c. s = [c] \<and> x = upper_byte c) \<or> s = [CHR 0xC4, CHR 0xB1] \<and> x = CHR ''I'' \<or>
    s = [CHR 0xC5, CHR 0xBF] \<and> x = CHR ''S''"
  using assms by (cases s rule: ToUpper.cases) (auto simp: ToUpper.simps(2) split: list.splits if_splits)

lemma upper_byte_cases: "upper_byte c = x \<Longrightarrow> c = x \<or> c = char_of (of_char x + 32 :: nat)"
  by (auto simp: upper_byte_def split: if_splits)

section \<open>Package net/http\<close>

text \<open>\<open>http.StatusText\<close>: the standard reason phrases, the empty string for an unknown code.\<close>

definition status_texts :: "(int \<times> string) list" where
  "status_texts =
    [(100, ''Continue''), (101, ''Switching Protocols''), (102, ''Processing''), (103, ''Early Hints''),
     (200, ''OK''), (201, ''Created''), (202, ''Accepted''), (203, ''Non-Authoritative Information''),
     (204, ''No Content''), (205, ''Reset Content''), (206, ''Partial Content''), (207, ''Multi-Status''),
     (208, ''Already Reported''), (226, ''IM Used''),
     (300, ''Multiple Choices''), (301, ''Moved Permanently''), (302, ''Found''), (303, ''See Other''),
     (304, ''Not Modified''), (305, ''Use Proxy''), (307, ''Temporary Redirect''),
     (308, ''Permanent Redirect''),
     (400, ''Bad Request''), (401, ''Unauthorized''), (402, ''Payment Required''), (403, ''Forbidden''),
     (404, ''Not Found''), (405, ''Method Not Allowed''), (406, ''Not Acceptable''),
     (407, ''Proxy Authentication Required''), (408, ''Request Timeout''), (409, ''Conflict''),
     (410, ''Gone''), (411, ''Length Required''), (412, ''Precondition Failed''),
     (413, ''Request Entity Too Large''), (414, ''Request URI Too Long''),
     (415, ''Unsupported Media Type''), (416, ''Requested Range Not Satisfiable''),
     (417, ''Expectation Failed''), (418, ''I'' @ [CHR 0x27] @ ''m a teapot''),
     (421, ''Misdirected Request''), (422, ''Unprocessable Entity''), (423, ''Locked''),
     (424, ''Failed Dependency''), (425, ''Too Early''), (426, ''Upgrade Required''),
     (428, ''Precondition Required''), (429, ''Too Many Requests''),
     (431, ''Request Header Fields Too Large''), (451, ''Unavailable For Legal Reasons''),
     (500, ''Internal Server Error''), (501, ''Not Implemented''), (502, ''Bad Gateway''),
     (503, ''Service Unavailable''), (504, ''Gateway Timeout''), (505, ''HTTP Version Not Supported''),
     (506, ''Variant Also Negotiates''), (507, ''Insufficient Storage''), (508, ''Loop Detected''),
     (510, ''Not Extended''), (511, ''Network Authentication Required'')]"

definition StatusText :: "int \<Rightarrow> string" where
  "StatusText code = (case map_of status_texts code of None \<Rightarrow> [] | Some t \<Rightarrow> t)"

section \<open>Lists\<close>

lemma take_length_le: "length xs \<le> n \<Longrightarrow> take n xs = xs"
  by simp

lemma list_update_split:
  "i < length xs \<Longrightarrow> xs[i := v] = take i xs @ v # drop (Suc i) xs"
  by (simp add: upd_conv_take_nth_drop)

end
