(* ===== verification/UtilBytes.thy ===== *)
theory UtilBytes
  imports GoPrelude
begin

text \<open>
  \<open>pkg/util/bytes.go\<close>: right-aligned decimal output into byte buffers. The two loops of
  \<open>CopyPaddingRightUint\<close> and the loop of \<open>CopyRightUint\<close> are recursive functions over the write index;
  an index below 0 is the Go panic. The reference is \<open>digits\<close>, the decimal digits of a number.
\<close>

section \<open>Model\<close>

text \<open>The loop \<open>for i > 0 && n >= 10\<close>, shared by both copy functions: state is (dst, i, n).\<close>

fun copy_digits :: "bytes \<Rightarrow> nat \<Rightarrow> int \<Rightarrow> bytes \<times> nat \<times> int" where
  "copy_digits dst i n =
     (if i > 0 \<and> n \<ge> 10
      then let i' = i - 1; q = n div 10
           in copy_digits (dst[i' := char_of (48 + (n - q * 10))]) i' q
      else (dst, i, n))"

declare copy_digits.simps [simp del]

text \<open>The loop \<open>for o := len(dst) - p; i > o;\<close>: writes the padding byte, panics below index 0.\<close>

fun pad_left :: "bytes \<Rightarrow> nat \<Rightarrow> int \<Rightarrow> char \<Rightarrow> (bytes \<times> nat) go" where
  "pad_left dst i off c =
     (if int i > off
      then if i = 0 then Inl IndexOutOfRange
           else pad_left (dst[i - 1 := c]) (i - 1) off c
      else Inr (dst, i))"

declare pad_left.simps [simp del]

definition CopyPaddingRightUint :: "bytes \<Rightarrow> int \<Rightarrow> int \<Rightarrow> char \<Rightarrow> (bytes \<times> nat) go" where
  "CopyPaddingRightUint dst n p c =
     (let (dst1, i, n1) = copy_digits dst (length dst) n
      in if i > 0
         then pad_left (dst1[i - 1 := char_of (48 + n1)]) (i - 1) (i64 (int (length dst) - p)) c
         else Inr (dst1, i))"

definition CopyRightUint :: "bytes \<Rightarrow> int \<Rightarrow> bytes \<times> nat" where
  "CopyRightUint dst n =
     (let (dst1, i, n1) = copy_digits dst (length dst) n
      in if i > 0 then (dst1[i - 1 := char_of (48 + n1)], i - 1) else (dst1, i))"

definition AppendPaddingUint :: "bytes \<Rightarrow> int \<Rightarrow> int \<Rightarrow> char \<Rightarrow> bytes go" where
  "AppendPaddingUint dst n p c =
     (if n < 0 then Inl (PanicMsg ''number must be positive'')
      else if p > 20 then Inl (PanicMsg ''padding size must be at most 20'')
      else go_bind (CopyPaddingRightUint (replicate 20 (CHR 0x00)) n p c)
             (\<lambda>(b, off). Inr (dst @ drop off b)))"

definition AppendZeroPaddingUint :: "bytes \<Rightarrow> int \<Rightarrow> int \<Rightarrow> bytes go" where
  "AppendZeroPaddingUint dst n p = AppendPaddingUint dst n p (CHR ''0'')"

definition AppendSpacePaddingUint :: "bytes \<Rightarrow> int \<Rightarrow> int \<Rightarrow> bytes go" where
  "AppendSpacePaddingUint dst n p = AppendPaddingUint dst n p (CHR '' '')"

text \<open>The element loop of \<open>Bytes2dEqual\<close>, run when the outer lengths agree.\<close>

fun bytes2d_loop :: "bytes list \<Rightarrow> bytes list \<Rightarrow> bool" where
  "bytes2d_loop (x # xs) (y # ys) = (if x \<noteq> y then False else bytes2d_loop xs ys)"
| "bytes2d_loop _ _ = True"

definition Bytes2dEqual :: "bytes list \<Rightarrow> bytes list \<Rightarrow> bool" where
  "Bytes2dEqual a b = (if length a \<noteq> length b then False else bytes2d_loop a b)"

section \<open>Reference: decimal digits\<close>

definition digit :: "int \<Rightarrow> char" where
  "digit d = char_of (48 + d)"

fun digits :: "int \<Rightarrow> bytes" where
  "digits n = (if n < 10 then [digit n] else digits (n div 10) @ [digit (n mod 10)])"

declare digits.simps [simp del]

text \<open>Reading digits back.\<close>

definition decimal_value :: "bytes \<Rightarrow> int" where
  "decimal_value bs = foldl (\<lambda>v c. v * 10 + (of_char c - 48)) 0 bs"

lemma digits_small: "n < 10 \<Longrightarrow> digits n = [digit n]"
  by (simp add: digits.simps)

lemma digits_step: "10 \<le> n \<Longrightarrow> digits n = digits (n div 10) @ [digit (n mod 10)]"
  by (subst digits.simps) simp

lemma digits_nonempty [simp]: "digits n \<noteq> []"
  by (subst digits.simps) simp

lemma of_char_digit: "0 \<le> d \<Longrightarrow> d < 10 \<Longrightarrow> of_char (digit d) = 48 + d"
  by (simp add: digit_def of_char_of)

lemma decimal_value_digits: "0 \<le> n \<Longrightarrow> decimal_value (digits n) = n"
proof (induction n rule: digits.induct)
  case (1 n)
  show ?case
  proof (cases "n < 10")
    case True
    with "1.prems" show ?thesis
      by (simp add: digits_small decimal_value_def of_char_digit)
  next
    case False
    with 1 have "decimal_value (digits (n div 10)) = n div 10"
      by simp
    with False show ?thesis
      by (simp add: digits_step decimal_value_def of_char_digit)
  qed
qed

lemma digits_are_digits: "0 \<le> n \<Longrightarrow> c \<in> set (digits n) \<Longrightarrow> \<exists>d. 0 \<le> d \<and> d < 10 \<and> c = digit d"
proof (induction n rule: digits.induct)
  case (1 n)
  show ?case
  proof (cases "n < 10")
    case True
    with 1 show ?thesis by (auto simp: digits_small)
  next
    case False
    with "1.prems" consider "c \<in> set (digits (n div 10))" | "c = digit (n mod 10)"
      by (auto simp: digits_step)
    then show ?thesis
    proof cases
      case 1
      with "1.IH" False "1.prems" show ?thesis by simp
    next
      case 2
      then show ?thesis
        by (intro exI [of _ "n mod 10"]) simp
    qed
  qed
qed

lemma length_digits_le: "0 \<le> n \<Longrightarrow> n < 10 ^ k \<Longrightarrow> 0 < k \<Longrightarrow> length (digits n) \<le> k"
proof (induction n arbitrary: k rule: digits.induct)
  case (1 n)
  show ?case
  proof (cases "n < 10")
    case True
    with "1.prems" show ?thesis by (simp add: digits_small)
  next
    case False
    with "1.prems" have k: "1 < k"
      by (cases "k = 1") auto
    then obtain j where j: "k = Suc j" "0 < j"
      by (cases k) auto
    have "n div 10 < 10 ^ j"
      using "1.prems" j by simp
    with 1 False j have "length (digits (n div 10)) \<le> j"
      by simp
    with False j show ?thesis
      by (simp add: digits_step)
  qed
qed

lemma length_digits_gt: "10 ^ k \<le> n \<Longrightarrow> k < length (digits n)"
proof (induction k arbitrary: n)
  case (Suc k)
  then have le: "10 * 10 ^ k \<le> n"
    by simp
  moreover have "(1::int) \<le> 10 ^ k"
    by simp
  ultimately have "10 ^ k \<le> n div 10" "10 \<le> n"
    by linarith+
  with Suc.IH [of "n div 10"] show ?case
    by (simp add: digits_step)
qed simp

section \<open>The copy loops write the digits, right-aligned\<close>

text \<open>The part both copy functions share: the digit loop and the last digit.\<close>

definition write_digits :: "bytes \<Rightarrow> nat \<Rightarrow> int \<Rightarrow> bytes \<times> nat" where
  "write_digits dst i n =
     (let (d, j, m) = copy_digits dst i n
      in if j > 0 then (d[j - 1 := digit m], j - 1) else (d, j))"

lemma CopyRightUint_write: "CopyRightUint dst n = write_digits dst (length dst) n"
  unfolding CopyRightUint_def write_digits_def digit_def ..

lemma write_digits_spec:
  assumes "0 \<le> n" "i \<le> length dst"
  defines "k \<equiv> min i (length (digits n))"
  shows "write_digits dst i n =
    (take (i - k) dst @ drop (length (digits n) - k) (digits n) @ drop i dst, i - k)"
  using assms(1,2) unfolding k_def
proof (induction dst i n rule: copy_digits.induct)
  case (1 dst i n)
  consider "i = 0" | "0 < i" "n < 10" | "0 < i" "10 \<le> n"
    by linarith
  then show ?case
  proof cases
    case 1
    then show ?thesis
      by (simp add: write_digits_def copy_digits.simps)
  next
    case 2
    then show ?thesis
      using "1.prems" list_update_split [of "i - 1" dst "digit n"]
      by (simp add: write_digits_def copy_digits.simps digits_small)
  next
    case 3
    let ?dst = "dst[i - 1 := digit (n mod 10)]"
    have step: "write_digits dst i n = write_digits ?dst (i - 1) (n div 10)"
      using 3 by (simp add: write_digits_def copy_digits.simps [of dst i n] digit_def
          minus_div_mult_eq_mod Let_def)
    have "drop (i - 1) ?dst = digit (n mod 10) # drop i dst"
      using 3 "1.prems" by (simp add: list_update_split)
    moreover have "write_digits ?dst (i - 1) (n div 10) =
      (take (i - 1 - min (i - 1) (length (digits (n div 10)))) ?dst @
       drop (length (digits (n div 10)) - min (i - 1) (length (digits (n div 10)))) (digits (n div 10)) @
       drop (i - 1) ?dst, i - 1 - min (i - 1) (length (digits (n div 10))))"
      using "1.IH" [of "i - 1" "n div 10"] 3 "1.prems"
      by (simp add: digit_def minus_div_mult_eq_mod)
    ultimately have w: "write_digits dst i n =
      (take (i - 1 - min (i - 1) L) dst @ drop (L - min (i - 1) L) (digits (n div 10)) @
       digit (n mod 10) # drop i dst, i - 1 - min (i - 1) L)"
      if "L = length (digits (n div 10))" for L
      using that by (simp add: step take_update_cancel)
    obtain j where "i = Suc j"
      using 3 by (cases i) auto
    then show ?thesis
      using 3 w [OF refl] by (simp add: digits_step [of n] min_Suc_Suc)
  qed
qed

lemma pad_left_spec:
  assumes "i \<le> length dst"
  shows "pad_left dst i off c =
    (if off < 0 then Inl IndexOutOfRange
     else if int i \<le> off then Inr (dst, i)
     else Inr (take (nat off) dst @ replicate (i - nat off) c @ drop i dst, nat off))"
  using assms
proof (induction dst i off c rule: pad_left.induct)
  case (1 dst i off c)
  show ?case
  proof (cases "int i > off \<and> 0 < i")
    case True
    then obtain j where j: "i = Suc j"
      by (cases i) auto
    have d: "drop j (dst[j := c]) = c # drop i dst"
      using "1.prems" j by (simp add: list_update_split)
    have rep: "replicate (i - nat off) c = replicate (j - nat off) c @ [c]" if "0 \<le> off"
      using True that j by (simp add: Suc_diff_le replicate_append_same nat_le_iff)
    show ?thesis
      using True 1 j d rep
      by (cases "off = int j")
         (auto simp: pad_left.simps [of dst "Suc j"] nat_le_iff take_update_cancel list_update_split)
  next
    case False
    then show ?thesis
      by (auto simp: pad_left.simps [of dst i])
  qed
qed

section \<open>The append functions\<close>

lemma length_digits_int64: "0 \<le> n \<Longrightarrow> n < 2 ^ 63 \<Longrightarrow> length (digits n) \<le> 19"
  by (rule length_digits_le) simp_all

lemma CopyPaddingRightUint_20:
  assumes n: "0 \<le> n" "n < 2 ^ 63"
  shows "CopyPaddingRightUint (replicate 20 z) n p c =
    pad_left (replicate (20 - length (digits n)) z @ digits n) (20 - length (digits n)) (i64 (20 - p)) c"
proof -
  have L: "length (digits n) \<le> 19"
    using n by (rule length_digits_int64)
  obtain d j m where cd: "copy_digits (replicate 20 z) 20 n = (d, j, m)"
    by (cases "copy_digits (replicate 20 z) 20 n") auto
  have w: "write_digits (replicate 20 z) 20 n =
      (replicate (20 - length (digits n)) z @ digits n, 20 - length (digits n))"
    using write_digits_spec [of n 20 "replicate 20 z"] n L by (simp add: min_def)
  show ?thesis
    using w cd L by (auto simp: CopyPaddingRightUint_def write_digits_def digit_def split: if_splits)
qed

text \<open>
  The behaviour of \<open>AppendPaddingUint\<close> on every Go \<open>int\<close> argument, panics included. (Below
  \<open>21 - 2^63\<close> the subtraction \<open>len(dst) - p\<close> overflows and the padding loop runs off the buffer.)
\<close>

lemma AppendPaddingUint_eq:
  assumes "n < 2 ^ 63" "- (2 ^ 63) \<le> p"
  shows "AppendPaddingUint dst n p c =
    (if n < 0 then Inl (PanicMsg ''number must be positive'')
     else if p > 20 then Inl (PanicMsg ''padding size must be at most 20'')
     else if p < 21 - 2 ^ 63 then Inl IndexOutOfRange
     else Inr (dst @ replicate (nat p - length (digits n)) c @ digits n))"
proof (cases "n < 0 \<or> p > 20")
  case True
  then show ?thesis
    by (auto simp: AppendPaddingUint_def)
next
  case False
  define L where "L = length (digits n)"
  have L: "L \<le> 19"
    using False assms(1) by (simp add: L_def length_digits_int64)
  let ?b = "replicate (20 - L) (CHR 0x00) @ digits n"
  have A: "AppendPaddingUint dst n p c =
      go_bind (pad_left ?b (20 - L) (i64 (20 - p)) c) (\<lambda>(b, off). Inr (dst @ drop off b))"
    using False assms(1) by (simp add: AppendPaddingUint_def CopyPaddingRightUint_20 L_def)
  have le: "20 - L \<le> length ?b"
    using L by (simp add: L_def)
  show ?thesis
  proof (cases "p < 21 - 2 ^ 63")
    case True
    have "i64 (20 - p) < 0"
      using True assms(2) by (simp add: i64_overflow)
    with False True show ?thesis
      by (simp add: A pad_left_spec [OF le])
  next
    case pge: False
    have o: "i64 (20 - p) = 20 - p"
      using pge False by simp
    show ?thesis
    proof (cases "p \<le> int L")
      case True
      with False pge L show ?thesis
        by (simp add: A pad_left_spec [OF le] o L_def [symmetric])
    next
      case F: False
      have "nat (20 - p) = 20 - nat p" "nat p \<le> 20" "L < nat p"
        using False F by auto
      with False F pge L show ?thesis
        by (simp add: A pad_left_spec [OF le] o L_def [symmetric])
    qed
  qed
qed

lemma AppendPaddingUint_ok [go_simps]:
  "0 \<le> n \<Longrightarrow> n < 2 ^ 63 \<Longrightarrow> 0 \<le> p \<Longrightarrow> p \<le> 20 \<Longrightarrow>
   AppendPaddingUint dst n p c = Inr (dst @ replicate (nat p - length (digits n)) c @ digits n)"
  by (simp add: AppendPaddingUint_eq)

lemmas AppendZeroPaddingUint_ok [go_simps] =
  AppendPaddingUint_ok [where c = "CHR ''0''", folded AppendZeroPaddingUint_def]

lemmas AppendSpacePaddingUint_ok [go_simps] =
  AppendPaddingUint_ok [where c = "CHR '' ''", folded AppendSpacePaddingUint_def]

text \<open>Zero padding does not change the value read back.\<close>

lemma decimal_value_zeros:
  "decimal_value (replicate k (CHR ''0'') @ bs) = decimal_value bs"
  by (induction k) (simp_all add: decimal_value_def)

lemma bytes2d_loop_eq: "length a = length b \<Longrightarrow> bytes2d_loop a b \<longleftrightarrow> a = b"
  by (induction a b rule: list_induct2) simp_all

section \<open>Properties\<close>

text \<open>\<open>AppendPaddingUint\<close> on every Go \<open>int\<close>: it panics exactly on a negative number, on a padding
  size above 20 and on a padding size so negative that \<open>len(dst) - p\<close> overflows; otherwise it appends
  the decimal digits of the number, padded on the left to at least \<open>p\<close> characters.\<close>

lemma AppendPaddingUint_total:
  assumes "n < 2 ^ 63" "- (2 ^ 63) \<le> p"
  shows "AppendPaddingUint dst n p c =
    (if n < 0 then Inl (PanicMsg ''number must be positive'')
     else if p > 20 then Inl (PanicMsg ''padding size must be at most 20'')
     else if p < 21 - 2 ^ 63 then Inl IndexOutOfRange
     else Inr (dst @ replicate (nat p - length (digits n)) c @ digits n))"
  using assms by (rule AppendPaddingUint_eq)

lemma AppendPaddingUint_total_witness:
  "AppendPaddingUint ''at '' 7 3 (CHR ''0'') = Inr ''at 007''"
  using AppendPaddingUint_total [of 7 3 "''at ''" "CHR ''0''"]
  by (simp add: digits_small digit_def char_of_def numeral_eq_Suc)

end
