(* ===== verification/UtilHttp.thy ===== *)
theory UtilHttp
  imports GoPrelude
begin

text \<open>
  \<open>pkg/util/http.go\<close> and \<open>pkg/util/strings.go\<close>: URI scheme and status tests, splitting and extending
  a request URI at its query string, and the two string-list types (\<open>StringList\<close>, the command line's
  repeated flag, and \<open>StringSet\<close>, the duplicate-free list of filter names).
\<close>

section \<open>http.go\<close>

definition HttpProtocol :: bytes where
  "HttpProtocol = ''http://''"

definition HttpsProtocol :: bytes where
  "HttpsProtocol = ''https://''"

definition IsHttpOrHttps :: "bytes \<Rightarrow> bool" where
  "IsHttpOrHttps uri \<longleftrightarrow> HasPrefix uri HttpProtocol \<or> HasPrefix uri HttpsProtocol"

definition IsHttpStatusRedirect :: "int \<Rightarrow> bool" where
  "IsHttpStatusRedirect status =
     (if status = 0 then False
      else status = 301 \<or> status = 302 \<or> status = 303 \<or> status = 307 \<or> status = 308)"

text \<open>The second component is nil when there is no \<open>?\<close>.\<close>

definition SplitRequestURI :: "bytes \<Rightarrow> bytes \<times> bytes option" where
  "SplitRequestURI uri =
     (let q = IndexByte uri (CHR ''?'')
      in if q = - 1 then (uri, None) else (take (nat q) uri, Some (drop (nat (q + 1)) uri)))"

definition AppendQueryString :: "bytes \<Rightarrow> bytes \<Rightarrow> bytes" where
  "AppendQueryString dst qstr =
     (let q = IndexByte dst (CHR ''?'');
          dst' = (if q = - 1 then dst @ ''?'' else dst @ ''&'')
      in dst' @ qstr)"

section \<open>strings.go\<close>

text \<open>\<open>StringList.Set\<close> and \<open>StringList.String\<close> (\<open>strings.Join\<close> with a comma).\<close>

definition StringList_Set :: "string list \<Rightarrow> string \<Rightarrow> string list" where
  "StringList_Set ss v = ss @ [v]"

fun StringList_String :: "string list \<Rightarrow> string" where
  "StringList_String [] = []"
| "StringList_String [s] = s"
| "StringList_String (s # t # ss) = s @ '','' @ StringList_String (t # ss)"

text \<open>The inner loop of \<open>StringSet.Append\<close> looks for the value, the outer loop appends it.\<close>

fun string_seen :: "string list \<Rightarrow> string \<Rightarrow> bool" where
  "string_seen [] v = False"
| "string_seen (s # ss) v = (if s = v then True else string_seen ss v)"

fun StringSet_Append :: "string list \<Rightarrow> string list \<Rightarrow> string list" where
  "StringSet_Append ss [] = ss"
| "StringSet_Append ss (v # vs) =
     (if string_seen ss v then StringSet_Append ss vs else StringSet_Append (ss @ [v]) vs)"

section \<open>Lemmas\<close>

lemma string_seen_iff [simp]: "string_seen ss v \<longleftrightarrow> v \<in> set ss"
  by (induction ss) auto

lemma SplitRequestURI_none [go_simps]:
  "CHR ''?'' \<notin> set p \<Longrightarrow> SplitRequestURI p = (p, None)"
  by (simp add: SplitRequestURI_def IndexByte_absent)

lemma SplitRequestURI_some [go_simps]:
  "CHR ''?'' \<notin> set p \<Longrightarrow> SplitRequestURI (p @ CHR ''?'' # q) = (p, Some q)"
  by (simp add: SplitRequestURI_def IndexByte_split Let_def nat_add_distrib)

text \<open>Every URI splits one of these two ways.\<close>

lemma request_uri_cases:
  obtains "CHR ''?'' \<notin> set uri"
  | p q where "uri = p @ CHR ''?'' # q" "CHR ''?'' \<notin> set p"
  by (metis split_list_first)

lemma SplitRequestURI_path_prefix: "HasPrefix uri (fst (SplitRequestURI uri))"
  by (cases uri rule: request_uri_cases) (auto simp: go_simps HasPrefix_iff)

lemma SplitRequestURI_no_query: "CHR ''?'' \<notin> set (fst (SplitRequestURI uri))"
  by (cases uri rule: request_uri_cases) (auto simp: go_simps)

lemma StringSet_Append_set: "set (StringSet_Append ss vs) = set ss \<union> set vs"
  by (induction ss vs rule: StringSet_Append.induct) auto

lemma StringSet_Append_distinct: "distinct ss \<Longrightarrow> distinct (StringSet_Append ss vs)"
  by (induction ss vs rule: StringSet_Append.induct) auto

lemma StringSet_Append_append:
  "StringSet_Append ss (us @ vs) = StringSet_Append (StringSet_Append ss us) vs"
  by (induction ss us rule: StringSet_Append.induct) auto

text \<open>The values of a list in order of first occurrence.\<close>

definition first_occurrences :: "'a list \<Rightarrow> 'a list" where
  "first_occurrences vs = rev (remdups (rev vs))"

lemma first_occurrences_snoc:
  "first_occurrences (vs @ [v]) =
     (if v \<in> set vs then first_occurrences vs else first_occurrences vs @ [v])"
  by (simp add: first_occurrences_def)

lemma set_first_occurrences [simp]: "set (first_occurrences vs) = set vs"
  by (simp add: first_occurrences_def)

lemma StringSet_Append_eq:
  "StringSet_Append ss vs = ss @ filter (\<lambda>v. v \<notin> set ss) (first_occurrences vs)"
proof (induction vs rule: rev_induct)
  case Nil
  show ?case by (simp add: first_occurrences_def)
next
  case (snoc v vs)
  have "StringSet_Append ss (vs @ [v]) =
      (if v \<in> set (StringSet_Append ss vs) then StringSet_Append ss vs
       else StringSet_Append ss vs @ [v])"
    by (simp add: StringSet_Append_append)
  then show ?case
    by (auto simp: snoc.IH first_occurrences_snoc)
qed

section \<open>Properties\<close>

text \<open>\<open>StringSet.Append\<close> keeps what is there and adds exactly the new values that were not yet
  present, each once, in the order in which they first occur; a duplicate-free set stays so.\<close>

lemma StringSet_Append_correct:
  "StringSet_Append ss vs = ss @ filter (\<lambda>v. v \<notin> set ss) (first_occurrences vs) \<and>
   (distinct (StringSet_Append ss vs) \<longleftrightarrow> distinct ss)"
proof -
  have "distinct (first_occurrences vs)"
    by (simp add: first_occurrences_def)
  then show ?thesis
    by (auto simp: StringSet_Append_eq)
qed

text \<open>Splitting a request URI and appending a query string fit together: what
  \<open>AppendQueryString\<close> builds splits into the old path and the old query joined with the new one by
  \<open>&\<close>, or the new one alone when there was none.\<close>

lemma split_append_query:
  "SplitRequestURI (AppendQueryString uri q) =
     (fst (SplitRequestURI uri),
      Some (case snd (SplitRequestURI uri) of None \<Rightarrow> q | Some q0 \<Rightarrow> q0 @ ''&'' @ q))"
proof (cases uri rule: request_uri_cases)
  case 1
  then show ?thesis
    by (simp add: AppendQueryString_def IndexByte_absent go_simps)
next
  case (2 p q0)
  then have "AppendQueryString uri q = p @ CHR ''?'' # (q0 @ ''&'' @ q)"
    by (simp add: AppendQueryString_def IndexByte_split Let_def)
  with 2 show ?thesis
    by (simp add: SplitRequestURI_some)
qed

end
