(* ===== verification/CacheKey.thy ===== *)
theory CacheKey
  imports GoPrelude
begin

text \<open>
  The cache keys of \<open>pkg/util/cache.go\<close>: a builder that writes length-prefixed fields into a
  \<open>maphash.Hash\<close>. A \<open>maphash.Hash\<close> is modelled by the bytes written since its last \<open>Reset\<close>; its
  64-bit value \<open>Sum64\<close> under the process-wide seed is a function of those bytes, the parameter \<open>mh\<close>
  (\<open>maphash\<close> picks the seed at random, so nothing else is known about it).
\<close>

section \<open>Model\<close>

type_synonym key = "64 word"
type_synonym maphash = "bytes \<Rightarrow> key"

record CacheKeyBuilder =
  hashed :: bytes
  lenBuf :: bytes

text \<open>\<open>binary.LittleEndian.PutUint32\<close> into a four-byte buffer.\<close>

definition PutUint32 :: "32 word \<Rightarrow> bytes" where
  "PutUint32 w =
     [char_of (unat w), char_of (unat (drop_bit 8 w)),
      char_of (unat (drop_bit 16 w)), char_of (unat (drop_bit 24 w))]"

text \<open>\<open>pool\<close> is the builder the pool handed out (or the fresh one of its \<open>New\<close>): \<open>Reset\<close> empties it.\<close>

definition AcquireCacheKeyBuilder :: "CacheKeyBuilder \<Rightarrow> CacheKeyBuilder" where
  "AcquireCacheKeyBuilder pool = pool\<lparr>hashed := []\<rparr>"

definition Write :: "CacheKeyBuilder \<Rightarrow> bytes \<Rightarrow> CacheKeyBuilder" where
  "Write b p =
     (let b1 = b\<lparr>lenBuf := PutUint32 (word_of_nat (length p))\<rparr>;
          b2 = b1\<lparr>hashed := hashed b1 @ lenBuf b1\<rparr>
      in b2\<lparr>hashed := hashed b2 @ p\<rparr>)"

definition WriteString :: "CacheKeyBuilder \<Rightarrow> string \<Rightarrow> CacheKeyBuilder" where
  "WriteString b s =
     (let b1 = b\<lparr>lenBuf := PutUint32 (word_of_nat (length s))\<rparr>;
          b2 = b1\<lparr>hashed := hashed b1 @ lenBuf b1\<rparr>
      in b2\<lparr>hashed := hashed b2 @ s\<rparr>)"

definition Sum :: "maphash \<Rightarrow> CacheKeyBuilder \<Rightarrow> key" where
  "Sum mh b = mh (hashed b)"

definition CacheKeyOf :: "maphash \<Rightarrow> bytes \<Rightarrow> key" where
  "CacheKeyOf mh p = mh (PutUint32 (word_of_nat (length p)) @ p)"

definition CacheKeyOfString :: "maphash \<Rightarrow> string \<Rightarrow> key" where
  "CacheKeyOfString mh s = mh (PutUint32 (word_of_nat (length s)) @ s)"

section \<open>Lemmas\<close>

text \<open>The field encoding, and the value a four-byte prefix stands for.\<close>

definition enc_field :: "bytes \<Rightarrow> bytes" where
  "enc_field p = PutUint32 (word_of_nat (length p)) @ p"

definition le_value :: "bytes \<Rightarrow> nat" where
  "le_value bs = foldr (\<lambda>c v. of_char c + 256 * v) bs 0"

lemma length_PutUint32 [simp]: "length (PutUint32 w) = 4"
  by (simp add: PutUint32_def)

lemma byte_split:
  fixes x :: nat
  shows "x mod 256 + 256 * (x div 2 ^ 8 mod 256 + 256 * (x div 2 ^ 16 mod 256 + 256 * (x div 2 ^ 24))) = x"
proof -
  have d: "x div 2 ^ 16 = x div 2 ^ 8 div 256" "x div 2 ^ 24 = x div 2 ^ 8 div 256 div 256"
    by (simp_all add: div_mult2_eq [symmetric])
  show ?thesis
    unfolding d by simp
qed

lemma le_value_PutUint32: "le_value (PutUint32 w) = unat w"
proof -
  have "unat w < 2 ^ 32"
    using unsigned_less [of w] by simp
  with byte_split [of "unat w"] show ?thesis
    by (simp add: le_value_def PutUint32_def of_char_of drop_bit_eq_div unat_div)
qed

lemma PutUint32_inject [simp]: "PutUint32 v = PutUint32 w \<longleftrightarrow> v = w"
  by (metis le_value_PutUint32 unsigned_word_eqI)

lemma enc_field_append_inject:
  assumes "length p < 2 ^ 32" "length q < 2 ^ 32"
  shows "enc_field p @ r = enc_field q @ s \<longleftrightarrow> p = q \<and> r = s"
proof
  assume eq: "enc_field p @ r = enc_field q @ s"
  then have "PutUint32 (word_of_nat (length p)) = PutUint32 (word_of_nat (length q))"
    unfolding enc_field_def by (metis append_assoc append_eq_append_conv length_PutUint32)
  then have "unat (word_of_nat (length p) :: 32 word) = unat (word_of_nat (length q) :: 32 word)"
    by simp
  with assms have "length p = length q"
    by (simp add: unat_of_nat)
  with eq show "p = q \<and> r = s"
    by (simp add: enc_field_def)
qed simp

lemma enc_field_nonempty [simp]: "enc_field p \<noteq> []"
  by (simp add: enc_field_def PutUint32_def)

lemma hashed_Acquire [simp]: "hashed (AcquireCacheKeyBuilder b) = []"
  by (simp add: AcquireCacheKeyBuilder_def)

lemma hashed_Write [simp]: "hashed (Write b p) = hashed b @ enc_field p"
  by (simp add: Write_def enc_field_def Let_def)

lemma WriteString_Write: "WriteString b s = Write b s"
  by (simp add: WriteString_def Write_def)

lemma hashed_foldl_Write: "hashed (foldl Write b fs) = hashed b @ concat (map enc_field fs)"
  by (induction fs arbitrary: b) simp_all

lemma concat_enc_inject:
  assumes "\<forall>p \<in> set fs. length p < 2 ^ 32" "\<forall>q \<in> set gs. length q < 2 ^ 32"
  shows "concat (map enc_field fs) = concat (map enc_field gs) \<longleftrightarrow> fs = gs"
  using assms
proof (induction fs arbitrary: gs)
  case Nil
  then show ?case by (cases gs) simp_all
next
  case (Cons f fs)
  show ?case
  proof (cases gs)
    case (Cons g gs')
    with Cons.prems Cons.IH [of gs'] show ?thesis
      by (simp add: enc_field_append_inject)
  qed simp
qed

section \<open>Properties\<close>

text \<open>C18. Two sequences of fields written into a builder (whatever builder the pool handed out) feed
  the hash the same bytes exactly if they are the same fields: the length prefixes rule out the
  composition ambiguity, as long as no field is 4 GiB or longer.\<close>

theorem key_fields_unambiguous:
  assumes "\<forall>p \<in> set fs. length p < 2 ^ 32" "\<forall>q \<in> set gs. length q < 2 ^ 32"
  shows "hashed (foldl Write (AcquireCacheKeyBuilder b) fs) =
         hashed (foldl Write (AcquireCacheKeyBuilder b') gs) \<longleftrightarrow> fs = gs"
  using assms by (simp add: hashed_foldl_Write concat_enc_inject)

theorem key_fields_unambiguous_witness:
  "hashed (foldl Write (AcquireCacheKeyBuilder \<lparr>hashed = ''x'', lenBuf = []\<rparr>) [''ab'', ''c'']) \<noteq>
   hashed (foldl Write (AcquireCacheKeyBuilder \<lparr>hashed = [], lenBuf = ''1234''\<rparr>) [''a'', ''bc''])"
  by (subst key_fields_unambiguous) simp_all

end
