(* ===== verification/CacheStore.thy ===== *)
theory CacheStore
  imports CacheKey "HOL-Library.AList" "HOL-Library.Multiset"
begin

text \<open>
  The cache of \<open>pkg/util/cache.go\<close>. Its methods run under the cache's mutex, so each is one atomic
  function on the state; \<open>cacheNow()\<close> is the argument \<open>now\<close> (milliseconds). The two kinds of goroutine
  the code starts are explicit: \<open>go c.evict(now)\<close> adds \<open>now\<close> to \<open>pending\<close>, to be run at any later time
  by \<open>run_evict\<close>, and \<open>go onRelease(k, v)\<close> adds the call to \<open>released\<close>. \<open>evictions\<close> is a ghost log of
  every eviction pass ever started. The Go map is an association list with distinct keys, because
  \<open>evict\<close> walks it in some order.

  The interface the route cache relies on is the locale \<open>cache_laws\<close>, interpreted here on the model.
\<close>

section \<open>Model\<close>

text \<open>A Go \<open>any\<close>: \<open>None\<close> is the nil interface.\<close>

type_synonym 'v any = "'v option"

record 'v cacheValue =
  "value" :: "'v any"
  peek :: int

record ('v, 'f) cache =
  store :: "(key \<times> 'v cacheValue) list"
  expire :: int
  interval :: int
  next_at :: int
  max_entries :: int
  onRelease :: "'f option"
  pending :: "int list"
  evictions :: "int list"
  released :: "('f \<times> key \<times> 'v any) list"

record CacheConfig =
  Expire :: int
  Interval :: int
  MaxEntries :: int

definition defaultCacheExpire :: int where
  "defaultCacheExpire = 5 * 60 * 1000"

definition defaultCacheInterval :: int where
  "defaultCacheInterval = 60 * 1000"

definition NewCache :: "int \<Rightarrow> CacheConfig \<Rightarrow> ('v, 'f) cache" where
  "NewCache now cfg =
     (let ex = (if Expire cfg \<le> 0 then defaultCacheExpire else Expire cfg);
          iv = (if Interval cfg \<le> 0 then defaultCacheInterval else Interval cfg)
      in \<lparr>store = [], expire = ex, interval = iv, next_at = i64 (now + iv),
          max_entries = MaxEntries cfg, onRelease = None,
          pending = [], evictions = [], released = []\<rparr>)"

definition scheduleEvictLocked :: "int \<Rightarrow> ('v, 'f) cache \<Rightarrow> ('v, 'f) cache" where
  "scheduleEvictLocked now c =
     (if now < next_at c then c
      else c\<lparr>next_at := i64 (now + interval c), pending := pending c @ [now],
             evictions := evictions c @ [now]\<rparr>)"

definition Get :: "int \<Rightarrow> key \<Rightarrow> ('v, 'f) cache \<Rightarrow> 'v any \<times> ('v, 'f) cache" where
  "Get now k c =
     (case map_of (store c) k of
        None \<Rightarrow> (None, c)
      | Some v \<Rightarrow>
          (value v,
           scheduleEvictLocked now (c\<lparr>store := AList.update k (v\<lparr>peek := now\<rparr>) (store c)\<rparr>)))"

definition Set :: "int \<Rightarrow> key \<Rightarrow> 'v any \<Rightarrow> ('v, 'f) cache \<Rightarrow> ('v, 'f) cache" where
  "Set now k v c =
     (if max_entries c > 0 \<and> int (length (store c)) \<ge> max_entries c \<and> map_of (store c) k = None
      then scheduleEvictLocked now c
      else scheduleEvictLocked now
             (c\<lparr>store := AList.update k \<lparr>value = v, peek = now\<rparr> (store c)\<rparr>))"

definition Del :: "key \<Rightarrow> ('v, 'f) cache \<Rightarrow> ('v, 'f) cache" where
  "Del k c =
     (case map_of (store c) k of
        None \<Rightarrow> c
      | Some v \<Rightarrow>
          let c1 = c\<lparr>store := AList.delete k (store c)\<rparr>
          in case onRelease c1 of
               None \<Rightarrow> c1
             | Some f \<Rightarrow> c1\<lparr>released := released c1 @ [(f, k, value v)]\<rparr>)"

definition Len :: "('v, 'f) cache \<Rightarrow> int" where
  "Len c = int (length (store c))"

definition OnRelease :: "'f option \<Rightarrow> ('v, 'f) cache \<Rightarrow> ('v, 'f) cache" where
  "OnRelease cb c = c\<lparr>onRelease := cb\<rparr>"

text \<open>The walk of \<open>evict\<close>: the entries it keeps and the release list it builds.\<close>

fun evict_walk :: "int \<Rightarrow> int \<Rightarrow> 'f option \<Rightarrow> (key \<times> 'v cacheValue) list \<Rightarrow>
    (key \<times> 'v cacheValue) list \<times> (key \<times> 'v any) list" where
  "evict_walk now ex cb [] = ([], [])"
| "evict_walk now ex cb ((k, v) # kvs) =
     (let (kept, rel) = evict_walk now ex cb kvs
      in if i64 (now - peek v) > ex
         then (kept, if cb \<noteq> None then (k, value v) # rel else rel)
         else ((k, v) # kept, rel))"

definition evict :: "int \<Rightarrow> ('v, 'f) cache \<Rightarrow> ('v, 'f) cache" where
  "evict now c =
     (let (kept, toRelease) = evict_walk now (expire c) (onRelease c) (store c);
          c1 = c\<lparr>store := kept\<rparr>
      in case onRelease c of
           None \<Rightarrow> c1
         | Some f \<Rightarrow> c1\<lparr>released := released c1 @ map (\<lambda>(k, v). (f, k, v)) toRelease\<rparr>)"

text \<open>One eviction goroutine that was started for time \<open>t\<close> runs to its end.\<close>

definition run_evict :: "int \<Rightarrow> ('v, 'f) cache \<Rightarrow> ('v, 'f) cache" where
  "run_evict t c = evict t (c\<lparr>pending := remove1 t (pending c)\<rparr>)"

text \<open>
  The concurrent system: any goroutine may call any method, an eviction pass may run at any time
  after it was started, and the wall clock may be set to any time (also backwards) representable
  well within 64 bits.
\<close>

inductive cache_step :: "int \<times> ('v, 'f) cache \<Rightarrow> int \<times> ('v, 'f) cache \<Rightarrow> bool" where
  tick: "0 \<le> t' \<Longrightarrow> t' < 2 ^ 62 \<Longrightarrow> cache_step (t, c) (t', c)"
| get: "cache_step (t, c) (t, snd (Get t k c))"
| set: "cache_step (t, c) (t, Set t k v c)"
| del: "cache_step (t, c) (t, Del k c)"
| on_release: "cache_step (t, c) (t, OnRelease cb c)"
| evict: "e \<in> List.set (pending c) \<Longrightarrow> cache_step (t, c) (t, run_evict e c)"

inductive cache_reach :: "CacheConfig \<Rightarrow> int \<times> ('v, 'f) cache \<Rightarrow> bool" for cfg where
  new: "0 \<le> t \<Longrightarrow> t < 2 ^ 62 \<Longrightarrow> cache_reach cfg (t, NewCache t cfg)"
| step: "cache_reach cfg s \<Longrightarrow> cache_step s s' \<Longrightarrow> cache_reach cfg s'"

section \<open>Lookup: the abstract map\<close>

definition lookup :: "('v, 'f) cache \<Rightarrow> key \<Rightarrow> 'v any" where
  "lookup c k = (case map_of (store c) k of None \<Rightarrow> None | Some v \<Rightarrow> value v)"

named_theorems cache_simps \<open>fields after each cache operation\<close>

lemma schedule_fields [simp]:
  "store (scheduleEvictLocked now c) = store c"
  "expire (scheduleEvictLocked now c) = expire c"
  "interval (scheduleEvictLocked now c) = interval c"
  "max_entries (scheduleEvictLocked now c) = max_entries c"
  "onRelease (scheduleEvictLocked now c) = onRelease c"
  "released (scheduleEvictLocked now c) = released c"
  by (simp_all add: scheduleEvictLocked_def)

lemma evict_walk_filter:
  "evict_walk now ex cb kvs =
     (filter (\<lambda>(k, v). \<not> i64 (now - peek v) > ex) kvs,
      if cb = None then []
      else map (\<lambda>(k, v). (k, value v)) (filter (\<lambda>(k, v). i64 (now - peek v) > ex) kvs))"
  by (induction kvs) auto

lemma store_evict [cache_simps]:
  "store (evict now c) = filter (\<lambda>(k, v). \<not> i64 (now - peek v) > expire c) (store c)"
  by (cases "onRelease c") (simp_all add: evict_def evict_walk_filter Let_def)

lemma released_evict [cache_simps]:
  "released (evict now c) = released c @
     (case onRelease c of None \<Rightarrow> []
      | Some f \<Rightarrow> map (\<lambda>(k, v). (f, k, value v))
                    (filter (\<lambda>(k, v). i64 (now - peek v) > expire c) (store c)))"
  by (cases "onRelease c") (simp_all add: evict_def evict_walk_filter Let_def split_def)

lemma evict_fields [simp]:
  "expire (evict now c) = expire c" "interval (evict now c) = interval c"
  "next_at (evict now c) = next_at c" "max_entries (evict now c) = max_entries c"
  "onRelease (evict now c) = onRelease c" "pending (evict now c) = pending c"
  "evictions (evict now c) = evictions c"
  by (cases "onRelease c"; simp add: evict_def evict_walk_filter Let_def)+

lemma store_Get [cache_simps]:
  "store (snd (Get now k c)) =
     (case map_of (store c) k of None \<Rightarrow> store c
      | Some v \<Rightarrow> AList.update k (v\<lparr>peek := now\<rparr>) (store c))"
  by (simp add: Get_def split: option.split)

lemma store_Set [cache_simps]:
  "store (Set now k v c) =
     (if max_entries c > 0 \<and> int (length (store c)) \<ge> max_entries c \<and> map_of (store c) k = None
      then store c else AList.update k \<lparr>value = v, peek = now\<rparr> (store c))"
  by (simp add: Set_def)

lemma store_Del [cache_simps]: "store (Del k c) = AList.delete k (store c)"
proof (cases "map_of (store c) k")
  case None
  then have "AList.delete k (store c) = store c"
    by (metis delete_id dom_map_of_conv_image_fst domIff)
  with None show ?thesis
    by (simp add: Del_def)
next
  case (Some v)
  then show ?thesis
    by (simp add: Del_def Let_def split: option.split)
qed

lemma store_OnRelease [simp]: "store (OnRelease cb c) = store c"
  by (simp add: OnRelease_def)

lemma Get_fields [simp]:
  "expire (snd (Get now k c)) = expire c" "interval (snd (Get now k c)) = interval c"
  "max_entries (snd (Get now k c)) = max_entries c" "onRelease (snd (Get now k c)) = onRelease c"
  "released (snd (Get now k c)) = released c"
  by (simp_all add: Get_def split: option.split)

lemma Set_fields [simp]:
  "expire (Set now k v c) = expire c" "interval (Set now k v c) = interval c"
  "max_entries (Set now k v c) = max_entries c" "onRelease (Set now k v c) = onRelease c"
  "released (Set now k v c) = released c"
  by (simp_all add: Set_def)

lemma Del_fields [simp]:
  "expire (Del k c) = expire c" "interval (Del k c) = interval c" "next_at (Del k c) = next_at c"
  "max_entries (Del k c) = max_entries c" "onRelease (Del k c) = onRelease c"
  "pending (Del k c) = pending c" "evictions (Del k c) = evictions c"
  by (simp_all add: Del_def Let_def split: option.split)

lemma run_evict_fields [simp]:
  "expire (run_evict t c) = expire c" "interval (run_evict t c) = interval c"
  "next_at (run_evict t c) = next_at c" "max_entries (run_evict t c) = max_entries c"
  "onRelease (run_evict t c) = onRelease c" "evictions (run_evict t c) = evictions c"
  by (simp_all add: run_evict_def)

lemma store_run_evict [cache_simps]:
  "store (run_evict t c) = filter (\<lambda>(k, v). \<not> i64 (t - peek v) > expire c) (store c)"
  by (simp add: run_evict_def cache_simps)

section \<open>Distinct keys and the capacity bound\<close>

definition cache_wf :: "('v, 'f) cache \<Rightarrow> bool" where
  "cache_wf c \<longleftrightarrow> distinct (map fst (store c)) \<and>
     (max_entries c > 0 \<longrightarrow> int (length (store c)) \<le> max_entries c)"

lemma length_update:
  "length (AList.update k v al) = (if k \<in> fst ` List.set al then length al else Suc (length al))"
proof -
  have "length (map fst (AList.update k v al)) =
      length (if k \<in> List.set (map fst al) then map fst al else map fst al @ [k])"
    by (simp only: update_keys)
  then show ?thesis by (simp split: if_splits)
qed

lemma length_delete_le: "length (AList.delete k al) \<le> length al"
  by (simp add: AList.delete_eq)

lemma map_of_None_keys: "map_of al k = None \<longleftrightarrow> k \<notin> fst ` List.set al"
  by (simp add: map_of_eq_None_iff)

lemma map_of_Some_key: "map_of al k = Some v \<Longrightarrow> k \<in> fst ` List.set al"
  by (force dest: map_of_SomeD)

lemma distinct_filter_fst: "distinct (map fst al) \<Longrightarrow> distinct (map fst (filter P al))"
  by (simp add: distinct_map_filter)

lemma wf_Get: "cache_wf c \<Longrightarrow> cache_wf (snd (Get now k c))"
  using map_of_Some_key [of "store c" k]
  by (cases "map_of (store c) k") (simp_all add: cache_wf_def cache_simps distinct_update length_update)

lemma wf_Set: "cache_wf c \<Longrightarrow> cache_wf (Set now k v c)"
  by (auto simp: cache_wf_def cache_simps distinct_update length_update map_of_None_keys)

lemma wf_Del: "cache_wf c \<Longrightarrow> cache_wf (Del k c)"
  using length_delete_le [of k "store c"]
  by (auto simp: cache_wf_def cache_simps distinct_delete)

lemma wf_run_evict: "cache_wf c \<Longrightarrow> cache_wf (run_evict t c)"
  by (auto simp: cache_wf_def cache_simps intro: distinct_filter_fst
      order_trans [OF of_nat_mono [OF length_filter_le]])

lemma wf_NewCache: "cache_wf (NewCache t cfg)"
  by (simp add: cache_wf_def NewCache_def Let_def)

lemmas cache_wf_intros = wf_Get wf_Set wf_Del wf_run_evict wf_NewCache

lemma wf_step: "cache_step s s' \<Longrightarrow> cache_wf (snd s) \<Longrightarrow> cache_wf (snd s')"
proof (induction rule: cache_step.induct)
  case (on_release t c cb)
  then show ?case by (simp add: cache_wf_def OnRelease_def)
qed (simp_all add: cache_wf_intros)

lemma reach_wf: "cache_reach cfg s \<Longrightarrow> cache_wf (snd s)"
  by (induction rule: cache_reach.induct) (simp_all add: cache_wf_intros wf_step)

section \<open>Pacing of the eviction passes\<close>

text \<open>
  What the scheduler keeps true: the configured interval is positive, every pass that was started lies
  at least one interval before the next allowed one, and successive passes are an interval apart.
\<close>

definition paced :: "('v, 'f) cache \<Rightarrow> bool" where
  "paced c \<longleftrightarrow> 0 < interval c \<and>
     (\<forall>e \<in> List.set (evictions c). e + interval c \<le> next_at c) \<and>
     sorted_wrt (\<lambda>a b. a + interval c \<le> b) (evictions c) \<and>
     mset (pending c) \<subseteq># mset (evictions c)"

lemma paced_schedule:
  assumes "paced c" "0 \<le> now" "now < 2 ^ 62" "interval c \<le> 2 ^ 62"
  shows "paced (scheduleEvictLocked now c)"
proof (cases "now < next_at c")
  case False
  have "i64 (now + interval c) = now + interval c"
    using assms by (simp add: paced_def)
  with assms False show ?thesis
    by (fastforce simp: paced_def scheduleEvictLocked_def sorted_wrt_append)
qed (use assms in \<open>simp add: scheduleEvictLocked_def\<close>)

lemma paced_store [simp]: "paced (c\<lparr>store := s\<rparr>) = paced c" "paced (c\<lparr>released := r\<rparr>) = paced c"
  "paced (c\<lparr>onRelease := f\<rparr>) = paced c"
  by (simp_all add: paced_def)

lemma paced_Get:
  "paced c \<Longrightarrow> 0 \<le> now \<Longrightarrow> now < 2 ^ 62 \<Longrightarrow> interval c \<le> 2 ^ 62 \<Longrightarrow> paced (snd (Get now k c))"
  by (auto simp: Get_def intro: paced_schedule split: option.split)

lemma paced_Set:
  "paced c \<Longrightarrow> 0 \<le> now \<Longrightarrow> now < 2 ^ 62 \<Longrightarrow> interval c \<le> 2 ^ 62 \<Longrightarrow> paced (Set now k v c)"
  by (simp add: Set_def paced_schedule)

lemma paced_Del: "paced c \<Longrightarrow> paced (Del k c)"
  by (simp add: paced_def)

lemma paced_run_evict: "paced c \<Longrightarrow> paced (run_evict t c)"
  by (auto simp: paced_def run_evict_def intro: subset_mset.order_trans [OF diff_subset_eq_self])

definition sane_interval :: "CacheConfig \<Rightarrow> bool" where
  "sane_interval cfg \<longleftrightarrow> Interval cfg \<le> 2 ^ 62"

definition clock_ok :: "int \<Rightarrow> bool" where
  "clock_ok t \<longleftrightarrow> 0 \<le> t \<and> t < 2 ^ 62"

lemma step_frame:
  "cache_step s s' \<Longrightarrow> interval (snd s') = interval (snd s) \<and> expire (snd s') = expire (snd s) \<and>
     max_entries (snd s') = max_entries (snd s) \<and> (clock_ok (fst s) \<longrightarrow> clock_ok (fst s'))"
  by (induction rule: cache_step.induct) (simp_all add: OnRelease_def clock_ok_def)

lemma paced_step:
  "cache_step s s' \<Longrightarrow> paced (snd s) \<Longrightarrow> clock_ok (fst s) \<Longrightarrow> interval (snd s) \<le> 2 ^ 62 \<Longrightarrow>
   paced (snd s')"
  by (induction rule: cache_step.induct)
     (simp_all add: clock_ok_def paced_Get paced_Set paced_Del paced_run_evict OnRelease_def)

lemma reach_frame:
  "cache_reach cfg s \<Longrightarrow> clock_ok (fst s) \<and>
     interval (snd s) = (if Interval cfg \<le> 0 then defaultCacheInterval else Interval cfg) \<and>
     expire (snd s) = (if Expire cfg \<le> 0 then defaultCacheExpire else Expire cfg) \<and>
     max_entries (snd s) = MaxEntries cfg"
proof (induction rule: cache_reach.induct)
  case (new t)
  then show ?case by (simp add: clock_ok_def NewCache_def Let_def)
next
  case (step s s')
  with step_frame [OF step.hyps(2)] show ?case by simp
qed

lemma reach_paced: "cache_reach cfg s \<Longrightarrow> sane_interval cfg \<Longrightarrow> paced (snd s)"
proof (induction rule: cache_reach.induct)
  case (new t)
  then show ?case
    by (simp add: paced_def NewCache_def Let_def defaultCacheInterval_def)
next
  case (step s s')
  then have "interval (snd s) \<le> 2 ^ 62"
    using reach_frame [OF step.hyps(1)] by (simp add: sane_interval_def defaultCacheInterval_def)
  with step show ?case
    using paced_step reach_frame by blast
qed

section \<open>The abstract map and its interface\<close>

lemma lookup_schedule [simp]: "lookup (scheduleEvictLocked now c) k = lookup c k"
  by (simp add: lookup_def)

lemma Get_value: "fst (Get now k c) = lookup c k"
  by (simp add: Get_def lookup_def split: option.split)

lemma lookup_Get: "lookup (snd (Get now k c)) k' = lookup c k'"
  by (auto simp: Get_def lookup_def update_conv' split: option.split)

lemma lookup_Set:
  "lookup (Set now k v c) =
     (if max_entries c > 0 \<and> int (length (store c)) \<ge> max_entries c \<and> map_of (store c) k = None
      then lookup c else (lookup c)(k := v))"
  by (auto simp: Set_def lookup_def update_conv' fun_eq_iff)

lemma lookup_Del: "lookup (Del k c) = (lookup c)(k := None)"
  by (auto simp: lookup_def cache_simps delete_conv' fun_eq_iff)

lemma map_of_filter_distinct:
  "distinct (map fst al) \<Longrightarrow>
   map_of (filter P al) k = (case map_of al k of None \<Rightarrow> None | Some v \<Rightarrow> if P (k, v) then Some v else None)"
  by (induction al) (force split: option.split intro: rev_image_eqI)+

lemma lookup_evict:
  assumes "cache_wf c"
  shows "lookup (evict now c) k =
    (case map_of (store c) k of None \<Rightarrow> None
     | Some v \<Rightarrow> if i64 (now - peek v) > expire c then None else value v)"
  using assms by (auto simp: lookup_def cache_simps cache_wf_def map_of_filter_distinct split: option.split)

text \<open>
  What the route cache may assume of a cache, whatever its capacity, clock and eviction schedule: a
  read answers the abstract map and does not change it, a write sets one key or is dropped, an
  eviction pass only forgets.
\<close>

locale cache_laws =
  fixes get :: "int \<Rightarrow> key \<Rightarrow> 'c \<Rightarrow> 'v any \<times> 'c"
    and put :: "int \<Rightarrow> key \<Rightarrow> 'v any \<Rightarrow> 'c \<Rightarrow> 'c"
    and evicted :: "int \<Rightarrow> 'c \<Rightarrow> 'c"
    and content :: "'c \<Rightarrow> key \<Rightarrow> 'v any"
    and good :: "'c \<Rightarrow> bool"
  assumes get_value: "fst (get t k c) = content c k"
    and get_content: "content (snd (get t k c)) = content c"
    and put_content: "content (put t k v c) = content c \<or> content (put t k v c) = (content c)(k := v)"
    and evict_content: "good c \<Longrightarrow> content (evicted t c) k = content c k \<or> content (evicted t c) k = None"
    and good_get: "good c \<Longrightarrow> good (snd (get t k c))"
    and good_put: "good c \<Longrightarrow> good (put t k v c)"
    and good_evict: "good c \<Longrightarrow> good (evicted t c)"
begin

text \<open>A relation between keys and values that holds of the whole content survives every operation.\<close>

lemma all_get:
  "(\<And>k v. content c k = Some v \<Longrightarrow> P k v) \<Longrightarrow> content (snd (get t k' c)) k = Some v \<Longrightarrow> P k v"
  by (simp add: get_content)

lemma all_put:
  assumes "\<And>k v. content c k = Some v \<Longrightarrow> P k v" "P k' v'"
    and "content (put t k' (Some v') c) k = Some v"
  shows "P k v"
  using assms put_content [of t k' "Some v'" c] by (auto split: if_splits)

lemma all_evict:
  assumes "\<And>k v. content c k = Some v \<Longrightarrow> P k v" "good c" "content (evicted t c) k = Some v"
  shows "P k v"
  using assms evict_content [of c t k] by auto

text \<open>A hit of the read returns a value the relation allows.\<close>

lemma hit: "(\<And>k v. content c k = Some v \<Longrightarrow> P k v) \<Longrightarrow> fst (get t k c) = Some v \<Longrightarrow> P k v"
  by (simp add: get_value)

end

interpretation rc: cache_laws Get Set run_evict lookup cache_wf
proof unfold_locales
  fix t k v and c :: "('v, 'f) cache"
  show "fst (Get t k c) = lookup c k" by (rule Get_value)
  show "lookup (snd (Get t k c)) = lookup c" by (simp add: fun_eq_iff lookup_Get)
  show "lookup (Set t k v c) = lookup c \<or> lookup (Set t k v c) = (lookup c)(k := v)"
    by (simp add: lookup_Set)
  show "lookup (run_evict t c) k = lookup c k \<or> lookup (run_evict t c) k = None" if "cache_wf c"
    using that lookup_evict [of "c\<lparr>pending := remove1 t (pending c)\<rparr>" t k]
    by (auto simp: run_evict_def cache_wf_def lookup_def split: option.splits if_splits)
qed (simp_all add: cache_wf_intros)

section \<open>Properties\<close>

text \<open>The key-value pairs a cache holds.\<close>

definition entries :: "('v, 'f) cache \<Rightarrow> (key \<times> 'v any) list" where
  "entries c = map (\<lambda>(k, v). (k, value v)) (store c)"

lemma mset_map_filter_split:
  "mset (map g xs) = mset (map g (filter (\<lambda>x. \<not> P x) xs)) + mset (map g (filter P xs))"
  by (induction xs) simp_all

lemma entries_run_evict:
  "\<exists>rel. mset (entries c) = mset (entries (run_evict e c)) + mset rel \<and>
     released (run_evict e c) = released c @
       (case onRelease c of None \<Rightarrow> [] | Some f \<Rightarrow> map (\<lambda>(k, v). (f, k, v)) rel)"
proof -
  define gone where "gone = (\<lambda>(k::key, v :: 'a cacheValue). i64 (e - peek v) > expire c)"
  define rel where "rel = map (\<lambda>(k, v). (k, value v)) (filter gone (store c))"
  have "store (run_evict e c) = filter (\<lambda>x. \<not> gone x) (store c)"
    by (simp add: cache_simps gone_def split_def)
  then have "mset (entries c) = mset (entries (run_evict e c)) + mset rel"
    by (simp add: entries_def rel_def mset_map_filter_split [of _ "store c" gone] del: mset_map)
  moreover have "released (run_evict e c) = released c @
      (case onRelease c of None \<Rightarrow> [] | Some f \<Rightarrow> map (\<lambda>(k, v). (f, k, v)) rel)"
    by (simp add: run_evict_def cache_simps rel_def gone_def split_def comp_def split: option.split)
  ultimately show ?thesis by blast
qed

lemma entries_Del:
  assumes "cache_wf c"
  shows "\<exists>rel. mset (entries c) = mset (entries (Del k c)) + mset rel \<and>
     released (Del k c) = released c @
       (case onRelease c of None \<Rightarrow> [] | Some f \<Rightarrow> map (\<lambda>(k, v). (f, k, v)) rel)"
proof (cases "map_of (store c) k")
  case None
  then show ?thesis
    by (intro exI [of _ "[]"]) (simp add: Del_def split: option.split)
next
  case (Some v)
  have del: "mset (map g al) = mset (map g (AList.delete k al)) + mset [g (k, v)]"
    if "map_of al k = Some v" "distinct (map fst al)" for al and g :: "_ \<Rightarrow> key \<times> 'a any"
    using that
  proof (induction al)
    case (Cons a al)
    show ?case
    proof (cases "fst a = k")
      case True
      with Cons.prems have "k \<notin> fst ` List.set al" "a = (k, v)"
        by (cases a; force)+
      then show ?thesis by (simp add: delete_id)
    next
      case False
      with Cons show ?thesis by (cases a) simp
    qed
  qed simp
  from Some assms have "mset (entries c) = mset (entries (Del k c)) + mset [(k, value v)]"
    using del [of "store c" "\<lambda>(k, v). (k, value v)"] by (simp add: entries_def cache_simps cache_wf_def)
  moreover have "released (Del k c) = released c @
      (case onRelease c of None \<Rightarrow> [] | Some f \<Rightarrow> map (\<lambda>(k, v). (f, k, v)) [(k, value v)])"
    using Some by (simp add: Del_def Let_def split: option.split)
  ultimately show ?thesis by blast
qed

text \<open>C13. The capacity bound: however many goroutines use the cache and whenever eviction passes run,
  a cache configured with a positive \<open>MaxEntries\<close> never holds more entries than that.\<close>

theorem cache_bounded:
  assumes "cache_reach cfg (t, c)" "0 < MaxEntries cfg"
  shows "Len c \<le> MaxEntries cfg"
  using reach_wf [OF assms(1)] reach_frame [OF assms(1)] assms(2)
  by (simp add: cache_wf_def Len_def)

theorem cache_bounded_witness:
  "let cfg = \<lparr>Expire = 0, Interval = 0, MaxEntries = 1\<rparr>;
       c = Set 5 8 (Some ''b'') (Set 5 7 (Some ''a'') (NewCache 5 cfg :: (string, unit) cache))
   in Len c \<le> MaxEntries cfg \<and> lookup c 7 = Some ''a'' \<and> lookup c 8 = None"
proof -
  define cfg where "cfg = \<lparr>Expire = 0, Interval = 0, MaxEntries = 1\<rparr>"
  let ?c = "Set 5 8 (Some ''b'') (Set 5 7 (Some ''a'') (NewCache 5 cfg :: (string, unit) cache))"
  have "cache_reach cfg (5, ?c)"
    by (intro cache_reach.step [OF _ cache_step.set] cache_reach.new) simp_all
  moreover have "0 < MaxEntries cfg" by (simp add: cfg_def)
  ultimately have "Len ?c \<le> MaxEntries cfg" by (rule cache_bounded)
  moreover have "lookup ?c 7 = Some ''a''" "lookup ?c 8 = None"
    by (simp_all add: lookup_def cache_simps NewCache_def cfg_def)
  ultimately show ?thesis by (simp add: cfg_def Let_def)
qed

text \<open>C14. Eviction passes are paced: in every run, even with a clock that jumps backwards, any two
  passes started one after the other are at least the configured interval apart, and every pass still
  to run is one of those.\<close>

theorem evictions_paced:
  assumes "cache_reach cfg (t, c)" "sane_interval cfg"
  shows "sorted_wrt (\<lambda>a b. a + interval c \<le> b) (evictions c) \<and> 0 < interval c \<and>
    mset (pending c) \<subseteq># mset (evictions c)"
  using reach_paced [OF assms] by (simp add: paced_def)

theorem evictions_paced_witness:
  "let cfg = \<lparr>Expire = 0, Interval = 10, MaxEntries = 0\<rparr>;
       c = Set 30 7 (Some ''b'') (Set 20 7 (Some ''a'') (NewCache 0 cfg :: (string, unit) cache))
   in evictions c = [20, 30] \<and> sorted_wrt (\<lambda>a b. a + interval c \<le> b) (evictions c)"
proof -
  define cfg where "cfg = \<lparr>Expire = 0, Interval = 10, MaxEntries = 0\<rparr>"
  let ?c = "Set 30 7 (Some ''b'') (Set 20 7 (Some ''a'') (NewCache 0 cfg :: (string, unit) cache))"
  have "cache_reach cfg (30, ?c)"
    by (rule cache_reach.step [OF cache_reach.step [OF cache_reach.step [OF cache_reach.step
        [OF cache_reach.new [of 0] cache_step.tick [of 20]] cache_step.set] cache_step.tick [of 30]]
        cache_step.set]) simp_all
  moreover have "sane_interval cfg" by (simp add: sane_interval_def cfg_def)
  ultimately have "sorted_wrt (\<lambda>a b. a + interval ?c \<le> b) (evictions ?c)"
    using evictions_paced by blast
  moreover have "evictions ?c = [20, 30]"
    by (simp add: Set_def NewCache_def cfg_def scheduleEvictLocked_def)
  ultimately show ?thesis by (simp add: cfg_def Let_def)
qed

text \<open>What an entry's lifetime is: a read at time \<open>t\<close> extends it, so that an eviction pass
  started at time \<open>e\<close> (before or after the read) forgets the entry exactly if \<open>e\<close> is more than
  \<open>expire\<close> milliseconds after \<open>t\<close>, and otherwise leaves it readable.\<close>

lemma read_extends_lifetime:
  assumes "cache_wf c" "clock_ok t" "clock_ok e" "lookup c k = Some v"
  shows "lookup (run_evict e (snd (Get t k c))) k = (if e - t > expire c then None else Some v)"
proof -
  obtain cv where cv: "map_of (store c) k = Some cv" "value cv = Some v"
    using assms(4) by (auto simp: lookup_def split: option.splits)
  let ?g = "snd (Get t k c)"
  have "map_of (store ?g) k = Some (cv\<lparr>peek := t\<rparr>)"
    using cv by (simp add: cache_simps update_conv')
  moreover have "i64 (e - t) = e - t"
    using assms(2,3) by (simp add: clock_ok_def)
  moreover have "cache_wf (?g\<lparr>pending := p\<rparr>)" for p
    using wf_Get [OF assms(1), of t k] by (simp add: cache_wf_def)
  ultimately show ?thesis
    using cv by (simp add: run_evict_def lookup_evict)
qed

lemma read_extends_lifetime_witness:
  "let c = Set 100 7 (Some ''a'') (NewCache 0 \<lparr>Expire = 50, Interval = 10, MaxEntries = 0\<rparr>)
           :: (string, unit) cache
   in lookup (run_evict 180 (snd (Get 140 7 c))) 7 = Some ''a'' \<and>
      lookup (run_evict 191 (snd (Get 140 7 c))) 7 = None"
proof -
  define c :: "(string, unit) cache" where
    "c = Set 100 7 (Some ''a'') (NewCache 0 \<lparr>Expire = 50, Interval = 10, MaxEntries = 0\<rparr>)"
  have w: "cache_wf c" by (simp add: c_def cache_wf_intros)
  have l: "lookup c 7 = Some ''a''" "expire c = 50"
    by (simp_all add: c_def lookup_def cache_simps NewCache_def)
  show ?thesis
    using read_extends_lifetime [OF w _ _ l(1), of 140 180] read_extends_lifetime [OF w _ _ l(1), of 140 191]
    by (simp add: clock_ok_def l(2) c_def [symmetric] Let_def)
qed

text \<open>Release accounting: an eviction pass and \<open>Del\<close> hand exactly the entries they remove to the
  registered callback, each once, so what was stored is what is still stored plus what was released;
  without a callback nothing is released.\<close>

lemma release_accounting:
  assumes "cache_wf c" and "c' = run_evict e c \<or> c' = Del k c"
  shows "\<exists>rel. mset (entries c) = mset (entries c') + mset rel \<and>
     released c' = released c @
       (case onRelease c of None \<Rightarrow> [] | Some f \<Rightarrow> map (\<lambda>(k, v). (f, k, v)) rel)"
  using assms entries_run_evict [of c e] entries_Del [of c k] by blast

lemma release_accounting_witness:
  "let c = Set 100 7 (Some ''a'') (OnRelease (Some ()) (NewCache 0 \<lparr>Expire = 50, Interval = 10, MaxEntries = 0\<rparr>))
           :: (string, unit) cache
   in \<exists>rel. mset (entries c) = mset (entries (run_evict 200 c)) + mset rel \<and>
        released (run_evict 200 c) = released c @ map (\<lambda>(k, v). ((), k, v)) rel"
proof -
  define c :: "(string, unit) cache" where
    "c = Set 100 7 (Some ''a'') (OnRelease (Some ()) (NewCache 0 \<lparr>Expire = 50, Interval = 10, MaxEntries = 0\<rparr>))"
  have "cache_wf c" "onRelease c = Some ()"
    by (simp_all add: c_def cache_wf_def OnRelease_def NewCache_def cache_simps)
  with release_accounting [of c "run_evict 200 c" 200] show ?thesis
    by (simp add: c_def [symmetric] Let_def)
qed

end
