(* ===== verification/ConfigTypes.thy ===== *)
theory ConfigTypes
  imports GoPrelude
begin

text \<open>
  The data of \<open>pkg/config/config.go\<close> the rest of the program is built from. A \<open>tree.Map\<close> (third-party
  package \<open>mojatter/tree\<close>) is the type parameter \<open>'t\<close>; Go maps are association lists, because the
  code walks some of them. \<open>Size\<close> and \<open>Duration\<close> are 64-bit integers.
\<close>

record ServerConfig =
  srv_Name :: string
  srv_Concurrency :: int
  srv_ReadBufferSize :: int
  srv_WriteBufferSize :: int
  srv_MaxConnsPerIP :: int
  srv_MaxRequestsPerConn :: int
  srv_MaxRequestBodySize :: int
  srv_ReadTimeout :: int
  srv_WriteTimeout :: int
  srv_IdleTimeout :: int
  srv_MaxIdleWorkerDuration :: int
  srv_TCPKeepalivePeriod :: int
  srv_SleepWhenConcurrencyLimitsExceeded :: int
  srv_DisableKeepalive :: bool
  srv_TCPKeepalive :: bool
  srv_ReduceMemoryUsage :: bool
  srv_DisablePreParseMultipartForm :: bool
  srv_LogAllErrors :: bool
  srv_SecureErrorLogMessage :: bool
  srv_DisableHeaderNamesNormalizing :: bool
  srv_NoDefaultServerHeader :: bool
  srv_NoDefaultDate :: bool
  srv_NoDefaultContentType :: bool
  srv_CloseOnShutdown :: bool
  srv_StreamRequestBody :: bool

record SSL =
  CertFile :: string
  KeyFile :: string
  AutoCert :: bool
  AutoCertCacheDir :: string

record Rotation =
  MaxSize :: int
  MaxBackups :: int
  MaxAge :: int
  Compress :: bool
  LocalTime :: bool

record LogConfig =
  log_Output :: string
  log_Prefix :: string
  log_Flags :: "string list"
  log_Rotation :: Rotation

record AccessLogConfig =
  acc_Output :: string
  acc_Format :: string
  acc_QueueSize :: int
  acc_BufferSize :: int
  acc_FlushInterval :: int
  acc_Rotation :: Rotation

record RouteConfig =
  rt_Path :: string
  rt_Match :: string
  rt_Methods :: "string list"
  rt_Filters :: "string list"
  rt_Rewrite :: string
  rt_RewriteAppendQueryString :: bool
  rt_Handler :: string
  rt_Status :: int
  rt_StatusMessage :: string
  rt_NextIfNotFound :: bool

record RoutesCache =
  rc_Enable :: bool
  rc_Expire :: int
  rc_Interval :: int
  rc_MaxEntries :: int

record 't Config =
  cfg_Host :: string
  cfg_Listen :: string
  cfg_SSL :: SSL
  cfg_Root :: string
  cfg_Server :: ServerConfig
  cfg_Log :: LogConfig
  cfg_AccessLog :: AccessLogConfig
  cfg_ErrorPages :: "(string \<times> string) list"
  cfg_Filters :: "(string \<times> 't) list"
  cfg_Handlers :: "(string \<times> 't) list"
  cfg_Routes :: "RouteConfig list"
  cfg_RoutesCache :: RoutesCache
  cfg_ShutdownTimeout :: string

definition MatchPrefix :: string where
  "MatchPrefix = ''prefix''"

definition MatchEqual :: string where
  "MatchEqual = ''equal''"

definition MatchRegexp :: string where
  "MatchRegexp = ''regexp''"

text \<open>Go's zero values of these types, and the defaults of \<open>SetDefaults\<close>.\<close>

definition zero_route_config :: RouteConfig where
  "zero_route_config =
     \<lparr>rt_Path = [], rt_Match = [], rt_Methods = [], rt_Filters = [], rt_Rewrite = [],
      rt_RewriteAppendQueryString = False, rt_Handler = [], rt_Status = 0, rt_StatusMessage = [],
      rt_NextIfNotFound = False\<rparr>"

definition zero_server_config :: ServerConfig where
  "zero_server_config =
     \<lparr>srv_Name = [], srv_Concurrency = 0, srv_ReadBufferSize = 0, srv_WriteBufferSize = 0,
      srv_MaxConnsPerIP = 0, srv_MaxRequestsPerConn = 0, srv_MaxRequestBodySize = 0,
      srv_ReadTimeout = 0, srv_WriteTimeout = 0, srv_IdleTimeout = 0,
      srv_MaxIdleWorkerDuration = 0, srv_TCPKeepalivePeriod = 0,
      srv_SleepWhenConcurrencyLimitsExceeded = 0, srv_DisableKeepalive = False,
      srv_TCPKeepalive = False, srv_ReduceMemoryUsage = False,
      srv_DisablePreParseMultipartForm = False, srv_LogAllErrors = False,
      srv_SecureErrorLogMessage = False, srv_DisableHeaderNamesNormalizing = False,
      srv_NoDefaultServerHeader = False, srv_NoDefaultDate = False,
      srv_NoDefaultContentType = False, srv_CloseOnShutdown = False,
      srv_StreamRequestBody = False\<rparr>"

definition zero_rotation :: Rotation where
  "zero_rotation = \<lparr>MaxSize = 0, MaxBackups = 0, MaxAge = 0, Compress = False, LocalTime = False\<rparr>"

definition zero_config :: "'t Config" where
  "zero_config =
     \<lparr>cfg_Host = [], cfg_Listen = [],
      cfg_SSL = \<lparr>CertFile = [], KeyFile = [], AutoCert = False, AutoCertCacheDir = []\<rparr>,
      cfg_Root = [], cfg_Server = zero_server_config,
      cfg_Log = \<lparr>log_Output = [], log_Prefix = [], log_Flags = [], log_Rotation = zero_rotation\<rparr>,
      cfg_AccessLog = \<lparr>acc_Output = [], acc_Format = [], acc_QueueSize = 0, acc_BufferSize = 0,
                       acc_FlushInterval = 0, acc_Rotation = zero_rotation\<rparr>,
      cfg_ErrorPages = [], cfg_Filters = [], cfg_Handlers = [], cfg_Routes = [],
      cfg_RoutesCache = \<lparr>rc_Enable = False, rc_Expire = 0, rc_Interval = 0, rc_MaxEntries = 0\<rparr>,
      cfg_ShutdownTimeout = []\<rparr>"

definition Rotation_SetDefaults :: "Rotation \<Rightarrow> Rotation" where
  "Rotation_SetDefaults r =
     r\<lparr>MaxSize := 100, MaxBackups := 14, MaxAge := 28, Compress := True, LocalTime := True\<rparr>"

definition Log_SetDefaults :: "LogConfig \<Rightarrow> LogConfig" where
  "Log_SetDefaults l =
     l\<lparr>log_Flags := [''date'', ''time''], log_Rotation := Rotation_SetDefaults (log_Rotation l)\<rparr>"

definition AccessLog_SetDefaults :: "AccessLogConfig \<Rightarrow> AccessLogConfig" where
  "AccessLog_SetDefaults l =
     l\<lparr>acc_BufferSize := 4096, acc_FlushInterval := 1000,
       acc_Rotation := Rotation_SetDefaults (acc_Rotation l)\<rparr>"

definition SSL_SetDefaults :: "SSL \<Rightarrow> SSL" where
  "SSL_SetDefaults ssl = ssl"

definition Config_SetDefaults :: "'t Config \<Rightarrow> 't Config" where
  "Config_SetDefaults cfg =
     cfg\<lparr>cfg_Listen := '':8080'',
         cfg_Server := zero_server_config\<lparr>srv_Name := ''fasthttpd''\<rparr>,
         cfg_ShutdownTimeout := ''30s'',
         cfg_SSL := SSL_SetDefaults (cfg_SSL cfg),
         cfg_Log := Log_SetDefaults (cfg_Log cfg),
         cfg_AccessLog := AccessLog_SetDefaults (cfg_AccessLog cfg)\<rparr>"

end
