(* ===== verification/RouteResult.thy ===== *)
theory RouteResult
  imports UtilHttp
begin

text \<open>
  \<open>pkg/route/result.go\<close>: the routing result, its query-string extension, reset, copy and comparison,
  and the pool of results. \<open>sync.Pool.Get\<close> may return any item of the pool or treat it as empty, so
  the choice is the argument \<open>pick\<close> (an index into the pool; out of range means the pool is treated as
  empty). A result is the contents of the object its pointer refers to.
\<close>

section \<open>Model\<close>

record Result =
  StatusCode :: int
  StatusMessage :: bytes
  RewriteURI :: bytes
  RedirectURI :: bytes
  AppendQS :: bool
  Handler :: string
  Filters :: "string list"
  RouteIndex :: int

type_synonym result_pool = "Result list"
type_synonym pool_pick = "Result list \<Rightarrow> nat"

definition zero_result :: Result where
  "zero_result = \<lparr>StatusCode = 0, StatusMessage = [], RewriteURI = [], RedirectURI = [],
     AppendQS = False, Handler = [], Filters = [], RouteIndex = 0\<rparr>"

definition AcquireResult :: "pool_pick \<Rightarrow> result_pool \<Rightarrow> Result \<times> result_pool" where
  "AcquireResult pick pool =
     (let i = pick pool
      in if i < length pool then (pool ! i, take i pool @ drop (Suc i) pool)
         else (zero_result, pool))"

definition RewriteURIWithQueryString :: "Result \<Rightarrow> bytes \<Rightarrow> bytes" where
  "RewriteURIWithQueryString r query =
     (if AppendQS r \<and> length (RewriteURI r) > 0 then AppendQueryString (RewriteURI r) query
      else RewriteURI r)"

definition RedirectURIWithQueryString :: "Result \<Rightarrow> bytes \<Rightarrow> bytes" where
  "RedirectURIWithQueryString r query =
     (if AppendQS r \<and> length (RedirectURI r) > 0 then AppendQueryString (RedirectURI r) query
      else RedirectURI r)"

definition Reset :: "Result \<Rightarrow> Result" where
  "Reset r = r\<lparr>StatusCode := 0, StatusMessage := take 0 (StatusMessage r),
     RewriteURI := take 0 (RewriteURI r), RedirectURI := take 0 (RedirectURI r),
     AppendQS := False, Handler := [], Filters := take 0 (Filters r), RouteIndex := 0\<rparr>"

definition CopyTo :: "Result \<Rightarrow> Result \<Rightarrow> Result" where
  "CopyTo r dst =
     (let d = Reset dst
      in d\<lparr>StatusCode := StatusCode r,
           StatusMessage := take 0 (StatusMessage d) @ StatusMessage r,
           RewriteURI := take 0 (RewriteURI d) @ RewriteURI r,
           RedirectURI := RedirectURI d @ RedirectURI r,
           AppendQS := AppendQS r, Handler := Handler r,
           Filters := take 0 (Filters d) @ Filters r,
           RouteIndex := RouteIndex r\<rparr>)"

text \<open>The element loop of \<open>Equal\<close> over the filter names, run when their numbers agree.\<close>

fun filters_equal :: "string list \<Rightarrow> string list \<Rightarrow> bool" where
  "filters_equal (f # fs) (g # gs) = (if f \<noteq> g then False else filters_equal fs gs)"
| "filters_equal _ _ = True"

definition Equal :: "Result \<Rightarrow> Result \<Rightarrow> bool" where
  "Equal a b =
     (if length (Filters a) \<noteq> length (Filters b) then False
      else if \<not> filters_equal (Filters a) (Filters b) then False
      else StatusCode a = StatusCode b \<and> StatusMessage a = StatusMessage b \<and>
        RewriteURI a = RewriteURI b \<and> RedirectURI a = RedirectURI b \<and>
        AppendQS a = AppendQS b \<and> Handler a = Handler b)"

definition Release :: "Result \<Rightarrow> result_pool \<Rightarrow> result_pool" where
  "Release r pool = Reset r # pool"

section \<open>Lemmas\<close>

text \<open>The pool holds reset results only.\<close>

definition pool_ok :: "result_pool \<Rightarrow> bool" where
  "pool_ok pool \<longleftrightarrow> (\<forall>r \<in> set pool. r = zero_result)"

lemma Reset_zero [simp]: "Reset r = zero_result"
  by (simp add: Reset_def zero_result_def)

lemma CopyTo_eq [simp]: "CopyTo r dst = r"
  by (simp add: CopyTo_def zero_result_def Let_def)

lemma pool_ok_Nil [simp]: "pool_ok []"
  by (simp add: pool_ok_def)

lemma pool_ok_Release [simp]: "pool_ok (Release r pool) \<longleftrightarrow> pool_ok pool"
  by (simp add: pool_ok_def Release_def)

lemma AcquireResult_fst: "pool_ok pool \<Longrightarrow> fst (AcquireResult pick pool) = zero_result"
  by (simp add: AcquireResult_def pool_ok_def Let_def)

lemma AcquireResult_snd: "pool_ok pool \<Longrightarrow> pool_ok (snd (AcquireResult pick pool))"
  by (auto simp: AcquireResult_def pool_ok_def Let_def dest: in_set_takeD in_set_dropD)

lemma filters_equal_eq: "length fs = length gs \<Longrightarrow> filters_equal fs gs \<longleftrightarrow> fs = gs"
  by (induction fs gs rule: list_induct2) simp_all

lemma Equal_iff: "Equal a b \<longleftrightarrow> a\<lparr>RouteIndex := 0\<rparr> = b\<lparr>RouteIndex := 0\<rparr>"
  by (cases a; cases b) (auto simp: Equal_def filters_equal_eq)

section \<open>The pool as an interface\<close>

text \<open>
  The contract of an object pool as its users need it: whatever was released, and whichever object the
  pool picks, an acquired object is indistinguishable from a new one.
\<close>

locale object_pool =
  fixes acquire :: "('r list \<Rightarrow> nat) \<Rightarrow> 'r list \<Rightarrow> 'r \<times> 'r list"
    and release :: "'r \<Rightarrow> 'r list \<Rightarrow> 'r list"
    and fresh :: 'r
    and clean :: "'r list \<Rightarrow> bool"
  assumes clean_empty: "clean []"
    and clean_release: "clean p \<Longrightarrow> clean (release r p)"
    and clean_acquire: "clean p \<Longrightarrow> clean (snd (acquire pick p))"
    and acquire_fresh: "clean p \<Longrightarrow> fst (acquire pick p) = fresh"
begin

lemma clean_releases: "clean p \<Longrightarrow> clean (fold release rs p)"
  by (induction rs arbitrary: p) (simp_all add: clean_release)

lemma acquire_after_releases: "fst (acquire pick (fold release rs [])) = fresh"
  by (rule acquire_fresh [OF clean_releases [OF clean_empty]])

lemma acquire_twice:
  "clean p \<Longrightarrow> fst (acquire pick' (snd (acquire pick p))) = fresh"
  by (rule acquire_fresh [OF clean_acquire])

end

interpretation result_objects: object_pool AcquireResult Release zero_result pool_ok
  by unfold_locales (simp_all add: AcquireResult_fst AcquireResult_snd)

section \<open>Properties\<close>

text \<open>Recycling results is invisible: after any sequence of releases of arbitrary used results,
  whichever pooled object \<open>AcquireResult\<close> hands out, it is an empty result; and \<open>CopyTo\<close> into any
  (even a dirty) destination yields exactly the source.\<close>

lemma recycled_results_are_fresh:
  "fst (AcquireResult pick (fold Release used [])) = zero_result \<and> CopyTo r dst = r"
  by (simp add: result_objects.acquire_after_releases)

end
