(* ===== verification/Routing.thy ===== *)
theory Routing
  imports ConfigTypes CacheStore RouteResult
begin

text \<open>
  \<open>pkg/route/route.go\<close>: the route table, the routing loop and its read-through cache.

  A compiled \<open>*regexp.Regexp\<close> is an object with the two methods the code calls; \<open>regexp.Compile\<close> is the
  parameter \<open>compile\<close> (an error text or such an object), so every theorem holds for any regexp engine.
  The state of \<open>Routes\<close> is its cache; the pool of results is threaded beside it.
\<close>

section \<open>Model: one route\<close>

record regexp =
  re_Match :: "bytes \<Rightarrow> bool"
  re_ReplaceAll :: "bytes \<Rightarrow> bytes \<Rightarrow> bytes"

type_synonym re_compile = "string \<Rightarrow> string + regexp"

datatype route_error =
    UnknownFilter string
  | UnknownHandler string
  | UnknownMatch string
  | RegexpError string

record Route =
  methodsBytes :: "bytes list"
  filters :: "string list"
  rewriteUriBytes :: bytes
  rewriteAppendQueryString :: bool
  handler :: string
  statusCode :: int
  statusMessageBytes :: bytes
  matchPath :: "bytes \<Rightarrow> bool"
  matchPattern :: "regexp option"
  nextIfNotFound :: bool

definition initMatchPath ::
    "re_compile \<Rightarrow> Route \<Rightarrow> string \<Rightarrow> string \<Rightarrow> route_error + Route" where
  "initMatchPath compile r cfgMatch0 cfgPath0 =
     (let cfgMatch = (if cfgMatch0 = [] then MatchPrefix else cfgMatch0);
          cfgPath = (if cfgPath0 = [] then ''/'' else cfgPath0)
      in if cfgMatch = MatchEqual then Inr (r\<lparr>matchPath := \<lambda>path. path = cfgPath\<rparr>)
         else if cfgMatch = MatchPrefix then Inr (r\<lparr>matchPath := \<lambda>path. HasPrefix path cfgPath\<rparr>)
         else if cfgMatch = MatchRegexp then
           (case compile cfgPath of
              Inl err \<Rightarrow> Inl (RegexpError err)
            | Inr pattern \<Rightarrow> Inr (r\<lparr>matchPath := re_Match pattern, matchPattern := Some pattern\<rparr>))
         else Inl (UnknownMatch cfgMatch))"

definition NewRoute :: "re_compile \<Rightarrow> RouteConfig \<Rightarrow> route_error + Route" where
  "NewRoute compile rcfg =
     (let r = \<lparr>methodsBytes = (if length (rt_Methods rcfg) > 0 then map ToUpper (rt_Methods rcfg) else []),
               filters = rt_Filters rcfg,
               rewriteUriBytes = rt_Rewrite rcfg,
               rewriteAppendQueryString = rt_RewriteAppendQueryString rcfg,
               handler = rt_Handler rcfg,
               statusCode = rt_Status rcfg,
               statusMessageBytes =
                 (if rt_StatusMessage rcfg \<noteq> [] then rt_StatusMessage rcfg
                  else if rt_Status rcfg > 0 then StatusText (rt_Status rcfg) else []),
               matchPath = (\<lambda>_. False), matchPattern = None,
               nextIfNotFound = rt_NextIfNotFound rcfg\<rparr>
      in initMatchPath compile r (rt_Match rcfg) (rt_Path rcfg))"

fun method_in :: "bytes \<Rightarrow> bytes list \<Rightarrow> bool" where
  "method_in meth [] = False"
| "method_in meth (m # ms) = (if meth = m then True else method_in meth ms)"

definition matchMethods :: "Route \<Rightarrow> bytes \<Rightarrow> bool" where
  "matchMethods r meth =
     (if length (methodsBytes r) = 0 then True else method_in meth (methodsBytes r))"

definition Match :: "Route \<Rightarrow> bytes \<Rightarrow> bytes \<Rightarrow> bool" where
  "Match r meth path \<longleftrightarrow> matchMethods r meth \<and> matchPath r path"

definition rewrite :: "Route \<Rightarrow> bytes \<Rightarrow> bytes" where
  "rewrite r path =
     (case matchPattern r of
        Some re \<Rightarrow> if length (rewriteUriBytes r) > 0 then re_ReplaceAll re path (rewriteUriBytes r)
                   else rewriteUriBytes r
      | None \<Rightarrow> rewriteUriBytes r)"

section \<open>Model: the route table\<close>

text \<open>The cache stores results and registers one callback, \<open>onResultReleased\<close>.\<close>

record Routes =
  routes :: "Route list"
  route_cache :: "(Result, unit) cache option"

text \<open>\<open>onResultReleased\<close>, run for a value the cache released: it puts the result back into the pool.\<close>

definition onResultReleased :: "Result any \<Rightarrow> result_pool \<Rightarrow> result_pool" where
  "onResultReleased v pool = (case v of Some r \<Rightarrow> Release r pool | None \<Rightarrow> pool)"

fun check_filters :: "'t Config \<Rightarrow> string list \<Rightarrow> route_error + unit" where
  "check_filters cfg [] = Inr ()"
| "check_filters cfg (f # fs) =
     (if map_of (cfg_Filters cfg) f = None then Inl (UnknownFilter f) else check_filters cfg fs)"

fun new_routes_loop :: "re_compile \<Rightarrow> 't Config \<Rightarrow> RouteConfig list \<Rightarrow> route_error + Route list" where
  "new_routes_loop compile cfg [] = Inr []"
| "new_routes_loop compile cfg (rcfg # rcfgs) =
     (case check_filters cfg (rt_Filters rcfg) of
        Inl err \<Rightarrow> Inl err
      | Inr _ \<Rightarrow>
          if rt_Handler rcfg \<noteq> [] \<and> map_of (cfg_Handlers cfg) (rt_Handler rcfg) = None
          then Inl (UnknownHandler (rt_Handler rcfg))
          else (case NewRoute compile rcfg of
                  Inl err \<Rightarrow> Inl err
                | Inr r \<Rightarrow> (case new_routes_loop compile cfg rcfgs of
                              Inl err \<Rightarrow> Inl err
                            | Inr rs \<Rightarrow> Inr (r # rs))))"

definition NewRoutes :: "re_compile \<Rightarrow> int \<Rightarrow> 't Config \<Rightarrow> route_error + Routes" where
  "NewRoutes compile now cfg =
     (case new_routes_loop compile cfg (cfg_Routes cfg) of
        Inl err \<Rightarrow> Inl err
      | Inr rs \<Rightarrow>
          Inr \<lparr>routes = rs,
               route_cache =
                 (if rc_Enable (cfg_RoutesCache cfg)
                  then Some (OnRelease (Some ())
                         (NewCache now \<lparr>Expire = rc_Expire (cfg_RoutesCache cfg),
                                        Interval = rc_Interval (cfg_RoutesCache cfg),
                                        MaxEntries = rc_MaxEntries (cfg_RoutesCache cfg)\<rparr>))
                  else None)\<rparr>)"

definition IsNextIfNotFound :: "Routes \<Rightarrow> nat \<Rightarrow> bool" where
  "IsNextIfNotFound rs i = (if i \<ge> length (routes rs) then False else nextIfNotFound (routes rs ! i))"

text \<open>The loop \<open>for i, r := range rs.routes[off:]\<close>: \<open>i\<close> counts from 0 at \<open>off\<close>.\<close>

fun route_loop :: "bytes \<Rightarrow> Route list \<Rightarrow> nat \<Rightarrow> bytes \<Rightarrow> Result \<Rightarrow> Result" where
  "route_loop meth [] i path result = result\<lparr>StatusCode := 404\<rparr>"
| "route_loop meth (r # rs) i path result =
     (if \<not> Match r meth path then route_loop meth rs (Suc i) path result
      else
        let result1 = (if length (filters r) > 0
                       then result\<lparr>Filters := StringSet_Append (Filters result) (filters r)\<rparr>
                       else result);
            result2 = result1\<lparr>RouteIndex := int i, StatusCode := statusCode r,
                              StatusMessage := take 0 (StatusMessage result1) @ statusMessageBytes r,
                              Handler := handler r\<rparr>;
            rewriteUri = rewrite r path;
            result3 = result2\<lparr>AppendQS := rewriteAppendQueryString r\<rparr>;
            result4 = result3\<lparr>RewriteURI := take 0 (RewriteURI result3) @ rewriteUri\<rparr>
        in if length rewriteUri > 0 \<and>
              (IsHttpOrHttps rewriteUri \<or> IsHttpStatusRedirect (StatusCode result3))
           then result3\<lparr>RedirectURI := RedirectURI result3 @ rewriteUri\<rparr>
           else
             let result5 = (if length rewriteUri > 0 then result4 else result2);
                 path' = (if length rewriteUri > 0 then fst (SplitRequestURI rewriteUri) else path)
             in if StatusCode result5 > 0 \<or> Handler result5 \<noteq> [] then result5
                else route_loop meth rs (Suc i) path' result5)"

definition Routes_Route :: "pool_pick \<Rightarrow> Routes \<Rightarrow> result_pool \<Rightarrow> bytes \<Rightarrow> bytes \<Rightarrow> nat \<Rightarrow>
    Result \<times> result_pool" where
  "Routes_Route pick rs pool meth path off =
     (let (result, pool') = AcquireResult pick pool
      in if off \<ge> length (routes rs) then (result\<lparr>StatusCode := 404\<rparr>, pool')
         else (route_loop meth (drop off (routes rs)) 0 path result, pool'))"

text \<open>
  What one call of \<open>CachedRoute\<close> reads of its environment: the pool's choices, the builder the key
  pool hands out, and the clock at the cache's \<open>Get\<close> and \<open>Set\<close>.
\<close>

record route_env =
  env_pick :: pool_pick
  env_builder :: CacheKeyBuilder
  env_get_time :: int
  env_set_time :: int

definition request_key :: "maphash \<Rightarrow> CacheKeyBuilder \<Rightarrow> nat \<Rightarrow> bytes \<Rightarrow> bytes \<Rightarrow> key" where
  "request_key mh b off meth path =
     (let offBuf = PutUint32 (word_of_nat off);
          kb = AcquireCacheKeyBuilder b;
          kb = Write kb offBuf;
          kb = Write kb meth;
          kb = Write kb path
      in Sum mh kb)"

definition CachedRoute :: "maphash \<Rightarrow> route_env \<Rightarrow> Routes \<Rightarrow> result_pool \<Rightarrow> bytes \<Rightarrow> bytes \<Rightarrow> nat \<Rightarrow>
    Result \<times> Routes \<times> result_pool" where
  "CachedRoute mh env rs pool meth path off =
     (case route_cache rs of
        None \<Rightarrow> (let (result, pool') = Routes_Route (env_pick env) rs pool meth path off
                 in (result, rs, pool'))
      | Some c \<Rightarrow>
          let k = request_key mh (env_builder env) off meth path;
              (v, c1) = Get (env_get_time env) k c
          in case v of
               Some result \<Rightarrow>
                 (let (dst, pool') = AcquireResult (env_pick env) pool
                  in (CopyTo result dst, rs\<lparr>route_cache := Some c1\<rparr>, pool'))
             | None \<Rightarrow>
                 (let (result, pool1) = Routes_Route (env_pick env) rs pool meth path off;
                      c2 = Set (env_set_time env) k (Some result) c1;
                      (dst, pool2) = AcquireResult (env_pick env) pool1
                  in (CopyTo result dst, rs\<lparr>route_cache := Some c2\<rparr>, pool2)))"

section \<open>What the loop visits\<close>

text \<open>
  The declarative reading of the table: which routes match, in order, each with the path it saw. A
  route stops the search if it redirects, or has a status or a handler; otherwise the search goes on,
  with the path of its rewritten URI if it rewrites.
\<close>

definition redirects :: "Route \<Rightarrow> bytes \<Rightarrow> bool" where
  "redirects r path \<longleftrightarrow> rewrite r path \<noteq> [] \<and>
     (IsHttpOrHttps (rewrite r path) \<or> IsHttpStatusRedirect (statusCode r))"

definition stops :: "Route \<Rightarrow> bytes \<Rightarrow> bool" where
  "stops r path \<longleftrightarrow> redirects r path \<or> statusCode r > 0 \<or> handler r \<noteq> []"

definition path_after :: "Route \<Rightarrow> bytes \<Rightarrow> bytes" where
  "path_after r path = (if rewrite r path = [] then path else fst (SplitRequestURI (rewrite r path)))"

fun visited :: "bytes \<Rightarrow> Route list \<Rightarrow> nat \<Rightarrow> bytes \<Rightarrow> (nat \<times> Route \<times> bytes) list" where
  "visited meth [] i path = []"
| "visited meth (r # rs) i path =
     (if \<not> Match r meth path then visited meth rs (Suc i) path
      else (i, r, path) #
        (if stops r path then [] else visited meth rs (Suc i) (path_after r path)))"

fun visit :: "Result \<Rightarrow> nat \<times> Route \<times> bytes \<Rightarrow> Result" where
  "visit res (i, r, path) =
     (let res1 = res\<lparr>Filters := StringSet_Append (Filters res) (filters r), RouteIndex := int i,
                     StatusCode := statusCode r, StatusMessage := statusMessageBytes r,
                     Handler := handler r\<rparr>
      in if rewrite r path = [] then res1
         else if redirects r path
         then res1\<lparr>AppendQS := rewriteAppendQueryString r, RedirectURI := RedirectURI res @ rewrite r path\<rparr>
         else res1\<lparr>AppendQS := rewriteAppendQueryString r, RewriteURI := rewrite r path\<rparr>)"

definition found :: "(nat \<times> Route \<times> bytes) list \<Rightarrow> bool" where
  "found vs \<longleftrightarrow> vs \<noteq> [] \<and> (case last vs of (i, r, path) \<Rightarrow> stops r path)"

lemma found_simps [simp]:
  "\<not> found []"
  "found [(i, r, path)] \<longleftrightarrow> stops r path"
  "vs \<noteq> [] \<Longrightarrow> found (v # vs) \<longleftrightarrow> found vs"
  by (simp_all add: found_def)

lemma StringSet_Append_if [simp]:
  "(if length fs > 0 then r\<lparr>Filters := StringSet_Append (Filters r) fs\<rparr> else r) =
   r\<lparr>Filters := StringSet_Append (Filters r) fs\<rparr>"
  by simp

text \<open>One turn of the loop at a matching route.\<close>

lemma route_loop_match:
  assumes "Match r meth path"
  shows "route_loop meth (r # rs) i path res =
    (if stops r path then visit res (i, r, path)
     else route_loop meth rs (Suc i) (path_after r path) (visit res (i, r, path)))"
  using assms by (auto simp: Let_def stops_def redirects_def path_after_def)

lemma route_loop_visits:
  "route_loop meth rs i path res =
     (let vs = visited meth rs i path
      in if found vs then foldl visit res vs else (foldl visit res vs)\<lparr>StatusCode := 404\<rparr>)"
proof (induction rs arbitrary: i path res)
  case Nil
  then show ?case by simp
next
  case (Cons r rs)
  consider "\<not> Match r meth path" | "Match r meth path" "stops r path"
    | "Match r meth path" "\<not> stops r path"
    by blast
  then show ?case
  proof cases
    case 1
    then show ?thesis
      using Cons [of "Suc i" path res] by (simp add: Let_def)
  next
    case 2
    then show ?thesis
      by (simp add: route_loop_match Let_def del: visit.simps route_loop.simps(2))
  next
    case 3
    let ?vs = "visited meth rs (Suc i) (path_after r path)"
    have "found ((i, r, path) # ?vs) \<longleftrightarrow> found ?vs"
      using 3 by (cases "?vs = []") simp_all
    with 3 show ?thesis
      using Cons [of "Suc i" "path_after r path"]
      by (simp add: route_loop_match Let_def del: visit.simps route_loop.simps(2))
  qed
qed

text \<open>What the visits leave in each field.\<close>

lemma visits_Filters:
  "Filters (foldl visit res vs) = StringSet_Append (Filters res) (concat (map (\<lambda>(i, r, path). filters r) vs))"
  by (induction vs arbitrary: res) (auto simp: Let_def StringSet_Append_append)

lemma visits_last:
  assumes "last vs = (i, r, path)" "vs \<noteq> []"
  shows "StatusCode (foldl visit res vs) = statusCode r" "Handler (foldl visit res vs) = handler r"
    "RouteIndex (foldl visit res vs) = int i"
    "StatusMessage (foldl visit res vs) = statusMessageBytes r"
  using assms by (cases vs rule: rev_cases; simp add: Let_def)+

lemma visited_sound:
  "(j, r, p) \<in> List.set (visited meth rs i path) \<Longrightarrow>
     i \<le> j \<and> j - i < length rs \<and> rs ! (j - i) = r \<and> Match r meth p"
proof (induction rs arbitrary: i path)
  case (Cons s rs)
  from Cons.prems consider "j = i" "s = r" "Match r meth p"
    | path' where "(j, r, p) \<in> List.set (visited meth rs (Suc i) path')"
    by (auto split: if_splits)
  then show ?case
  proof cases
    case 2
    from Cons.IH [OF this] have "Suc i \<le> j" "j - Suc i < length rs" "rs ! (j - Suc i) = r" "Match r meth p"
      by auto
    then show ?thesis
      by (cases "j - i") (auto simp: Suc_diff_le nth_Cons' diff_Suc split: nat.splits)
  qed simp
qed simp

lemma visited_stops_only_last:
  "visited meth rs i path = vs @ (j, r, p) # ws \<Longrightarrow> ws \<noteq> [] \<Longrightarrow> \<not> stops r p"
proof (induction rs arbitrary: i path vs)
  case (Cons s rs)
  show ?case
  proof (cases "Match s meth path")
    case False
    with Cons.prems show ?thesis
      by (intro Cons.IH [of "Suc i" path vs]) simp_all
  next
    case True
    show ?thesis
    proof (cases vs)
      case Nil
      with True Cons.prems show ?thesis by (auto split: if_splits)
    next
      case (Cons v vs')
      with True Cons.prems show ?thesis
        by (intro Cons.IH [of "Suc i" "path_after s path" vs']) (auto split: if_splits)
    qed
  qed
qed simp

section \<open>The uncached result\<close>

definition route_value :: "Routes \<Rightarrow> bytes \<Rightarrow> bytes \<Rightarrow> nat \<Rightarrow> Result" where
  "route_value rs meth path off = fst (Routes_Route (\<lambda>_. 0) rs [] meth path off)"

lemma Route_fst: "pool_ok pool \<Longrightarrow> fst (Routes_Route pick rs pool meth path off) = route_value rs meth path off"
  using AcquireResult_fst [of pool pick] AcquireResult_fst [of "[]" "\<lambda>_. 0"]
  by (simp add: Routes_Route_def route_value_def split_def Let_def)

lemma Route_snd: "pool_ok pool \<Longrightarrow> pool_ok (snd (Routes_Route pick rs pool meth path off))"
  using AcquireResult_snd [of pool pick] by (simp add: Routes_Route_def split_def Let_def)

lemma route_value_loop:
  "route_value rs meth path off = route_loop meth (drop off (routes rs)) 0 path zero_result"
  using AcquireResult_fst [of "[]" "\<lambda>_. 0"] by (simp add: route_value_def Routes_Route_def split_def Let_def)

lemma route_value_visits:
  "route_value rs meth path off =
     (let vs = visited meth (drop off (routes rs)) 0 path
      in if found vs then foldl visit zero_result vs
         else (foldl visit zero_result vs)\<lparr>StatusCode := 404\<rparr>)"
  by (simp add: route_value_loop route_loop_visits)

lemma route_value_routes: "routes rs = routes rs' \<Longrightarrow> route_value rs = route_value rs'"
  by (simp add: fun_eq_iff route_value_loop)

text \<open>The URI fields after the visits.\<close>

definition last_rewrite :: "(nat \<times> Route \<times> bytes) list \<Rightarrow> bytes \<Rightarrow> bytes" where
  "last_rewrite vs u =
     foldl (\<lambda>u (i, r, path). if rewrite r path \<noteq> [] \<and> \<not> redirects r path then rewrite r path else u) u vs"

lemma visits_RewriteURI: "RewriteURI (foldl visit res vs) = last_rewrite vs (RewriteURI res)"
  by (induction vs arbitrary: res) (auto simp: last_rewrite_def Let_def)

lemma visits_RedirectURI:
  "\<forall>(i, r, path) \<in> List.set vs. \<not> redirects r path \<Longrightarrow> RedirectURI (foldl visit res vs) = RedirectURI res"
  by (induction vs arbitrary: res) (auto simp: Let_def)

lemma visited_init_no_redirect:
  assumes "visited meth rs i path = vs @ [(j, r, p)]"
  shows "\<forall>(i, r, path) \<in> List.set vs. \<not> redirects r path"
proof (intro ballI)
  fix v assume "v \<in> List.set vs"
  then obtain vs1 vs2 where "vs = vs1 @ v # vs2"
    by (meson split_list)
  with assms have "visited meth rs i path = vs1 @ v # (vs2 @ [(j, r, p)])"
    by simp
  then show "case v of (i, r, path) \<Rightarrow> \<not> redirects r path"
    using visited_stops_only_last [of meth rs i path vs1] by (cases v) (auto simp: stops_def)
qed

text \<open>A table without rewriting: the loop is a search for the first stopping route.\<close>

lemma route_loop_find:
  assumes "\<forall>r \<in> List.set rs. rewriteUriBytes r = []"
  shows "case find (\<lambda>(j, r). Match r meth path \<and> (statusCode r > 0 \<or> handler r \<noteq> [])) (enumerate i rs) of
     None \<Rightarrow> StatusCode (route_loop meth rs i path res) = 404
   | Some (j, r) \<Rightarrow> StatusCode (route_loop meth rs i path res) = statusCode r \<and>
       Handler (route_loop meth rs i path res) = handler r \<and>
       RouteIndex (route_loop meth rs i path res) = int j"
  using assms
proof (induction rs arbitrary: i res)
  case (Cons r rs)
  have rw: "rewrite r path = []"
    using Cons.prems by (simp add: rewrite_def split: option.split)
  have st: "stops r path \<longleftrightarrow> statusCode r > 0 \<or> handler r \<noteq> []" "path_after r path = path"
    by (simp_all add: stops_def redirects_def path_after_def rw)
  show ?case
  proof (cases "Match r meth path")
    case False
    then have eq: "route_loop meth (r # rs) i path res = route_loop meth rs (Suc i) path res"
      by simp
    show ?thesis
      unfolding eq using False Cons.prems Cons.IH [of "Suc i" res] by simp
  next
    case True
    show ?thesis
    proof (cases "stops r path")
      case True
      with \<open>Match r meth path\<close> show ?thesis
        by (simp add: st route_loop_match rw Let_def del: route_loop.simps(2))
    next
      case False
      then have eq: "route_loop meth (r # rs) i path res =
          route_loop meth rs (Suc i) path (visit res (i, r, path))"
        using \<open>Match r meth path\<close> st(2) by (simp only: route_loop_match if_False)
      show ?thesis
        unfolding eq using False Cons.prems Cons.IH [of "Suc i" "visit res (i, r, path)"]
        by (simp add: st(1) del: visit.simps)
    qed
  qed
qed simp

lemma check_filters_ok: "check_filters cfg fs = Inr u \<longleftrightarrow> (\<forall>f \<in> List.set fs. map_of (cfg_Filters cfg) f \<noteq> None)"
  by (induction fs) auto

lemma initMatchPath_frame:
  "initMatchPath compile r m p = Inr r' \<Longrightarrow> filters r' = filters r \<and> handler r' = handler r"
  by (auto simp: initMatchPath_def Let_def split: if_splits sum.splits)

lemma NewRoute_frame:
  "NewRoute compile rcfg = Inr r \<Longrightarrow> filters r = rt_Filters rcfg \<and> handler r = rt_Handler rcfg"
  unfolding NewRoute_def Let_def by (drule initMatchPath_frame) simp

definition route_declared :: "'t Config \<Rightarrow> RouteConfig \<Rightarrow> bool" where
  "route_declared cfg rcfg \<longleftrightarrow>
     (\<forall>f \<in> List.set (rt_Filters rcfg). f \<in> fst ` List.set (cfg_Filters cfg)) \<and>
     (rt_Handler rcfg = [] \<or> rt_Handler rcfg \<in> fst ` List.set (cfg_Handlers cfg))"

lemma route_declared_iff:
  "route_declared cfg rcfg \<longleftrightarrow> check_filters cfg (rt_Filters rcfg) = Inr () \<and>
     \<not> (rt_Handler rcfg \<noteq> [] \<and> map_of (cfg_Handlers cfg) (rt_Handler rcfg) = None)"
  by (auto simp: route_declared_def check_filters_ok map_of_None_keys)

lemma new_routes_loop_ok:
  "new_routes_loop compile cfg rcfgs = Inr rs \<longleftrightarrow>
     list_all2 (\<lambda>rcfg r. route_declared cfg rcfg \<and> NewRoute compile rcfg = Inr r) rcfgs rs"
proof (induction rcfgs arbitrary: rs)
  case (Cons rcfg rcfgs)
  have step: "new_routes_loop compile cfg (rcfg # rcfgs) = Inr (r # rs) \<longleftrightarrow>
      route_declared cfg rcfg \<and> NewRoute compile rcfg = Inr r \<and> new_routes_loop compile cfg rcfgs = Inr rs"
    for r rs
    by (auto simp: route_declared_iff split: sum.splits)
  have "new_routes_loop compile cfg (rcfg # rcfgs) \<noteq> Inr []"
    by (auto split: sum.splits)
  then show ?case
    by (cases rs) (simp_all add: step Cons.IH del: new_routes_loop.simps)
qed auto

lemma NewRoutes_ok:
  "NewRoutes compile now cfg = Inr rs \<Longrightarrow>
     list_all2 (\<lambda>rcfg r. route_declared cfg rcfg \<and> NewRoute compile rcfg = Inr r) (cfg_Routes cfg) (routes rs)"
  by (auto simp: NewRoutes_def new_routes_loop_ok split: sum.splits)

text \<open>Every filter and handler of an accepted table is declared.\<close>

lemma NewRoutes_declared:
  assumes "NewRoutes compile now cfg = Inr rs" "r \<in> List.set (routes rs)"
  shows "List.set (filters r) \<subseteq> fst ` List.set (cfg_Filters cfg)"
    "handler r = [] \<or> handler r \<in> fst ` List.set (cfg_Handlers cfg)"
proof -
  from NewRoutes_ok [OF assms(1)] assms(2)
  obtain rcfg where "route_declared cfg rcfg" "NewRoute compile rcfg = Inr r"
    by (auto simp: list_all2_conv_all_nth in_set_conv_nth)
  with NewRoute_frame show "List.set (filters r) \<subseteq> fst ` List.set (cfg_Filters cfg)"
    "handler r = [] \<or> handler r \<in> fst ` List.set (cfg_Handlers cfg)"
    by (auto simp: route_declared_def)
qed

lemma visited_in_table: "(j, r, p) \<in> List.set (visited meth (drop off rs) 0 path) \<Longrightarrow> r \<in> List.set rs"
  using visited_sound [of j r p meth "drop off rs" 0 path] by (auto intro: in_set_dropD [OF nth_mem])

lemma route_value_declared:
  assumes "NewRoutes compile now cfg = Inr rs"
  shows "List.set (Filters (route_value rs meth path off)) \<subseteq> fst ` List.set (cfg_Filters cfg)"
    "Handler (route_value rs meth path off) = [] \<or>
     Handler (route_value rs meth path off) \<in> fst ` List.set (cfg_Handlers cfg)"
proof -
  let ?vs = "visited meth (drop off (routes rs)) 0 path"
  have r: "(j, r, p) \<in> List.set ?vs \<Longrightarrow> r \<in> List.set (routes rs)" for j r p
    by (rule visited_in_table)
  have F: "Filters (route_value rs meth path off) =
      StringSet_Append [] (concat (map (\<lambda>(i, r, path). filters r) ?vs))"
    by (simp add: route_value_visits Let_def visits_Filters zero_result_def)
  show "List.set (Filters (route_value rs meth path off)) \<subseteq> fst ` List.set (cfg_Filters cfg)"
    using r NewRoutes_declared(1) [OF assms] by (auto simp: F StringSet_Append_set) blast
  show "Handler (route_value rs meth path off) = [] \<or>
     Handler (route_value rs meth path off) \<in> fst ` List.set (cfg_Handlers cfg)"
  proof (cases "?vs = []")
    case True
    then show ?thesis by (simp add: route_value_visits zero_result_def)
  next
    case False
    obtain j r' p where l: "last ?vs = (j, r', p)" by (cases "last ?vs")
    with False have "r' \<in> List.set (routes rs)"
      by (metis last_in_set r)
    moreover have "Handler (route_value rs meth path off) = handler r'"
      using l False by (simp add: route_value_visits Let_def visits_last)
    ultimately show ?thesis
      using NewRoutes_declared(2) [OF assms] by simp
  qed
qed

section \<open>A small table\<close>

text \<open>Used to exercise the theorems: a 403 rule, a rewriting route and a handler route.\<close>

definition demo_config :: "unit Config" where
  "demo_config = zero_config\<lparr>
     cfg_Filters := [(''log'', ()), (''auth'', ())], cfg_Handlers := [(''static'', ())],
     cfg_Routes :=
       [zero_route_config\<lparr>rt_Path := ''/admin'', rt_Status := 403\<rparr>,
        zero_route_config\<lparr>rt_Path := ''/old'', rt_Match := ''equal'', rt_Rewrite := ''/new?x=1'',
                          rt_Filters := [''log'']\<rparr>,
        zero_route_config\<lparr>rt_Path := ''/new'', rt_Methods := [''get''], rt_Handler := ''static'',
                          rt_Filters := [''auth'', ''log'']\<rparr>]\<rparr>"

definition no_regexp :: re_compile where
  "no_regexp pattern = Inl ''regular expressions are not supported''"

definition demo_routes_nth :: "nat \<Rightarrow> Route" where
  "demo_routes_nth i =
     (case NewRoute no_regexp (cfg_Routes demo_config ! i) of Inr r \<Rightarrow> r)"

definition demo_routes :: Routes where
  "demo_routes = \<lparr>routes = [demo_routes_nth 0, demo_routes_nth 1, demo_routes_nth 2], route_cache = None\<rparr>"

lemma ToUpper_get: "ToUpper ''get'' = ''GET''"
  by code_simp

lemma StatusText_403: "StatusText 403 = ''Forbidden''"
  by (simp add: StatusText_def status_texts_def)

lemmas demo_defs = demo_routes_def demo_routes_nth_def demo_config_def NewRoute_def initMatchPath_def
  zero_route_config_def MatchPrefix_def MatchEqual_def MatchRegexp_def Match_def matchMethods_def
  rewrite_def stops_def redirects_def path_after_def IsHttpOrHttps_def HttpProtocol_def
  HttpsProtocol_def HasPrefix_def IsHttpStatusRedirect_def SplitRequestURI_def ToUpper_get StatusText_403

lemma demo_routes_new: "NewRoutes no_regexp 0 demo_config = Inr demo_routes"
  by (simp add: NewRoutes_def demo_defs zero_config_def)

section \<open>Properties\<close>

text \<open>C7. The result of routing, from any start offset and with any pooled result object: if the
  routes that match (each with the path it saw) are \<open>vs @ [(j, r, p)]\<close>, then \<open>RouteIndex\<close> is \<open>j\<close>, the
  position of the last one counted from the start offset; handler, status text and (if it ends the
  search) status are that route's, otherwise the status is 404; it redirects exactly to that route's
  rewritten URI, if at all; the rewritten URI is that of the last rewriting route; and the filters are
  those of all matching routes, each once, in order.\<close>

theorem route_result_spec:
  assumes "pool_ok pool"
    and vs: "visited meth (drop off (routes rs)) 0 path = vs @ [(j, r, p)]"
    and res: "fst (Routes_Route pick rs pool meth path off) = res"
  shows "off + j < length (routes rs) \<and> routes rs ! (off + j) = r \<and> Match r meth p \<and>
    RouteIndex res = int j \<and> Handler res = handler r \<and> StatusMessage res = statusMessageBytes r \<and>
    StatusCode res = (if stops r p then statusCode r else 404) \<and>
    RedirectURI res = (if redirects r p then rewrite r p else []) \<and>
    RewriteURI res = last_rewrite (vs @ [(j, r, p)]) [] \<and>
    Filters res = StringSet_Append [] (concat (map (\<lambda>(i, r, p). filters r) (vs @ [(j, r, p)])))"
proof -
  let ?ws = "vs @ [(j, r, p)]"
  have "res = (if stops r p then foldl visit zero_result ?ws
               else (foldl visit zero_result ?ws)\<lparr>StatusCode := 404\<rparr>)"
    using assms by (simp add: Route_fst route_value_visits found_def Let_def del: visit.simps)
  moreover have "RedirectURI (foldl visit zero_result vs) = []"
    by (simp add: visits_RedirectURI [OF visited_init_no_redirect [OF vs]] zero_result_def)
  then have "RedirectURI (foldl visit zero_result ?ws) = (if redirects r p then rewrite r p else [])"
    by (simp add: redirects_def Let_def)
  moreover have "j - 0 < length (drop off (routes rs)) \<and> drop off (routes rs) ! (j - 0) = r \<and> Match r meth p"
    using visited_sound [of j r p meth "drop off (routes rs)" 0 path] vs by simp
  moreover note visits_last [of ?ws j r p zero_result] visits_Filters [of zero_result ?ws]
    visits_RewriteURI [of zero_result ?ws]
  moreover have "Filters zero_result = []" "RewriteURI zero_result = []"
    by (simp_all add: zero_result_def)
  ultimately show ?thesis
    by (auto simp: nth_drop simp del: visit.simps foldl_append)
qed

theorem route_result_spec_witness:
  "let res = fst (Routes_Route (\<lambda>_. 0) demo_routes [zero_result] ''GET'' ''/old'' 1)
   in RouteIndex res = 1 \<and> Handler res = ''static'' \<and> RewriteURI res = ''/new?x=1'' \<and>
      Filters res = [''log'', ''auth'']"
proof -
  have "visited ''GET'' (drop 1 (routes demo_routes)) 0 ''/old'' =
      [(0, demo_routes_nth 1, ''/old'')] @ [(1, demo_routes_nth 2, ''/new'')]"
    by (simp add: demo_defs)
  from route_result_spec [OF _ this refl, of "[zero_result]" "\<lambda>_. 0"] show ?thesis
    by (simp add: pool_ok_def last_rewrite_def demo_defs Let_def)
qed

text \<open>Routing without rewriting is first match: if no route of the table rewrites, the result
  carries handler, status and position of the first route that matches and has a handler or a status,
  and is a 404 when there is none.\<close>

lemma route_first_match:
  assumes "pool_ok pool" and "\<forall>r \<in> List.set (routes rs). rewriteUriBytes r = []"
    and res: "fst (Routes_Route pick rs pool meth path off) = res"
  shows "case find (\<lambda>(j, r). Match r meth path \<and> (statusCode r > 0 \<or> handler r \<noteq> []))
               (enumerate 0 (drop off (routes rs))) of
     None \<Rightarrow> StatusCode res = 404
   | Some (j, r) \<Rightarrow> StatusCode res = statusCode r \<and> Handler res = handler r \<and> RouteIndex res = int j"
  unfolding res [symmetric] Route_fst [OF assms(1)] route_value_loop
  using assms(2) by (intro route_loop_find) (auto dest: in_set_dropD)

lemma route_first_match_witness:
  "StatusCode (fst (Routes_Route (\<lambda>_. 0) (demo_routes\<lparr>routes := drop 2 (routes demo_routes)\<rparr>) [] ''GET'' ''/x'' 0)) = 404 \<and>
   Handler (fst (Routes_Route (\<lambda>_. 0) (demo_routes\<lparr>routes := drop 2 (routes demo_routes)\<rparr>) [] ''GET'' ''/new/y'' 0)) = ''static''"
proof -
  let ?rs = "demo_routes\<lparr>routes := drop 2 (routes demo_routes)\<rparr>"
  have h: "\<forall>r \<in> List.set (routes ?rs). rewriteUriBytes r = []"
    by (simp add: demo_defs)
  show ?thesis
    using route_first_match [OF pool_ok_Nil h refl, of "\<lambda>_. 0" "''GET''" "''/x''" 0]
      route_first_match [OF pool_ok_Nil h refl, of "\<lambda>_. 0" "''GET''" "''/new/y''" 0]
    by (simp add: demo_defs)
qed

text \<open>C15. \<open>NewRoutes\<close> accepts a configuration exactly if every route's filters and handler are declared
  in it and every route builds; and whatever an accepted table answers to any request, the handler (if
  any) and the filters of the result are declared, so the server never looks up a missing one.\<close>

theorem NewRoutes_accepts:
  "((\<exists>rs. NewRoutes compile now cfg = Inr rs) \<longleftrightarrow>
     (\<forall>rcfg \<in> List.set (cfg_Routes cfg). route_declared cfg rcfg \<and> (\<exists>r. NewRoute compile rcfg = Inr r))) \<and>
   (NewRoutes compile now cfg = Inr rs \<longrightarrow> pool_ok pool \<longrightarrow>
     (let res = fst (Routes_Route pick rs pool meth path off)
      in List.set (Filters res) \<subseteq> fst ` List.set (cfg_Filters cfg) \<and>
         (Handler res = [] \<or> Handler res \<in> fst ` List.set (cfg_Handlers cfg))))"
proof (intro conjI impI)
  have "(\<exists>rs. NewRoutes compile now cfg = Inr rs) \<longleftrightarrow>
      (\<exists>rs. new_routes_loop compile cfg (cfg_Routes cfg) = Inr rs)"
    by (auto simp: NewRoutes_def split: sum.splits)
  moreover have "(\<exists>rs. list_all2 (\<lambda>rcfg r. P rcfg \<and> Q rcfg = Inr r) xs rs) \<longleftrightarrow>
      (\<forall>x \<in> List.set xs. P x \<and> (\<exists>r. Q x = Inr r))" for P and Q :: "RouteConfig \<Rightarrow> route_error + Route" and xs
    by (induction xs) (auto simp: list_all2_Cons1)
  ultimately show "(\<exists>rs. NewRoutes compile now cfg = Inr rs) \<longleftrightarrow>
     (\<forall>rcfg \<in> List.set (cfg_Routes cfg). route_declared cfg rcfg \<and> (\<exists>r. NewRoute compile rcfg = Inr r))"
    by (simp add: new_routes_loop_ok)
next
  assume "NewRoutes compile now cfg = Inr rs" "pool_ok pool"
  with route_value_declared [of compile now cfg rs meth path off]
  show "let res = fst (Routes_Route pick rs pool meth path off)
      in List.set (Filters res) \<subseteq> fst ` List.set (cfg_Filters cfg) \<and>
         (Handler res = [] \<or> Handler res \<in> fst ` List.set (cfg_Handlers cfg))"
    by (simp add: Let_def Route_fst)
qed

theorem NewRoutes_accepts_witness:
  "(\<exists>rs. NewRoutes no_regexp 0 demo_config = Inr rs) \<and>
   Handler (fst (Routes_Route (\<lambda>_. 0) demo_routes [] ''GET'' ''/old'' 0)) \<in> {[], ''static''}"
  using NewRoutes_accepts [of no_regexp 0 demo_config demo_routes "[]" "\<lambda>_. 0" "''GET''" "''/old''" 0]
    demo_routes_new
  by (auto simp: Let_def demo_config_def)

end
