(* ===== verification/RouteCaching.thy ===== *)
theory RouteCaching
  imports Routing
begin

text \<open>
  The read-through cache of \<open>CachedRoute\<close> (\<open>pkg/route/route.go\<close>) in use: requests interleaved with the
  eviction passes the cache starts, with the release callbacks those passes start, and with callers
  giving results back. The proofs use the cache only through the interface \<open>cache_laws\<close> (the
  interpretation \<open>rc\<close>) and the pool only through \<open>object_pool\<close> (\<open>result_objects\<close>).
\<close>

section \<open>Model: a route table in use\<close>

datatype route_event =
    Request route_env nat bytes bytes
  | EvictPass int
  | ReleaseCallback
  | ReleaseResult Result

text \<open>An eviction pass runs if it was started; the oldest outstanding release callback runs.\<close>

fun route_event_step :: "maphash \<Rightarrow> route_event \<Rightarrow> Routes \<times> result_pool \<Rightarrow> Result list \<times> Routes \<times> result_pool" where
  "route_event_step mh (Request env off meth path) (rs, pool) =
     (let (res, rs', pool') = CachedRoute mh env rs pool meth path off in ([res], rs', pool'))"
| "route_event_step mh (EvictPass t) (rs, pool) =
     (case route_cache rs of
        None \<Rightarrow> ([], rs, pool)
      | Some c \<Rightarrow> if t \<in> List.set (pending c)
                  then ([], rs\<lparr>route_cache := Some (run_evict t c)\<rparr>, pool) else ([], rs, pool))"
| "route_event_step mh ReleaseCallback (rs, pool) =
     (case route_cache rs of
        None \<Rightarrow> ([], rs, pool)
      | Some c \<Rightarrow> (case released c of
            [] \<Rightarrow> ([], rs, pool)
          | (cb, k, v) # rest \<Rightarrow>
              ([], rs\<lparr>route_cache := Some (c\<lparr>released := rest\<rparr>)\<rparr>, onResultReleased v pool)))"
| "route_event_step mh (ReleaseResult r) (rs, pool) = ([], rs, Release r pool)"

fun route_run :: "maphash \<Rightarrow> route_event list \<Rightarrow> Routes \<times> result_pool \<Rightarrow> Result list" where
  "route_run mh [] s = []"
| "route_run mh (e # es) s =
     (let (out, s') = route_event_step mh e s in out @ route_run mh es s')"

fun requests_of :: "route_event list \<Rightarrow> (nat \<times> bytes \<times> bytes) list" where
  "requests_of [] = []"
| "requests_of (Request env off meth path # es) = (off, meth, path) # requests_of es"
| "requests_of (_ # es) = requests_of es"

section \<open>Keys\<close>

text \<open>The bytes a request's key hashes.\<close>

definition key_bytes :: "nat \<times> bytes \<times> bytes \<Rightarrow> bytes" where
  "key_bytes = (\<lambda>(off, meth, path).
     concat (map enc_field [PutUint32 (word_of_nat off), meth, path]))"

lemma request_key_bytes: "request_key mh b off meth path = mh (key_bytes (off, meth, path))"
  by (simp add: request_key_def key_bytes_def Sum_def Let_def)

definition request_ok :: "nat \<times> bytes \<times> bytes \<Rightarrow> bool" where
  "request_ok = (\<lambda>(off, meth, path). off < 2 ^ 32 \<and> length meth < 2 ^ 32 \<and> length path < 2 ^ 32)"

lemma key_bytes_inject:
  assumes "request_ok q" "request_ok q'"
  shows "key_bytes q = key_bytes q' \<longleftrightarrow> q = q'"
proof -
  have "(word_of_nat n :: 32 word) = word_of_nat m \<longleftrightarrow> n = m" if "n < 2 ^ 32" "m < 2 ^ 32" for n m
  proof -
    have "unat (word_of_nat n :: 32 word) = n" "unat (word_of_nat m :: 32 word) = m"
      using that by (simp_all add: unat_of_nat)
    then show ?thesis by metis
  qed
  then show ?thesis
    using assms
    by (cases q; cases q')
       (auto simp: key_bytes_def request_ok_def concat_enc_inject simp del: map_append concat.simps list.map)
qed

section \<open>Coherence\<close>

text \<open>
  Every cached result is the uncached result of one of the requests \<open>Q\<close>, under that request's key.
\<close>

definition answers :: "maphash \<Rightarrow> Routes \<Rightarrow> (nat \<times> bytes \<times> bytes) set \<Rightarrow> key \<Rightarrow> Result \<Rightarrow> bool" where
  "answers mh rs0 Q k v \<longleftrightarrow>
     (\<exists>off meth path. (off, meth, path) \<in> Q \<and> k = mh (key_bytes (off, meth, path)) \<and>
        v = route_value rs0 meth path off)"

definition coherent :: "maphash \<Rightarrow> Routes \<Rightarrow> (nat \<times> bytes \<times> bytes) set \<Rightarrow> Routes \<times> result_pool \<Rightarrow> bool" where
  "coherent mh rs0 Q s \<longleftrightarrow> routes (fst s) = routes rs0 \<and> pool_ok (snd s) \<and>
     (\<forall>c. route_cache (fst s) = Some c \<longrightarrow> cache_wf c \<and> (\<forall>k v. lookup c k = Some v \<longrightarrow> answers mh rs0 Q k v))"

lemma answersI:
  "(off, meth, path) \<in> Q \<Longrightarrow> answers mh rs0 Q (mh (key_bytes (off, meth, path))) (route_value rs0 meth path off)"
  by (auto simp: answers_def)

lemma coherent_request:
  assumes coh: "coherent mh rs0 Q (rs, pool)" and q: "(off, meth, path) \<in> Q"
    and run: "CachedRoute mh env rs pool meth path off = (res, rs', pool')"
  shows "coherent mh rs0 Q (rs', pool') \<and>
    (case route_cache rs of None \<Rightarrow> res = route_value rs0 meth path off
     | Some _ \<Rightarrow> answers mh rs0 Q (mh (key_bytes (off, meth, path))) res)"
proof (cases "route_cache rs")
  case None
  then show ?thesis
    using coh run Route_fst [of pool "env_pick env" rs meth path off]
      Route_snd [of pool "env_pick env" rs meth path off] route_value_routes [of rs rs0]
    by (auto simp: CachedRoute_def coherent_def split: prod.splits)
next
  case (Some c)
  let ?k = "mh (key_bytes (off, meth, path))"
  have wf: "cache_wf c" and pool: "pool_ok pool"
    and all: "\<And>k v. lookup c k = Some v \<Longrightarrow> answers mh rs0 Q k v"
    using coh Some by (auto simp: coherent_def)
  obtain v c1 where get: "Get (env_get_time env) ?k c = (v, c1)"
    by (cases "Get (env_get_time env) ?k c")
  then have v: "v = lookup c ?k" and c1: "c1 = snd (Get (env_get_time env) ?k c)"
    using rc.get_value [of "env_get_time env" ?k c] by simp_all
  have wf1: "cache_wf c1"
    using rc.good_get [OF wf] by (simp add: c1)
  have all1: "\<And>k v. lookup c1 k = Some v \<Longrightarrow> answers mh rs0 Q k v"
    unfolding c1 by (rule rc.all_get [OF all])
  show ?thesis
  proof (cases v)
    case hit: (Some r)
    then have "answers mh rs0 Q ?k r"
      using all v by simp
    moreover have "res = r" "rs' = rs\<lparr>route_cache := Some c1\<rparr>"
      "pool' = snd (AcquireResult (env_pick env) pool)"
      using run Some get hit
      by (auto simp: CachedRoute_def request_key_bytes Let_def split: prod.splits)
    ultimately show ?thesis
      using coh Some wf1 all1 AcquireResult_snd [OF pool] by (auto simp: coherent_def)
  next
    case miss: None
    let ?val = "route_value rs0 meth path off"
    obtain r pool1 where rt: "Routes_Route (env_pick env) rs pool meth path off = (r, pool1)"
      by (cases "Routes_Route (env_pick env) rs pool meth path off")
    have r: "r = ?val" and pool1: "pool_ok pool1"
      using Route_fst [OF pool, of "env_pick env" rs meth path off]
        Route_snd [OF pool, of "env_pick env" rs meth path off] rt coh
        route_value_routes [of rs rs0] by (auto simp: coherent_def)
    have eqs: "res = ?val"
      "rs' = rs\<lparr>route_cache := Some (Set (env_set_time env) ?k (Some ?val) c1)\<rparr>"
      "pool' = snd (AcquireResult (env_pick env) pool1)"
      using run Some get miss rt r
      by (auto simp: CachedRoute_def request_key_bytes Let_def split: prod.splits)
    have "\<And>k v. lookup (Set (env_set_time env) ?k (Some ?val) c1) k = Some v \<Longrightarrow> answers mh rs0 Q k v"
      using rc.all_put [where P = "answers mh rs0 Q" and c = c1] all1 answersI [OF q] by blast
    then show ?thesis
      using coh Some eqs rc.good_put [OF wf1] AcquireResult_snd [OF pool1] answersI [OF q]
      by (auto simp: coherent_def)
  qed
qed

lemma pool_ok_onResultReleased: "pool_ok (onResultReleased v pool) \<longleftrightarrow> pool_ok pool"
  by (simp add: onResultReleased_def split: option.split)

lemma coherent_event:
  assumes coh: "coherent mh rs0 Q (rs, pool)"
    and e: "\<And>env off meth path. e \<noteq> Request env off meth path"
    and run: "route_event_step mh e (rs, pool) = (out, s')"
  shows "coherent mh rs0 Q s' \<and> out = []"
proof (cases e)
  case (EvictPass t)
  show ?thesis
  proof (cases "route_cache rs")
    case None
    then show ?thesis
      using coh run by (simp add: EvictPass)
  next
    case (Some c)
    then have wf: "cache_wf c" and all: "\<And>k v. lookup c k = Some v \<Longrightarrow> answers mh rs0 Q k v"
      using coh by (simp_all add: coherent_def)
    have "lookup (run_evict t c) k = Some v \<Longrightarrow> answers mh rs0 Q k v" for k v
      using rc.all_evict [where P = "answers mh rs0 Q" and c = c] all wf by blast
    with rc.good_evict [OF wf] show ?thesis
      using coh run Some by (auto simp: EvictPass coherent_def split: if_splits)
  qed
next
  case ReleaseCallback
  show ?thesis
  proof (cases "route_cache rs")
    case None
    then show ?thesis
      using coh run by (simp add: ReleaseCallback)
  next
    case (Some c)
    then show ?thesis
      using coh run
      by (cases "released c")
         (auto simp: ReleaseCallback coherent_def cache_wf_def lookup_def pool_ok_onResultReleased)
  qed
next
  case (ReleaseResult r)
  then show ?thesis
    using coh run by (auto simp: coherent_def)
qed (use e in blast)

text \<open>Cached or not, what the table is does not change over a run.\<close>

lemma CachedRoute_cache_None:
  "CachedRoute mh env rs pool meth path off = (res, rs', pool') \<Longrightarrow>
     (route_cache rs' = None \<longleftrightarrow> route_cache rs = None)"
  by (auto simp: CachedRoute_def Let_def split: option.splits prod.splits)

lemma coherent_run:
  assumes "coherent mh rs0 Q s" "List.set (requests_of es) \<subseteq> Q" "inj_on mh (key_bytes ` Q)"
    "\<forall>q \<in> Q. request_ok q"
  shows "route_run mh es s = map (\<lambda>(off, meth, path). route_value rs0 meth path off) (requests_of es)"
  using assms(1,2)
proof (induction es arbitrary: s)
  case (Cons e es)
  obtain rs pool where s: "s = (rs, pool)" by (cases s)
  obtain out s' where st: "route_event_step mh e (rs, pool) = (out, s')"
    by (cases "route_event_step mh e (rs, pool)")
  show ?case
  proof (cases "\<exists>env off meth path. e = Request env off meth path")
    case True
    then obtain env off meth path where e: "e = Request env off meth path" by blast
    obtain res rs' pool' where run: "CachedRoute mh env rs pool meth path off = (res, rs', pool')"
      by (cases "CachedRoute mh env rs pool meth path off")
    have q: "(off, meth, path) \<in> Q" using Cons.prems(2) e by simp
    note step = coherent_request [OF Cons.prems(1) [unfolded s] q run]
    have "res = route_value rs0 meth path off"
    proof (cases "route_cache rs")
      case (Some c)
      with step obtain off' meth' path' where
        a: "(off', meth', path') \<in> Q" "mh (key_bytes (off, meth, path)) = mh (key_bytes (off', meth', path'))"
          "res = route_value rs0 meth' path' off'"
        by (auto simp: answers_def)
      then have "key_bytes (off, meth, path) = key_bytes (off', meth', path')"
        using assms(3) q by (auto dest: inj_onD)
      then have "(off, meth, path) = (off', meth', path')"
        using key_bytes_inject assms(4) a(1) q by blast
      with a(3) show ?thesis by simp
    qed (use step in simp)
    moreover have "route_run mh es (rs', pool') =
        map (\<lambda>(off, meth, path). route_value rs0 meth path off) (requests_of es)"
      using step Cons.prems(2) e by (intro Cons.IH) auto
    ultimately show ?thesis
      by (simp add: s e run)
  next
    case False
    then have c: "coherent mh rs0 Q s' \<and> out = []"
      using coherent_event [OF _ _ st] Cons.prems(1) s by blast
    have "requests_of (e # es) = requests_of es"
      using False by (cases e) auto
    with c Cons show ?thesis
      by (simp add: s st)
  qed
qed simp

lemma new_cache_empty:
  "lookup (OnRelease cb (NewCache now cc)) k = None" "cache_wf (OnRelease cb (NewCache now cc))"
  by (simp_all add: lookup_def OnRelease_def NewCache_def cache_wf_def Let_def)

lemma coherent_new:
  assumes "NewRoutes compile now cfg = Inr rs"
  shows "coherent mh rs Q (rs, [])"
  using assms
  by (auto simp: coherent_def NewRoutes_def new_cache_empty pool_ok_def split: sum.splits if_splits)

section \<open>What every result of a table has in common\<close>

definition cache_all :: "(Result \<Rightarrow> bool) \<Rightarrow> Routes \<Rightarrow> bool" where
  "cache_all P rs \<longleftrightarrow> (\<forall>c. route_cache rs = Some c \<longrightarrow>
     cache_wf c \<and> (\<forall>k v. lookup c k = Some v \<longrightarrow> P v))"

text \<open>What holds of every uncached result holds of every cached one.\<close>

lemma CachedRoute_all:
  assumes all: "cache_all P rs" and pool: "pool_ok pool" and val: "\<And>m p i. P (route_value rs m p i)"
    and run: "CachedRoute mh env rs pool meth path off = (res, rs', pool')"
  shows "P res \<and> cache_all P rs' \<and> routes rs' = routes rs \<and> pool_ok pool'"
proof (cases "route_cache rs")
  case None
  then show ?thesis
    using run all val Route_fst [OF pool, of "env_pick env" rs meth path off]
      Route_snd [OF pool, of "env_pick env" rs meth path off]
    by (auto simp: CachedRoute_def split: prod.splits)
next
  case (Some c)
  let ?k = "request_key mh (env_builder env) off meth path"
  have wf: "cache_wf c" and P: "\<And>k v. lookup c k = Some v \<Longrightarrow> P v"
    using all Some by (auto simp: cache_all_def)
  obtain v c1 where get: "Get (env_get_time env) ?k c = (v, c1)"
    by (cases "Get (env_get_time env) ?k c")
  then have v: "v = lookup c ?k" and c1: "c1 = snd (Get (env_get_time env) ?k c)"
    using rc.get_value [of "env_get_time env" ?k c] by simp_all
  have wf1: "cache_wf c1" and P1: "\<And>k v. lookup c1 k = Some v \<Longrightarrow> P v"
    using rc.good_get [OF wf] P by (simp_all add: c1 rc.get_content)
  show ?thesis
  proof (cases v)
    case hit: (Some r)
    then show ?thesis
      using run Some get v P [of ?k r] wf1 P1 AcquireResult_snd [OF pool, of "env_pick env"]
      by (auto simp: CachedRoute_def Let_def cache_all_def split: prod.splits)
  next
    case miss: None
    obtain r pool1 where rt: "Routes_Route (env_pick env) rs pool meth path off = (r, pool1)"
      by (cases "Routes_Route (env_pick env) rs pool meth path off")
    have Pr: "P r" and pool1: "pool_ok pool1"
      using Route_fst [OF pool, of "env_pick env" rs meth path off]
        Route_snd [OF pool, of "env_pick env" rs meth path off] rt val by auto
    have "lookup (Set (env_set_time env) ?k (Some r) c1) k = Some w \<Longrightarrow> P w" for k w
      using rc.all_put [where P = "\<lambda>_. P" and c = c1] P1 Pr by blast
    then show ?thesis
      using run Some get miss rt Pr rc.good_put [OF wf1] AcquireResult_snd [OF pool1, of "env_pick env"]
      by (auto simp: CachedRoute_def Let_def cache_all_def split: prod.splits)
  qed
qed

lemma NewRoutes_cache_all:
  assumes "NewRoutes compile now cfg = Inr rs"
  shows "cache_all P rs"
  using assms by (auto simp: cache_all_def NewRoutes_def new_cache_empty split: sum.splits if_splits)

section \<open>Properties\<close>

text \<open>C2. Caching is transparent: in every run of a freshly built table, with the cache on or off,
  whatever its capacity, expiry and clock readings, with eviction passes, release callbacks and
  released results interleaved in any order, each request gets exactly the result uncached routing
  computes for it, provided \<open>maphash\<close> has no collision among the keys of the requests made.\<close>

theorem cached_route_transparent:
  assumes "NewRoutes compile now cfg = Inr rs"
    and "\<forall>q \<in> List.set (requests_of es). request_ok q"
    and "inj_on mh (key_bytes ` List.set (requests_of es))"
  shows "route_run mh es (rs, []) =
    map (\<lambda>(off, meth, path). route_value rs meth path off) (requests_of es)"
  by (rule coherent_run [OF coherent_new [OF assms(1)] subset_refl assms(3,2)])

definition demo_env :: "int \<Rightarrow> route_env" where
  "demo_env t = \<lparr>env_pick = (\<lambda>_. 0), env_builder = \<lparr>hashed = [], lenBuf = []\<rparr>,
                 env_get_time = t, env_set_time = t\<rparr>"

definition demo_cached :: "unit Config" where
  "demo_cached = demo_config\<lparr>cfg_RoutesCache :=
     \<lparr>rc_Enable = True, rc_Expire = 5, rc_Interval = 1, rc_MaxEntries = 1\<rparr>\<rparr>"

theorem cached_route_transparent_witness:
  "\<exists>rs. NewRoutes no_regexp 0 demo_cached = Inr rs \<and>
    route_run (\<lambda>bs. word_of_nat (length bs))
      [Request (demo_env 1) 0 ''GET'' ''/old'', Request (demo_env 2) 0 ''GET'' ''/admin'',
       Request (demo_env 9) 0 ''GET'' ''/old'', EvictPass 9, ReleaseCallback,
       Request (demo_env 10) 0 ''GET'' ''/old''] (rs, []) =
    [route_value rs ''GET'' ''/old'' 0, route_value rs ''GET'' ''/admin'' 0,
     route_value rs ''GET'' ''/old'' 0, route_value rs ''GET'' ''/old'' 0]"
proof -
  obtain rs where rs: "NewRoutes no_regexp 0 demo_cached = Inr rs"
    by (simp add: NewRoutes_def demo_cached_def demo_defs zero_config_def)
  have kb: "length (key_bytes (0, ''GET'', ''/old'')) = 23" "length (key_bytes (0, ''GET'', ''/admin'')) = 25"
    by (simp_all add: key_bytes_def enc_field_def)
  let ?es = "[Request (demo_env 1) 0 ''GET'' ''/old'', Request (demo_env 2) 0 ''GET'' ''/admin'',
       Request (demo_env 9) 0 ''GET'' ''/old'', EvictPass 9, ReleaseCallback,
       Request (demo_env 10) 0 ''GET'' ''/old'']"
  have "inj_on (\<lambda>bs. word_of_nat (length bs) :: key) (key_bytes ` List.set (requests_of ?es))"
    by (simp add: inj_on_def kb)
  moreover have "\<forall>q \<in> List.set (requests_of ?es). request_ok q"
    by (simp add: request_ok_def)
  ultimately show ?thesis
    using cached_route_transparent [OF rs, of ?es "\<lambda>bs. word_of_nat (length bs)"] rs by auto
qed

end
