(* ===== verification/CtxApi.thy ===== *)
theory CtxApi
  imports UtilHttp UtilBytes
begin

text \<open>
  What the handlers use of a \<open>*fasthttp.RequestCtx\<close>. fasthttp is a package of its own, so the context
  is an abstract value of a type \<open>'c\<close> (the request, the response and the world behind them) and its
  methods are the fields of a record that every definition using them takes as its first argument.
  \<open>fasthttp_ok\<close> collects the documented behaviour the theorems rely on; \<open>ref_fasthttp\<close> is a concrete
  context that satisfies it and on which the witnesses are evaluated.
\<close>

section \<open>The methods\<close>

record 'c fasthttp =
  ctx_Method :: "'c \<Rightarrow> bytes"
  ctx_Path :: "'c \<Rightarrow> bytes"
  ctx_Host :: "'c \<Rightarrow> bytes"
  ctx_QueryString :: "'c \<Rightarrow> bytes"
  req_RequestURI :: "'c \<Rightarrow> bytes"
  req_SetRequestURI :: "bytes \<Rightarrow> 'c \<Rightarrow> 'c"
  req_Peek :: "bytes \<Rightarrow> 'c \<Rightarrow> bytes"
  req_SetKV :: "bytes \<Rightarrow> bytes \<Rightarrow> 'c \<Rightarrow> 'c"
  req_AddKV :: "bytes \<Rightarrow> bytes \<Rightarrow> 'c \<Rightarrow> 'c"
  req_Del :: "bytes \<Rightarrow> 'c \<Rightarrow> 'c"
  req_QueryArg :: "bytes \<Rightarrow> 'c \<Rightarrow> bytes"
  uri_SetUsername :: "bytes \<Rightarrow> 'c \<Rightarrow> 'c"
  resp_StatusCode :: "'c \<Rightarrow> int"
  resp_SetStatusCode :: "int \<Rightarrow> 'c \<Rightarrow> 'c"
  resp_SetStatusMessage :: "bytes \<Rightarrow> 'c \<Rightarrow> 'c"
  resp_Body :: "'c \<Rightarrow> bytes"
  resp_SetBody :: "bytes \<Rightarrow> 'c \<Rightarrow> 'c"
  resp_SetBodyRaw :: "bytes \<Rightarrow> 'c \<Rightarrow> 'c"
  resp_SetContentType :: "bytes \<Rightarrow> 'c \<Rightarrow> 'c"
  resp_SetKV :: "bytes \<Rightarrow> bytes \<Rightarrow> 'c \<Rightarrow> 'c"
  resp_AddKV :: "bytes \<Rightarrow> bytes \<Rightarrow> 'c \<Rightarrow> 'c"
  resp_Del :: "bytes \<Rightarrow> 'c \<Rightarrow> 'c"
  resp_Peek :: "bytes \<Rightarrow> 'c \<Rightarrow> bytes list"
  resp_Reset :: "'c \<Rightarrow> 'c"
  ctx_Error :: "bytes \<Rightarrow> int \<Rightarrow> 'c \<Rightarrow> 'c"
  ctx_RedirectBytes :: "bytes \<Rightarrow> int \<Rightarrow> 'c \<Rightarrow> 'c"
  ctx_Printf :: "string \<Rightarrow> bytes list \<Rightarrow> 'c \<Rightarrow> 'c"
  fh_AppendUint :: "bytes \<Rightarrow> int \<Rightarrow> bytes"

section \<open>Documented behaviour\<close>

text \<open>The two fields of the response most of the code looks at.\<close>

definition same_response :: "'c fasthttp \<Rightarrow> 'c \<Rightarrow> 'c \<Rightarrow> bool" where
  "same_response F c d \<longleftrightarrow> resp_StatusCode F c = resp_StatusCode F d \<and> resp_Body F c = resp_Body F d"

text \<open>Setters of the request, of headers and of the log do not touch status and body.\<close>

definition keeps_response :: "'c fasthttp \<Rightarrow> bool" where
  "keeps_response F \<longleftrightarrow>
     (\<forall>u c. same_response F (req_SetRequestURI F u c) c) \<and>
     (\<forall>k v c. same_response F (req_SetKV F k v c) c) \<and>
     (\<forall>k v c. same_response F (req_AddKV F k v c) c) \<and>
     (\<forall>k c. same_response F (req_Del F k c) c) \<and>
     (\<forall>u c. same_response F (uri_SetUsername F u c) c) \<and>
     (\<forall>t c. same_response F (resp_SetContentType F t c) c) \<and>
     (\<forall>k v c. same_response F (resp_SetKV F k v c) c) \<and>
     (\<forall>k v c. same_response F (resp_AddKV F k v c) c) \<and>
     (\<forall>k c. same_response F (resp_Del F k c) c) \<and>
     (\<forall>m c. same_response F (resp_SetStatusMessage F m c) c) \<and>
     (\<forall>m xs c. same_response F (ctx_Printf F m xs c) c)"

definition fasthttp_ok :: "'c fasthttp \<Rightarrow> bool" where
  "fasthttp_ok F \<longleftrightarrow> keeps_response F \<and>
     (\<forall>s c. s \<noteq> 0 \<longrightarrow> resp_StatusCode F (resp_SetStatusCode F s c) = s) \<and>
     (\<forall>s c. resp_Body F (resp_SetStatusCode F s c) = resp_Body F c) \<and>
     (\<forall>b c. resp_Body F (resp_SetBody F b c) = b) \<and>
     (\<forall>b c. resp_StatusCode F (resp_SetBody F b c) = resp_StatusCode F c) \<and>
     (\<forall>b c. resp_Body F (resp_SetBodyRaw F b c) = b) \<and>
     (\<forall>b c. resp_StatusCode F (resp_SetBodyRaw F b c) = resp_StatusCode F c) \<and>
     (\<forall>c. resp_StatusCode F (resp_Reset F c) = 200) \<and>
     (\<forall>c. resp_Body F (resp_Reset F c) = []) \<and>
     (\<forall>m s c. s \<noteq> 0 \<longrightarrow> resp_StatusCode F (ctx_Error F m s c) = s) \<and>
     (\<forall>m s c. resp_Body F (ctx_Error F m s c) = m) \<and>
     (\<forall>u s c. resp_StatusCode F (ctx_RedirectBytes F u s c) = (if IsHttpStatusRedirect s then s else 302)) \<and>
     (\<forall>dst n. 0 \<le> n \<longrightarrow> fh_AppendUint F dst n = dst @ digits n)"

named_theorems ctx_laws \<open>status and body after each method of the context\<close>

lemma keeps_response_laws:
  assumes "fasthttp_ok F"
  shows "same_response F (req_SetRequestURI F u c) c" "same_response F (req_SetKV F k v c) c"
    "same_response F (req_AddKV F k v c) c" "same_response F (req_Del F k c) c"
    "same_response F (uri_SetUsername F u c) c" "same_response F (resp_SetContentType F t c) c"
    "same_response F (resp_SetKV F k v c) c" "same_response F (resp_AddKV F k v c) c"
    "same_response F (resp_Del F k c) c" "same_response F (resp_SetStatusMessage F m c) c"
    "same_response F (ctx_Printf F l xs c) c"
  using assms by (simp_all add: fasthttp_ok_def keeps_response_def)

lemma status_kept [ctx_laws]:
  assumes "fasthttp_ok F"
  shows "resp_StatusCode F (req_SetRequestURI F u c) = resp_StatusCode F c"
    "resp_StatusCode F (req_SetKV F k v c) = resp_StatusCode F c"
    "resp_StatusCode F (req_AddKV F k v c) = resp_StatusCode F c"
    "resp_StatusCode F (req_Del F k c) = resp_StatusCode F c"
    "resp_StatusCode F (uri_SetUsername F u c) = resp_StatusCode F c"
    "resp_StatusCode F (resp_SetContentType F t c) = resp_StatusCode F c"
    "resp_StatusCode F (resp_SetKV F k v c) = resp_StatusCode F c"
    "resp_StatusCode F (resp_AddKV F k v c) = resp_StatusCode F c"
    "resp_StatusCode F (resp_Del F k c) = resp_StatusCode F c"
    "resp_StatusCode F (resp_SetStatusMessage F m c) = resp_StatusCode F c"
    "resp_StatusCode F (ctx_Printf F l xs c) = resp_StatusCode F c"
  using keeps_response_laws [OF assms] by (simp_all add: same_response_def)

lemma body_kept [ctx_laws]:
  assumes "fasthttp_ok F"
  shows "resp_Body F (req_SetRequestURI F u c) = resp_Body F c"
    "resp_Body F (req_SetKV F k v c) = resp_Body F c"
    "resp_Body F (req_AddKV F k v c) = resp_Body F c"
    "resp_Body F (req_Del F k c) = resp_Body F c"
    "resp_Body F (uri_SetUsername F u c) = resp_Body F c"
    "resp_Body F (resp_SetContentType F t c) = resp_Body F c"
    "resp_Body F (resp_SetKV F k v c) = resp_Body F c"
    "resp_Body F (resp_AddKV F k v c) = resp_Body F c"
    "resp_Body F (resp_Del F k c) = resp_Body F c"
    "resp_Body F (resp_SetStatusMessage F m c) = resp_Body F c"
    "resp_Body F (ctx_Printf F l xs c) = resp_Body F c"
  using keeps_response_laws [OF assms] by (simp_all add: same_response_def)

lemma response_set [ctx_laws]:
  assumes "fasthttp_ok F"
  shows "s \<noteq> 0 \<Longrightarrow> resp_StatusCode F (resp_SetStatusCode F s c) = s"
    "resp_Body F (resp_SetStatusCode F s c) = resp_Body F c"
    "resp_Body F (resp_SetBody F b c) = b"
    "resp_StatusCode F (resp_SetBody F b c) = resp_StatusCode F c"
    "resp_Body F (resp_SetBodyRaw F b c) = b"
    "resp_StatusCode F (resp_SetBodyRaw F b c) = resp_StatusCode F c"
    "resp_StatusCode F (resp_Reset F c) = 200" "resp_Body F (resp_Reset F c) = []"
    "s \<noteq> 0 \<Longrightarrow> resp_StatusCode F (ctx_Error F m s c) = s" "resp_Body F (ctx_Error F m s c) = m"
    "resp_StatusCode F (ctx_RedirectBytes F u s c) = (if IsHttpStatusRedirect s then s else 302)"
    "0 \<le> n \<Longrightarrow> fh_AppendUint F dst n = dst @ digits n"
  using assms by (simp_all add: fasthttp_ok_def)

section \<open>A reference context\<close>

record refctx =
  rx_method :: bytes
  rx_uri :: bytes
  rx_host :: bytes
  rx_reqh :: "(bytes \<times> bytes) list"
  rx_user :: bytes
  rx_status :: int
  rx_message :: bytes
  rx_resph :: "(bytes \<times> bytes) list"
  rx_body :: bytes
  rx_log :: "(string \<times> bytes list) list"

definition hdr_del :: "bytes \<Rightarrow> (bytes \<times> bytes) list \<Rightarrow> (bytes \<times> bytes) list" where
  "hdr_del k hs = filter (\<lambda>(k', v). k' \<noteq> k) hs"

definition hdr_all :: "bytes \<Rightarrow> (bytes \<times> bytes) list \<Rightarrow> bytes list" where
  "hdr_all k hs = map snd (filter (\<lambda>(k', v). k' = k) hs)"

definition hdr_first :: "bytes \<Rightarrow> (bytes \<times> bytes) list \<Rightarrow> bytes" where
  "hdr_first k hs = (case map_of hs k of None \<Rightarrow> [] | Some v \<Rightarrow> v)"

text \<open>Query arguments \<open>k=v\<close> joined by \<open>&\<close>, without escapes.\<close>

definition ref_arg :: "bytes \<Rightarrow> bytes \<times> bytes" where
  "ref_arg a = (takeWhile (\<lambda>c. c \<noteq> CHR ''='') a, drop 1 (dropWhile (\<lambda>c. c \<noteq> CHR ''='') a))"

fun split_amp :: "bytes \<Rightarrow> bytes \<Rightarrow> bytes list" where
  "split_amp acc [] = [rev acc]"
| "split_amp acc (c # cs) = (if c = CHR ''&'' then rev acc # split_amp [] cs else split_amp (c # acc) cs)"

definition ref_args :: "bytes \<Rightarrow> (bytes \<times> bytes) list" where
  "ref_args q = map ref_arg (filter (\<lambda>a. a \<noteq> []) (split_amp [] q))"

definition ref_fasthttp :: "refctx fasthttp" where
  "ref_fasthttp =
    \<lparr>ctx_Method = rx_method,
     ctx_Path = (\<lambda>c. fst (SplitRequestURI (rx_uri c))),
     ctx_Host = rx_host,
     ctx_QueryString = (\<lambda>c. case snd (SplitRequestURI (rx_uri c)) of None \<Rightarrow> [] | Some q \<Rightarrow> q),
     req_RequestURI = rx_uri,
     req_SetRequestURI = (\<lambda>u c. c\<lparr>rx_uri := u\<rparr>),
     req_Peek = (\<lambda>k c. hdr_first k (rx_reqh c)),
     req_SetKV = (\<lambda>k v c. c\<lparr>rx_reqh := hdr_del k (rx_reqh c) @ [(k, v)]\<rparr>),
     req_AddKV = (\<lambda>k v c. c\<lparr>rx_reqh := rx_reqh c @ [(k, v)]\<rparr>),
     req_Del = (\<lambda>k c. c\<lparr>rx_reqh := hdr_del k (rx_reqh c)\<rparr>),
     req_QueryArg = (\<lambda>k c. hdr_first k (ref_args (case snd (SplitRequestURI (rx_uri c)) of None \<Rightarrow> [] | Some q \<Rightarrow> q))),
     uri_SetUsername = (\<lambda>u c. c\<lparr>rx_user := u\<rparr>),
     resp_StatusCode = (\<lambda>c. if rx_status c = 0 then 200 else rx_status c),
     resp_SetStatusCode = (\<lambda>s c. c\<lparr>rx_status := s\<rparr>),
     resp_SetStatusMessage = (\<lambda>m c. c\<lparr>rx_message := m\<rparr>),
     resp_Body = rx_body,
     resp_SetBody = (\<lambda>b c. c\<lparr>rx_body := b\<rparr>),
     resp_SetBodyRaw = (\<lambda>b c. c\<lparr>rx_body := b\<rparr>),
     resp_SetContentType = (\<lambda>t c. c\<lparr>rx_resph := hdr_del ''Content-Type'' (rx_resph c) @ [(''Content-Type'', t)]\<rparr>),
     resp_SetKV = (\<lambda>k v c. c\<lparr>rx_resph := hdr_del k (rx_resph c) @ [(k, v)]\<rparr>),
     resp_AddKV = (\<lambda>k v c. c\<lparr>rx_resph := rx_resph c @ [(k, v)]\<rparr>),
     resp_Del = (\<lambda>k c. c\<lparr>rx_resph := hdr_del k (rx_resph c)\<rparr>),
     resp_Peek = (\<lambda>k c. hdr_all k (rx_resph c)),
     resp_Reset = (\<lambda>c. c\<lparr>rx_status := 0, rx_message := [], rx_resph := [], rx_body := []\<rparr>),
     ctx_Error = (\<lambda>m s c. c\<lparr>rx_status := s, rx_message := [], rx_resph := [], rx_body := m\<rparr>),
     ctx_RedirectBytes = (\<lambda>u s c. c\<lparr>rx_status := if IsHttpStatusRedirect s then s else 302,
        rx_resph := hdr_del ''Location'' (rx_resph c) @ [(''Location'', u)]\<rparr>),
     ctx_Printf = (\<lambda>m xs c. c\<lparr>rx_log := rx_log c @ [(m, xs)]\<rparr>),
     fh_AppendUint = (\<lambda>dst n. dst @ digits n)\<rparr>"

lemma ref_fasthttp_ok: "fasthttp_ok ref_fasthttp"
  by (simp add: fasthttp_ok_def keeps_response_def same_response_def ref_fasthttp_def IsHttpStatusRedirect_def)

definition ref_request :: "bytes \<Rightarrow> bytes \<Rightarrow> refctx" where
  "ref_request method uri =
    \<lparr>rx_method = method, rx_uri = uri, rx_host = [], rx_reqh = [], rx_user = [], rx_status = 0,
     rx_message = [], rx_resph = [], rx_body = [], rx_log = []\<rparr>"

lemmas ref_defs = ref_fasthttp_def ref_request_def hdr_del_def hdr_all_def hdr_first_def

end
