(* ===== verification/ConfigTree.thy ===== *)
theory ConfigTree
  imports Main
begin

text \<open>
  The untyped configuration of a filter or handler: a \<open>tree.Node\<close> of the package
  \<open>github.com/mojatter/tree\<close>. The node type is abstract (\<open>'n\<close>); the accessors the constructors call are
  the fields of a record. \<open>tn_Map\<close> lists the entries in the order in which the loop that reads them
  visits them, which for a Go map is arbitrary.
\<close>

datatype tree_type = TypeNilValue | TypeMap | TypeArray | TypeStringValue | TypeOther

record 'n tree_api =
  tn_Get :: "string \<Rightarrow> 'n \<Rightarrow> 'n"
  tn_Has :: "string \<Rightarrow> 'n \<Rightarrow> bool"
  tn_String :: "'n \<Rightarrow> string"
  tn_Int :: "'n \<Rightarrow> int"
  tn_Array :: "'n \<Rightarrow> 'n list"
  tn_Map :: "'n \<Rightarrow> (string \<times> 'n) list"
  tn_Type :: "'n \<Rightarrow> tree_type"
  tn_IsNil :: "'n \<Rightarrow> bool"
  tn_SetString :: "string \<Rightarrow> string \<Rightarrow> 'n \<Rightarrow> 'n"

text \<open>A reference tree for the witnesses.\<close>

datatype rtree = RNil | RStr string | RInt int | RArr "rtree list" | RMap "(string \<times> rtree) list"

fun rt_lookup :: "string \<Rightarrow> (string \<times> rtree) list \<Rightarrow> rtree" where
  "rt_lookup k [] = RNil"
| "rt_lookup k ((k', v) # kvs) = (if k' = k then v else rt_lookup k kvs)"

definition ref_tree :: "rtree tree_api" where
  "ref_tree =
    \<lparr>tn_Get = (\<lambda>k n. case n of RMap kvs \<Rightarrow> rt_lookup k kvs | _ \<Rightarrow> RNil),
     tn_Has = (\<lambda>k n. case n of RMap kvs \<Rightarrow> k \<in> fst ` set kvs | _ \<Rightarrow> False),
     tn_String = (\<lambda>n. case n of RStr s \<Rightarrow> s | _ \<Rightarrow> []),
     tn_Int = (\<lambda>n. case n of RInt i \<Rightarrow> i | _ \<Rightarrow> 0),
     tn_Array = (\<lambda>n. case n of RArr ns \<Rightarrow> ns | _ \<Rightarrow> []),
     tn_Map = (\<lambda>n. case n of RMap kvs \<Rightarrow> kvs | _ \<Rightarrow> []),
     tn_Type = (\<lambda>n. case n of RNil \<Rightarrow> TypeNilValue | RStr _ \<Rightarrow> TypeStringValue | RInt _ \<Rightarrow> TypeOther
                 | RArr _ \<Rightarrow> TypeArray | RMap _ \<Rightarrow> TypeMap),
     tn_IsNil = (\<lambda>n. n = RNil),
     tn_SetString = (\<lambda>k s n. case n of RMap kvs \<Rightarrow> RMap ((k, RStr s) # filter (\<lambda>(k', v). k' \<noteq> k) kvs) | _ \<Rightarrow> n)\<rparr>"

end
