(* ===== verification/ErrorPages.thy ===== *)
theory ErrorPages
  imports CtxApi
begin

text \<open>
  The custom error pages of \<open>pkg/handler/errorpages.go\<close>. The file server the pages come from
  (\<open>fasthttp.FS\<close>) is a function on contexts; the per-status cache \<open>errorPaths\<close> is state, threaded
  through \<open>Handle\<close>, one call after the other (\<open>ErrorPagesRuns\<close> lets calls overlap). A write to it outside its 200 entries is the Go panic it would be.
\<close>

section \<open>Model\<close>

type_synonym 'c handler = "'c \<Rightarrow> 'c"

record 'c ErrorPages =
  statusToPath :: "(string \<times> string) list"
  page_fs :: "'c handler option"
  errorPaths :: "bytes option list"

definition errorPagesStatusOffset :: int where
  "errorPagesStatusOffset = 400"

definition errorPagesStatusUntil :: int where
  "errorPagesStatusUntil = 600"

text \<open>\<open>newFS root\<close> is the request handler of \<open>fasthttp.FS{Root: root, Compress: true}\<close>.\<close>

definition NewErrorPages :: "(string \<Rightarrow> 'c handler) \<Rightarrow> string \<Rightarrow> (string \<times> string) list \<Rightarrow> 'c ErrorPages" where
  "NewErrorPages newFS root0 pages =
     (let root = (case map_of pages ''root'' of Some overrideRoot \<Rightarrow> overrideRoot | None \<Rightarrow> root0)
      in if length pages = 0 then \<lparr>statusToPath = [], page_fs = None, errorPaths = []\<rparr>
         else \<lparr>statusToPath = pages, page_fs = Some (newFS root),
               errorPaths = replicate (nat (errorPagesStatusUntil - errorPagesStatusOffset)) None\<rparr>)"

definition defaultErrorContentType :: bytes where
  "defaultErrorContentType = ''text/html; charset=utf-8''"

definition defaultErrorHtmls :: "bytes list" where
  "defaultErrorHtmls =
    [''<!DOCTYPE html><html><head><title>'', [],
     ''</title><style>h1,p { text-align: center; }</style></head><body><h1>'', [],
     ''</h1></body></html>'']"

fun error_html :: "'c fasthttp \<Rightarrow> int \<Rightarrow> bytes list \<Rightarrow> bytes \<Rightarrow> bytes" where
  "error_html F status [] b = b"
| "error_html F status (h # hs) b =
     (if length h = 0
      then error_html F status hs (fh_AppendUint F b status @ '' '' @ StatusText status)
      else error_html F status hs (b @ h))"

definition SendDefaultError :: "'c fasthttp \<Rightarrow> 'c \<Rightarrow> 'c" where
  "SendDefaultError F ctx =
     (if length (resp_Body F ctx) > 0 then ctx
      else
        let status = resp_StatusCode F ctx;
            b = error_html F status defaultErrorHtmls [];
            ctx = resp_SetContentType F defaultErrorContentType ctx
        in resp_SetBody F b ctx)"

text \<open>The store \<open>p.errorPaths[status-errorPagesStatusOffset] = path\<close>.\<close>

definition store_path :: "int \<Rightarrow> bytes \<Rightarrow> 'c ErrorPages \<Rightarrow> 'c ErrorPages go" where
  "store_path status path p =
     (let i = status - errorPagesStatusOffset
      in if i < 0 \<or> int (length (errorPaths p)) \<le> i then Inl IndexOutOfRange
         else Inr (p\<lparr>errorPaths := (errorPaths p)[nat i := Some path]\<rparr>))"

definition sendError :: "'c fasthttp \<Rightarrow> 'c ErrorPages \<Rightarrow> 'c \<Rightarrow> bytes \<Rightarrow> ('c ErrorPages \<times> 'c) go" where
  "sendError F p ctx path =
     (if length path = 0 then Inr (p, SendDefaultError F ctx)
      else if length path = 1 \<and> path ! 0 = CHR ''-''
      then Inr (p, SendDefaultError F (resp_SetBody F [] ctx))
      else
        let status = resp_StatusCode F ctx;
            uri = req_RequestURI F ctx;
            ctx = req_SetRequestURI F path ctx
        in case page_fs p of
             None \<Rightarrow> Inl NilDereference
           | Some f \<Rightarrow>
               (let ctx = f ctx;
                    statusFS = resp_StatusCode F ctx;
                    ctx = req_SetRequestURI F uri ctx;
                    ctx = resp_SetStatusCode F status ctx
                in if statusFS \<noteq> 200
                   then go_bind (store_path status ''-'' p) (\<lambda>p.
                          let ctx = ctx_Printf F ''invalid ErrorPages.fs status %d on %q'' [digits statusFS, path] ctx;
                              ctx = resp_SetBody F [] ctx
                          in Inr (p, SendDefaultError F ctx))
                   else Inr (p, ctx)))"

function handleStatus :: "'c fasthttp \<Rightarrow> 'c ErrorPages \<Rightarrow> 'c \<Rightarrow> bytes \<Rightarrow> int \<Rightarrow> ('c ErrorPages \<times> 'c) go" where
  "handleStatus F p ctx sb l =
     (let status = resp_StatusCode F ctx
      in if l < 0
         then go_bind (store_path status [] p) (\<lambda>p. Inr (p, SendDefaultError F ctx))
         else
           let sb = (if l < int (length sb) then sb[nat l := CHR ''x''] else sb);
               page = (case map_of (statusToPath p) sb of None \<Rightarrow> [] | Some page \<Rightarrow> page)
           in if page \<noteq> []
              then go_bind (store_path status page p) (\<lambda>p. sendError F p ctx page)
              else handleStatus F p ctx sb (l - 1))"
  by pat_completeness auto
termination
  by (relation "measure (\<lambda>(F, p, ctx, sb, l). nat (l + 1))") auto

declare handleStatus.simps [simp del]

definition Handle :: "'c fasthttp \<Rightarrow> 'c ErrorPages \<Rightarrow> 'c \<Rightarrow> ('c ErrorPages \<times> 'c) go" where
  "Handle F p ctx =
     (let status = resp_StatusCode F ctx
      in if status < errorPagesStatusOffset \<or> errorPagesStatusUntil \<le> status then Inr (p, ctx)
         else if page_fs p = None then Inr (p, SendDefaultError F ctx)
         else
           let i = status - errorPagesStatusOffset
           in if int (length (errorPaths p)) \<le> i then Inl IndexOutOfRange
              else case errorPaths p ! nat i of
                     Some path \<Rightarrow> sendError F p ctx path
                   | None \<Rightarrow>
                       (let sb = digits status in handleStatus F p ctx sb (int (length sb))))"

section \<open>Which page a status gets\<close>

definition page_of :: "'c ErrorPages \<Rightarrow> bytes \<Rightarrow> bytes" where
  "page_of p sb = (case map_of (statusToPath p) sb of None \<Rightarrow> [] | Some page \<Rightarrow> page)"

text \<open>The first \<open>n\<close> digits kept, the others wildcards.\<close>

definition wild :: "bytes \<Rightarrow> nat \<Rightarrow> bytes" where
  "wild sb n = take n sb @ replicate (length sb - n) (CHR ''x'')"

fun first_page :: "'c ErrorPages \<Rightarrow> bytes \<Rightarrow> nat \<Rightarrow> bytes" where
  "first_page p sb 0 = page_of p (wild sb 0)"
| "first_page p sb (Suc n) =
     (if page_of p (wild sb (Suc n)) \<noteq> [] then page_of p (wild sb (Suc n)) else first_page p sb n)"

definition page_for :: "'c ErrorPages \<Rightarrow> int \<Rightarrow> bytes" where
  "page_for p status = first_page p (digits status) (length (digits status))"

lemma page_of_update [simp]: "page_of (p\<lparr>errorPaths := es\<rparr>) = page_of p"
  by (simp add: page_of_def fun_eq_iff)

lemma first_page_update [simp]: "first_page (p\<lparr>errorPaths := es\<rparr>) sb n = first_page p sb n"
  by (induction n) simp_all

lemma page_for_update [simp]: "page_for (p\<lparr>errorPaths := es\<rparr>) = page_for p"
  by (simp add: page_for_def fun_eq_iff)

lemma wild_all [simp]: "wild sb (length sb) = sb"
  by (simp add: wild_def)

lemma wild_step: "n < length sb \<Longrightarrow> (wild sb (Suc n))[n := CHR ''x''] = wild sb n"
  by (rule nth_equalityI) (auto simp: wild_def nth_list_update nth_append)

lemma length_wild [simp]: "n \<le> length sb \<Longrightarrow> length (wild sb n) = length sb"
  by (simp add: wild_def)

lemma handleStatus_end:
  "handleStatus F p ctx sb (- 1) =
     go_bind (store_path (resp_StatusCode F ctx) [] p) (\<lambda>p. Inr (p, SendDefaultError F ctx))"
  by (subst handleStatus.simps) (simp add: Let_def)

lemma handleStatus_nat:
  assumes "(if n < length sb then sb[n := CHR ''x''] else sb) = w"
  shows "handleStatus F p ctx sb (int n) =
    (if page_of p w \<noteq> []
     then go_bind (store_path (resp_StatusCode F ctx) (page_of p w) p) (\<lambda>p'. sendError F p' ctx (page_of p w))
     else handleStatus F p ctx w (int n - 1))"
  by (subst handleStatus.simps, unfold page_of_def)
     (simp only: Let_def of_nat_less_iff nat_int assms of_nat_less_0_iff if_False)

lemma handleStatus_page:
  assumes "n \<le> length sb0" "length sb = length sb0"
    "(if n < length sb then sb[n := CHR ''x''] else sb) = wild sb0 n"
  shows "handleStatus F p ctx sb (int n) =
    (if first_page p sb0 n \<noteq> []
     then go_bind (store_path (resp_StatusCode F ctx) (first_page p sb0 n) p)
            (\<lambda>p'. sendError F p' ctx (first_page p sb0 n))
     else go_bind (store_path (resp_StatusCode F ctx) [] p) (\<lambda>p'. Inr (p', SendDefaultError F ctx)))"
  using assms
proof (induction n arbitrary: sb)
  case 0
  show ?case
    using handleStatus_nat [OF 0(3), of F p ctx] by (simp add: handleStatus_end)
next
  case (Suc n)
  have "handleStatus F p ctx (wild sb0 (Suc n)) (int n) =
      (if first_page p sb0 n \<noteq> []
       then go_bind (store_path (resp_StatusCode F ctx) (first_page p sb0 n) p)
              (\<lambda>p'. sendError F p' ctx (first_page p sb0 n))
       else go_bind (store_path (resp_StatusCode F ctx) [] p) (\<lambda>p'. Inr (p', SendDefaultError F ctx)))"
    using Suc.prems(1) by (intro Suc.IH) (simp_all add: wild_step)
  then show ?case
    using handleStatus_nat [OF Suc.prems(3), of F p ctx] by simp
qed

section \<open>The cache invariant\<close>

definition in_range :: "int \<Rightarrow> bool" where
  "in_range s \<longleftrightarrow> 400 \<le> s \<and> s < 600"

definition cached_path :: "'c ErrorPages \<Rightarrow> int \<Rightarrow> bytes option" where
  "cached_path p s = errorPaths p ! nat (s - 400)"

definition pages_wf :: "'c ErrorPages \<Rightarrow> bool" where
  "pages_wf p \<longleftrightarrow> page_fs p \<noteq> None \<longrightarrow>
     length (errorPaths p) = 200 \<and>
     (\<forall>s. in_range s \<longrightarrow> cached_path p s \<in> {None, Some (page_for p s), Some ''-''})"

lemma store_path_ok:
  assumes "in_range s" "length (errorPaths p) = 200"
  shows "store_path s path p = Inr (p\<lparr>errorPaths := (errorPaths p)[nat (s - 400) := Some path]\<rparr>)"
  using assms by (simp add: store_path_def in_range_def errorPagesStatusOffset_def)

lemma cached_path_store:
  assumes "in_range s" "in_range t" "length (errorPaths p) = 200"
  shows "cached_path (p\<lparr>errorPaths := (errorPaths p)[nat (s - 400) := Some path]\<rparr>) t =
    (if t = s then Some path else cached_path p t)"
  using assms by (auto simp: cached_path_def in_range_def nth_list_update nat_eq_iff)

definition default_page :: "int \<Rightarrow> bytes" where
  "default_page s =
     ''<!DOCTYPE html><html><head><title>'' @ digits s @ '' '' @ StatusText s @
     ''</title><style>h1,p { text-align: center; }</style></head><body><h1>'' @ digits s @ '' '' @ StatusText s @
     ''</h1></body></html>''"

lemma SendDefaultError_status [simp]:
  "fasthttp_ok F \<Longrightarrow> resp_StatusCode F (SendDefaultError F c) = resp_StatusCode F c"
  by (simp add: SendDefaultError_def Let_def ctx_laws)

lemma SendDefaultError_body:
  assumes "fasthttp_ok F" "0 \<le> resp_StatusCode F c"
  shows "resp_Body F (SendDefaultError F c) =
    (if resp_Body F c = [] then default_page (resp_StatusCode F c) else resp_Body F c)"
  using assms by (simp add: SendDefaultError_def Let_def ctx_laws defaultErrorHtmls_def default_page_def)

text \<open>What one call answers, given the path it settled on.\<close>

definition served :: "'c fasthttp \<Rightarrow> 'c handler \<Rightarrow> bytes \<Rightarrow> 'c \<Rightarrow> 'c" where
  "served F f page c = f (req_SetRequestURI F page c)"

definition answer :: "'c fasthttp \<Rightarrow> 'c handler \<Rightarrow> bytes \<Rightarrow> 'c \<Rightarrow> 'c" where
  "answer F f page c =
     (if page = [] then SendDefaultError F c
      else if page = ''-'' then SendDefaultError F (resp_SetBody F [] c)
      else
        let d = resp_SetStatusCode F (resp_StatusCode F c) (req_SetRequestURI F (req_RequestURI F c) (served F f page c))
        in if resp_StatusCode F (served F f page c) = 200 then d
           else SendDefaultError F (resp_SetBody F []
                  (ctx_Printf F ''invalid ErrorPages.fs status %d on %q''
                     [digits (resp_StatusCode F (served F f page c)), page] d)))"

lemma dash_iff: "length path = 1 \<and> path ! 0 = CHR ''-'' \<longleftrightarrow> path = ''-''"
  by (cases path) auto

definition settled :: "'c fasthttp \<Rightarrow> 'c handler \<Rightarrow> bytes \<Rightarrow> 'c \<Rightarrow> bytes" where
  "settled F f page c =
     (if page \<noteq> [] \<and> page \<noteq> ''-'' \<and> resp_StatusCode F (served F f page c) \<noteq> 200 then ''-'' else page)"

lemma sendError_ok:
  assumes "page_fs p = Some f" "length (errorPaths p) = 200" "in_range s" "resp_StatusCode F c = s"
    "cached_path p s = Some page"
  shows "sendError F p c page =
    Inr (p\<lparr>errorPaths := (errorPaths p)[nat (s - 400) := Some (settled F f page c)]\<rparr>, answer F f page c)"
proof -
  have "p\<lparr>errorPaths := (errorPaths p)[nat (s - 400) := Some page]\<rparr> = p"
    using assms(5) by (simp add: cached_path_def list_update_same_conv list_update_id flip: assms(5))
  then show ?thesis
    using assms unfolding sendError_def dash_iff
    by (auto simp: settled_def answer_def served_def Let_def store_path_ok)
qed

lemma Handle_ok:
  assumes "pages_wf p" "page_fs p = Some f" "in_range s" "resp_StatusCode F c = s"
  defines "page \<equiv> (case cached_path p s of Some path \<Rightarrow> path | None \<Rightarrow> page_for p s)"
  shows "Handle F p c =
    Inr (p\<lparr>errorPaths := (errorPaths p)[nat (s - 400) := Some (settled F f page c)]\<rparr>, answer F f page c)"
proof -
  have len: "length (errorPaths p) = 200"
    using assms by (simp add: pages_wf_def)
  show ?thesis
  proof (cases "cached_path p s")
    case (Some path)
    then show ?thesis
      using assms len sendError_ok [OF assms(2) len assms(3,4) Some]
      by (simp add: Handle_def Let_def in_range_def errorPagesStatusOffset_def errorPagesStatusUntil_def
          cached_path_def)
  next
    case None
    let ?p = "p\<lparr>errorPaths := (errorPaths p)[nat (s - 400) := Some page]\<rparr>"
    have pg: "page = page_for p s" by (simp add: page_def None)
    have "Handle F p c = handleStatus F p c (digits s) (int (length (digits s)))"
      using assms len None
      by (simp add: Handle_def Let_def in_range_def errorPagesStatusOffset_def errorPagesStatusUntil_def
          cached_path_def)
    also have "\<dots> = (if page \<noteq> [] then sendError F ?p c page else Inr (?p, SendDefaultError F c))"
      by (subst handleStatus_page [of _ "digits s"])
         (simp_all add: Let_def assms(4) store_path_ok [OF assms(3) len] pg page_for_def)
    also have "\<dots> = Inr (?p\<lparr>errorPaths := (errorPaths ?p)[nat (s - 400) := Some (settled F f page c)]\<rparr>,
        answer F f page c)"
      using sendError_ok [of ?p f s F c page] assms(2,3,4) len
      by (auto simp: cached_path_store settled_def answer_def)
    finally show ?thesis by simp
  qed
qed

lemma Handle_skip:
  "\<not> in_range (resp_StatusCode F c) \<Longrightarrow> Handle F p c = Inr (p, c)"
  by (auto simp: Handle_def in_range_def errorPagesStatusOffset_def errorPagesStatusUntil_def)

lemma Handle_no_pages:
  "page_fs p = None \<Longrightarrow> in_range (resp_StatusCode F c) \<Longrightarrow> Handle F p c = Inr (p, SendDefaultError F c)"
  by (simp add: Handle_def in_range_def Let_def errorPagesStatusOffset_def errorPagesStatusUntil_def)

lemma pages_wf_settle:
  assumes "pages_wf p" "page_fs p = Some f" "in_range s"
    "page \<in> {page_for p s, ''-''}" "q \<in> {page, ''-''}"
  shows "pages_wf (p\<lparr>errorPaths := (errorPaths p)[nat (s - 400) := Some q]\<rparr>)"
  using assms by (auto simp: pages_wf_def cached_path_store)

lemma settled_cases: "settled F f page c \<in> {page, ''-''}"
  by (simp add: settled_def)

lemma answer_status:
  assumes "fasthttp_ok F" "in_range (resp_StatusCode F c)"
  shows "resp_StatusCode F (answer F f page c) = resp_StatusCode F c"
  using assms by (auto simp: answer_def Let_def ctx_laws in_range_def)

lemma page_choice:
  assumes "pages_wf p" "page_fs p = Some f" "in_range s"
  shows "(case cached_path p s of Some path \<Rightarrow> path | None \<Rightarrow> page_for p s) \<in> {page_for p s, ''-''}"
  using assms by (fastforce simp: pages_wf_def split: option.split)

lemma NewErrorPages_wf: "pages_wf (NewErrorPages newFS root pages)"
  by (auto simp: pages_wf_def NewErrorPages_def cached_path_def in_range_def Let_def
      errorPagesStatusOffset_def errorPagesStatusUntil_def)

text \<open>What one call does, in one statement for the clients.\<close>

lemma Handle_total:
  assumes "fasthttp_ok F" "pages_wf p"
  shows "\<exists>p' c'. Handle F p c = Inr (p', c') \<and> pages_wf p' \<and> statusToPath p' = statusToPath p \<and>
    page_fs p' = page_fs p \<and> resp_StatusCode F c' = resp_StatusCode F c"
proof (cases "in_range (resp_StatusCode F c)")
  case True
  show ?thesis
  proof (cases "page_fs p")
    case None
    with assms True show ?thesis by (simp add: Handle_no_pages)
  next
    case (Some f)
    show ?thesis
      using Handle_ok [OF assms(2) Some True refl]
        pages_wf_settle [OF assms(2) Some True page_choice [OF assms(2) Some True] settled_cases]
        answer_status [OF assms(1) True] by simp
  qed
qed (use assms in \<open>simp add: Handle_skip\<close>)

section \<open>Properties\<close>

text \<open>A sequence of responses going through the same \<open>ErrorPages\<close>.\<close>

fun handle_all :: "'c fasthttp \<Rightarrow> 'c ErrorPages \<Rightarrow> 'c list \<Rightarrow> ('c ErrorPages \<times> 'c list) go" where
  "handle_all F p [] = Inr (p, [])"
| "handle_all F p (c # cs) =
     go_bind (Handle F p c) (\<lambda>(p', c'). go_bind (handle_all F p' cs) (\<lambda>(p'', cs'). Inr (p'', c' # cs')))"

lemma handle_all_total:
  assumes "fasthttp_ok F" "pages_wf p"
  shows "\<exists>p' cs'. handle_all F p cs = Inr (p', cs') \<and> pages_wf p' \<and> statusToPath p' = statusToPath p \<and>
    page_fs p' = page_fs p \<and> map (resp_StatusCode F) cs' = map (resp_StatusCode F) cs"
  using assms(2)
proof (induction cs arbitrary: p)
  case (Cons c cs)
  obtain p1 c1 where h: "Handle F p c = Inr (p1, c1)" "pages_wf p1" "statusToPath p1 = statusToPath p"
      "page_fs p1 = page_fs p" "resp_StatusCode F c1 = resp_StatusCode F c"
    using Handle_total [OF assms(1) Cons.prems] by blast
  with Cons.IH [OF h(2)] show ?case by fastforce
qed simp

text \<open>Error pages never change what the client is told: over any sequence of responses through a
  freshly configured \<open>ErrorPages\<close>, whatever the file server answers, no call panics (every index of the
  cache is in range) and every response keeps its status code.\<close>

lemma error_pages_keep_status:
  assumes "fasthttp_ok F"
  shows "\<exists>p' cs'. handle_all F (NewErrorPages newFS root pages) cs = Inr (p', cs') \<and>
    map (resp_StatusCode F) cs' = map (resp_StatusCode F) cs"
  using handle_all_total [OF assms NewErrorPages_wf] by metis

text \<open>A file server for the witnesses: it answers 304 to a conditional request, 404 outside
  \<open>/err/\<close>, and the page otherwise.\<close>

definition ref_fs :: "string \<Rightarrow> refctx handler" where
  "ref_fs root = (\<lambda>c. if hdr_first ''If-Modified-Since'' (rx_reqh c) \<noteq> [] then c\<lparr>rx_status := 304, rx_body := []\<rparr>
     else if HasPrefix (rx_uri c) ''/err/'' then c\<lparr>rx_status := 200, rx_body := root @ rx_uri c\<rparr>
     else c\<lparr>rx_status := 404, rx_body := ''no''\<rparr>)"

definition ref_response :: "int \<Rightarrow> refctx" where
  "ref_response s = (ref_request ''GET'' ''/a?b'')\<lparr>rx_status := s\<rparr>"

lemma error_pages_keep_status_witness:
  "\<exists>p' cs'. handle_all ref_fasthttp (NewErrorPages ref_fs ''www'' [(''40x'', ''/err/4.html'')])
     [ref_response 404, ref_response 200] = Inr (p', cs') \<and>
   map (resp_StatusCode ref_fasthttp) cs' = [404, 200]"
proof -
  have "map (resp_StatusCode ref_fasthttp) [ref_response 404, ref_response 200] = [404, 200]"
    by (simp add: ref_defs ref_response_def)
  then show ?thesis
    using error_pages_keep_status [OF ref_fasthttp_ok] by metis
qed

text \<open>C11. Which page: while a status has no cached entry, its page is the first one configured among
  the status itself, then the status with its last one, last two and all three digits replaced by
  \<open>x\<close> (no other position of an \<open>x\<close> is ever looked up). If the file server answers that page with 200,
  that answer is sent under the original status with the request URI restored; otherwise, or when no
  page is configured, an empty body becomes the default error page.\<close>

theorem error_page_choice:
  assumes "fasthttp_ok F" "pages_wf p" "page_fs p = Some f" "resp_StatusCode F c = s" "in_range s"
    and "cached_path p s = None" "digits s = [a, b, d]"
  defines "page \<equiv> (case find (\<lambda>k. page_of p k \<noteq> []) [[a, b, d], [a, b, CHR ''x''], [a, CHR ''x'', CHR ''x''], ''xxx''] of
      Some k \<Rightarrow> page_of p k | None \<Rightarrow> [])"
  defines "c1 \<equiv> f (req_SetRequestURI F page c)"
  shows "\<exists>p' c'. Handle F p c = Inr (p', c') \<and>
    (page \<notin> {[], ''-''} \<longrightarrow> resp_StatusCode F c1 = 200 \<longrightarrow>
       c' = resp_SetStatusCode F s (req_SetRequestURI F (req_RequestURI F c) c1) \<and> cached_path p' s = Some page) \<and>
    (page \<notin> {[], ''-''} \<longrightarrow> resp_StatusCode F c1 \<noteq> 200 \<longrightarrow>
       resp_Body F c' = default_page s \<and> cached_path p' s = Some ''-'') \<and>
    (page = [] \<longrightarrow> c' = SendDefaultError F c \<and> cached_path p' s = Some [])"
proof -
  have pg: "page_for p s = page"
    by (simp add: page_for_def assms(7) page_def numeral_eq_Suc wild_def)
  have len: "length (errorPaths p) = 200"
    using assms(2,3) by (simp add: pages_wf_def)
  have s: "0 \<le> s" "s \<noteq> 0"
    using assms(5) by (simp_all add: in_range_def)
  show ?thesis
    using Handle_ok [OF assms(2,3,5,4)] assms(4,6) s
    by (auto simp: pg cached_path_store [OF assms(5,5) len] settled_def answer_def served_def Let_def c1_def
        SendDefaultError_body assms(1) ctx_laws [OF assms(1)])
qed

definition ref_pages :: "refctx ErrorPages" where
  "ref_pages = NewErrorPages ref_fs ''www'' [(''40x'', ''/err/4.html'')]"

lemma ref_pages_facts:
  "page_fs ref_pages = Some (ref_fs ''www'')" "cached_path ref_pages 404 = None" "page_for ref_pages 404 = ''/err/4.html''"
  "digits 404 = ''404''" "in_range 404" "pages_wf ref_pages"
proof -
  show d: "digits 404 = ''404''" by code_simp
  show "page_fs ref_pages = Some (ref_fs ''www'')" "cached_path ref_pages 404 = None"
    by (simp_all add: ref_pages_def NewErrorPages_def cached_path_def errorPagesStatusOffset_def
        errorPagesStatusUntil_def)
  show "page_for ref_pages 404 = ''/err/4.html''"
    by (simp add: page_for_def d page_of_def wild_def ref_pages_def NewErrorPages_def numeral_eq_Suc)
  show "in_range 404" by (simp add: in_range_def)
  show "pages_wf ref_pages" by (simp add: ref_pages_def NewErrorPages_wf)
qed

theorem error_page_choice_witness:
  "\<exists>p' c'. Handle ref_fasthttp ref_pages (ref_response 404) = Inr (p', c') \<and>
     rx_body c' = ''www/err/4.html'' \<and> rx_status c' = 404 \<and> rx_uri c' = ''/a?b''"
proof -
  have pg: "(case find (\<lambda>k. page_of ref_pages k \<noteq> []) [''404'', ''40x'', ''4xx'', ''xxx''] of
      Some k \<Rightarrow> page_of ref_pages k | None \<Rightarrow> []) = ''/err/4.html''"
    by (simp add: ref_pages_def NewErrorPages_def page_of_def)
  have st: "resp_StatusCode ref_fasthttp (ref_response 404) = 404"
    by (simp add: ref_defs ref_response_def)
  show ?thesis
    using error_page_choice [OF ref_fasthttp_ok ref_pages_facts(6,1) st ref_pages_facts(5,2,4)]
    unfolding pg
    by (auto simp: ref_fs_def ref_response_def ref_defs HasPrefix_def numeral_eq_Suc)
qed

text \<open>C10. A page is given up for good, with calls that come one after the other: once the file server answers a
  configured page with anything but 200 (a 304 to a conditional request is enough), no later response of that status,
  from any client, gets the page again; each gets the default error page in place of its body, until restart. (With calls that overlap,
  the page can return: \<open>given_up_page_returns\<close>.)\<close>

theorem error_page_given_up:
  assumes "fasthttp_ok F" "pages_wf p" "page_fs p = Some f" "resp_StatusCode F c = s" "in_range s"
    and "cached_path p s \<in> {None, Some (page_for p s)}" "page_for p s \<noteq> []"
    and "resp_StatusCode F (f (req_SetRequestURI F (page_for p s) c)) \<noteq> 200"
    and "Handle F p c = Inr (p1, c1)" "handle_all F p1 cs = Inr (p2, cs')"
    and "i < length cs" "resp_StatusCode F (cs ! i) = s"
  shows "cs' ! i = SendDefaultError F (resp_SetBody F [] (cs ! i)) \<and> resp_Body F (cs' ! i) = default_page s"
proof -
  have sticky: "cs' ! i = SendDefaultError F (resp_SetBody F [] (cs ! i))"
    if "pages_wf q" "page_fs q = Some f" "cached_path q s = Some ''-''" "handle_all F q cs = Inr (p2, cs')"
      "i < length cs" "resp_StatusCode F (cs ! i) = s" for q i
    using that
  proof (induction cs arbitrary: q i cs')
    case (Cons d cs)
    obtain q1 d1 where h: "Handle F q d = Inr (q1, d1)" "pages_wf q1" "page_fs q1 = Some f"
      using Handle_total [OF assms(1) Cons.prems(1), of d] Cons.prems(2) by auto
    obtain ds where ds: "handle_all F q1 cs = Inr (p2, ds)" "cs' = d1 # ds"
      using Cons.prems(4) h(1) by (auto simp: go_bind_Inr_iff)
    have len: "length (errorPaths q) = 200"
      using Cons.prems(1,2) by (simp add: pages_wf_def)
    have step: "cached_path q1 s = Some ''-'' \<and>
        (resp_StatusCode F d = s \<longrightarrow> d1 = SendDefaultError F (resp_SetBody F [] d))"
    proof (cases "in_range (resp_StatusCode F d)")
      case True
      then show ?thesis
        using Handle_ok [OF Cons.prems(1,2) True refl] h(1) Cons.prems(3)
        by (auto simp: cached_path_store [OF True assms(5) len] settled_def answer_def)
    next
      case False
      then show ?thesis
        using Handle_skip [OF False] h(1) Cons.prems(3) assms(5) by auto
    qed
    show ?case
    proof (cases i)
      case 0
      then show ?thesis using step Cons.prems(6) ds(2) by simp
    next
      case (Suc j)
      then show ?thesis
        using Cons.IH [OF h(2,3) _ ds(1), of j] step Cons.prems(5,6) ds(2) by simp
    qed
  qed simp
  have len: "length (errorPaths p) = 200"
    using assms(2,3) by (simp add: pages_wf_def)
  have "cached_path p1 s = Some ''-'' \<and> pages_wf p1 \<and> page_fs p1 = Some f"
    using Handle_ok [OF assms(2,3,5,4)] Handle_total [OF assms(1,2), of c] assms(3,6-9)
    by (auto simp: cached_path_store [OF assms(5,5) len] settled_def served_def)
  then have "cs' ! i = SendDefaultError F (resp_SetBody F [] (cs ! i))"
    using sticky assms(10-12) by blast
  then show ?thesis
    using assms(1,5,12) by (simp add: SendDefaultError_body ctx_laws in_range_def)
qed

theorem error_page_given_up_witness:
  "let c = (ref_response 404)\<lparr>rx_reqh := [(''If-Modified-Since'', ''x'')]\<rparr>;
       p1 = fst (projr (Handle ref_fasthttp ref_pages c));
       outs = snd (projr (handle_all ref_fasthttp p1 [ref_response 404]))
   in resp_Body ref_fasthttp (outs ! 0) = default_page 404"
proof -
  let ?c = "(ref_response 404)\<lparr>rx_reqh := [(''If-Modified-Since'', ''x'')]\<rparr>"
  have st: "resp_StatusCode ref_fasthttp ?c = 404" "resp_StatusCode ref_fasthttp (ref_response 404) = 404"
    by (simp_all add: ref_defs ref_response_def)
  have not200: "resp_StatusCode ref_fasthttp (ref_fs ''www'' (req_SetRequestURI ref_fasthttp ''/err/4.html'' ?c)) \<noteq> 200"
    by (simp add: ref_fs_def ref_defs ref_response_def)
  obtain p1 c1 where h: "Handle ref_fasthttp ref_pages ?c = Inr (p1, c1)" "pages_wf p1"
    using Handle_total [OF ref_fasthttp_ok ref_pages_facts(6)] by blast
  obtain p2 outs where a: "handle_all ref_fasthttp p1 [ref_response 404] = Inr (p2, outs)"
    using handle_all_total [OF ref_fasthttp_ok h(2)] by blast
  have "resp_Body ref_fasthttp (outs ! 0) = default_page 404"
    by (rule conjunct2 [OF error_page_given_up [OF ref_fasthttp_ok ref_pages_facts(6,1) st(1)
          ref_pages_facts(5) _ _ _ h(1) a]])
       (simp_all add: ref_pages_facts not200 st(2))
  with h(1) a show ?thesis by simp
qed

end
