(* ===== verification/ErrorPagesRuns.thy ===== *)
theory ErrorPagesRuns
  imports ErrorPages
begin

text \<open>
  The error pages of \<open>ErrorPages\<close> with requests that overlap. \<open>ErrorPages.Handle\<close> runs on one goroutine per request
  and reads and writes \<open>errorPaths\<close> without a lock; here it is cut into turns with at most one access to the shared
  cache each, and the turns of any number of requests interleave. Reads and writes of one entry are taken to be whole
  (Go leaves a torn slice header undefined).
\<close>

section \<open>Turns of a request\<close>

text \<open>
  Where a request is: at the start of \<open>Handle\<close>, at a call of \<open>handleStatus\<close>, at a call of \<open>sendError\<close>, between the
  file server's answer (its status) and the store that gives the page up, or done.
\<close>

datatype 'c page_request =
    Arrived 'c
  | Looking 'c bytes int
  | Sending 'c bytes
  | GivingUp 'c int int bytes
  | Answered 'c

fun page_turn :: "'c fasthttp \<Rightarrow> 'c ErrorPages \<Rightarrow> 'c page_request \<Rightarrow> ('c ErrorPages \<times> 'c page_request) go" where
  "page_turn F p (Arrived ctx) =
     (let status = resp_StatusCode F ctx
      in if status < errorPagesStatusOffset \<or> errorPagesStatusUntil \<le> status then Inr (p, Answered ctx)
         else if page_fs p = None then Inr (p, Answered (SendDefaultError F ctx))
         else
           let i = status - errorPagesStatusOffset
           in if int (length (errorPaths p)) \<le> i then Inl IndexOutOfRange
              else case errorPaths p ! nat i of
                     Some path \<Rightarrow> Inr (p, Sending ctx path)
                   | None \<Rightarrow> (let sb = digits status in Inr (p, Looking ctx sb (int (length sb)))))"
| "page_turn F p (Looking ctx sb l) =
     (let status = resp_StatusCode F ctx
      in if l < 0 then go_bind (store_path status [] p) (\<lambda>p. Inr (p, Answered (SendDefaultError F ctx)))
         else
           let sb = (if l < int (length sb) then sb[nat l := CHR ''x''] else sb);
               page = (case map_of (statusToPath p) sb of None \<Rightarrow> [] | Some page \<Rightarrow> page)
           in if page \<noteq> [] then go_bind (store_path status page p) (\<lambda>p. Inr (p, Sending ctx page))
              else Inr (p, Looking ctx sb (l - 1)))"
| "page_turn F p (Sending ctx path) =
     (if length path = 0 then Inr (p, Answered (SendDefaultError F ctx))
      else if length path = 1 \<and> path ! 0 = CHR ''-''
      then Inr (p, Answered (SendDefaultError F (resp_SetBody F [] ctx)))
      else
        let status = resp_StatusCode F ctx;
            uri = req_RequestURI F ctx;
            ctx = req_SetRequestURI F path ctx
        in case page_fs p of
             None \<Rightarrow> Inl NilDereference
           | Some f \<Rightarrow>
               (let ctx = f ctx;
                    statusFS = resp_StatusCode F ctx;
                    ctx = req_SetRequestURI F uri ctx;
                    ctx = resp_SetStatusCode F status ctx
                in if statusFS \<noteq> 200 then Inr (p, GivingUp ctx status statusFS path)
                   else Inr (p, Answered ctx)))"
| "page_turn F p (GivingUp ctx status statusFS path) =
     go_bind (store_path status ''-'' p) (\<lambda>p.
       let ctx = ctx_Printf F ''invalid ErrorPages.fs status %d on %q'' [digits statusFS, path] ctx;
           ctx = resp_SetBody F [] ctx
       in Inr (p, Answered (SendDefaultError F ctx)))"
| "page_turn F p (Answered ctx) = Inr (p, Answered ctx)"

text \<open>The requests so far, each with the response it arrived with, or the panic of one of them.\<close>

datatype 'c pages_state =
    Serving "'c ErrorPages" "('c \<times> 'c page_request) list"
  | PagesPanic go_panic

inductive pages_step :: "'c fasthttp \<Rightarrow> 'c pages_state \<Rightarrow> 'c pages_state \<Rightarrow> bool" for F :: "'c fasthttp" where
  arrive: "pages_step F (Serving p ts) (Serving p (ts @ [(ctx, Arrived ctx)]))"
| turn: "i < length ts \<Longrightarrow> ts ! i = (ctx, t) \<Longrightarrow> page_turn F p t = Inr (p', t') \<Longrightarrow>
    pages_step F (Serving p ts) (Serving p' (ts[i := (ctx, t')]))"
| turn_panic: "i < length ts \<Longrightarrow> ts ! i = (ctx, t) \<Longrightarrow> page_turn F p t = Inl e \<Longrightarrow>
    pages_step F (Serving p ts) (PagesPanic e)"

inductive_cases pages_step_panicE: "pages_step F (PagesPanic e) s"
inductive_simps pages_step_Serving: "pages_step F (Serving p ts) s"

inductive pages_reach :: "'c fasthttp \<Rightarrow> 'c pages_state \<Rightarrow> 'c pages_state \<Rightarrow> bool" for F :: "'c fasthttp" where
  here: "pages_reach F s s"
| onward: "pages_step F s t \<Longrightarrow> pages_reach F t u \<Longrightarrow> pages_reach F s u"

lemma pages_reach_trans: "pages_reach F s t \<Longrightarrow> pages_reach F t u \<Longrightarrow> pages_reach F s u"
  by (induction rule: pages_reach.induct) (auto intro: pages_reach.intros)

section \<open>One request alone\<close>

text \<open>The turns of a request that nobody interrupts: they compute \<open>Handle\<close>.\<close>

inductive alone :: "'c fasthttp \<Rightarrow> 'c ErrorPages \<Rightarrow> 'c page_request \<Rightarrow> ('c ErrorPages \<times> 'c page_request) go \<Rightarrow> bool" for F :: "'c fasthttp" where
  stay: "alone F p t (Inr (p, t))"
| panic: "page_turn F p t = Inl e \<Longrightarrow> alone F p t (Inl e)"
| go_on: "page_turn F p t = Inr (p', t') \<Longrightarrow> alone F p' t' r \<Longrightarrow> alone F p t r"

definition answered :: "('c ErrorPages \<times> 'c) go \<Rightarrow> ('c ErrorPages \<times> 'c page_request) go" where
  "answered r = map_sum id (\<lambda>(p, ctx). (p, Answered ctx)) r"

lemma answered_simps [simp]: "answered (Inr (p, ctx)) = Inr (p, Answered ctx)" "answered (Inl e) = Inl e"
  by (simp_all add: answered_def)

lemma alone_last: "page_turn F p t = answered r \<Longrightarrow> alone F p t (answered r)"
  by (cases r) (auto intro: go_on [OF _ stay] panic)

lemma sendError_alone: "alone F p (Sending ctx path) (answered (sendError F p ctx path))"
proof (cases "length path = 0 \<or> length path = 1 \<and> path ! 0 = CHR ''-'' \<or> page_fs p = None")
  case True
  then show ?thesis
    by (intro alone_last) (auto simp: sendError_def Let_def)
next
  case False
  then obtain f where f: "page_fs p = Some f" by auto
  let ?served = "f (req_SetRequestURI F path ctx)"
  let ?ctx = "resp_SetStatusCode F (resp_StatusCode F ctx) (req_SetRequestURI F (req_RequestURI F ctx) ?served)"
  show ?thesis
  proof (cases "resp_StatusCode F ?served = 200")
    case True
    with False f show ?thesis
      by (intro alone_last) (auto simp: sendError_def Let_def)
  next
    case fail: False
    have "page_turn F p (GivingUp ?ctx (resp_StatusCode F ctx) (resp_StatusCode F ?served) path) =
        answered (sendError F p ctx path)"
      using False fail f by (auto simp: sendError_def Let_def go_bind_def split: sum.split)
    moreover have "page_turn F p (Sending ctx path) =
        Inr (p, GivingUp ?ctx (resp_StatusCode F ctx) (resp_StatusCode F ?served) path)"
      using False fail f by (auto simp: Let_def)
    ultimately show ?thesis
      by (metis alone_last go_on)
  qed
qed

lemma handleStatus_alone: "alone F p (Looking ctx sb l) (answered (handleStatus F p ctx sb l))"
proof (induction F p ctx sb l rule: handleStatus.induct)
  case (1 F p ctx sb l)
  let ?sb = "if l < int (length sb) then sb[nat l := CHR ''x''] else sb"
  let ?page = "case map_of (statusToPath p) ?sb of None \<Rightarrow> [] | Some page \<Rightarrow> page"
  consider "l < 0" | "0 \<le> l" "?page \<noteq> []" | "0 \<le> l" "?page = []"
    by linarith
  then show ?case
  proof cases
    case 1
    then show ?thesis
      by (intro alone_last) (subst handleStatus.simps, auto simp: Let_def go_bind_def split: sum.split)
  next
    case 2
    then have big: "handleStatus F p ctx sb l =
        go_bind (store_path (resp_StatusCode F ctx) ?page p) (\<lambda>p. sendError F p ctx ?page)"
      by (subst handleStatus.simps) (simp only: Let_def, simp)
    have small: "page_turn F p (Looking ctx sb l) =
        go_bind (store_path (resp_StatusCode F ctx) ?page p) (\<lambda>p. Inr (p, Sending ctx ?page))"
      using 2 by (simp only: page_turn.simps Let_def) simp
    show ?thesis
    proof (cases "store_path (resp_StatusCode F ctx) ?page p")
      case (Inl e)
      then have "page_turn F p (Looking ctx sb l) = Inl e" "handleStatus F p ctx sb l = Inl e"
        by (simp_all only: big small go_bind_def sum.case)
      then show ?thesis by (simp add: alone.panic)
    next
      case (Inr q)
      then have "page_turn F p (Looking ctx sb l) = Inr (q, Sending ctx ?page)"
        "handleStatus F p ctx sb l = sendError F q ctx ?page"
        by (simp_all only: big small go_bind_def sum.case)
      then show ?thesis
        using go_on [OF _ sendError_alone] by metis
    qed
  next
    case 3
    then have "handleStatus F p ctx sb l = handleStatus F p ctx ?sb (l - 1)"
      by (subst handleStatus.simps) (simp only: Let_def, simp)
    moreover have "page_turn F p (Looking ctx sb l) = Inr (p, Looking ctx ?sb (l - 1))"
      using 3 by (simp only: page_turn.simps Let_def) simp
    moreover have "alone F p (Looking ctx ?sb (l - 1)) (answered (handleStatus F p ctx ?sb (l - 1)))"
      using 1 3 by (simp add: Let_def)
    ultimately show ?thesis
      by (simp only: alone.go_on)
  qed
qed

lemma Handle_alone: "alone F p (Arrived ctx) (answered (Handle F p ctx))"
proof (cases "in_range (resp_StatusCode F ctx) \<and> page_fs p \<noteq> None \<and>
    resp_StatusCode F ctx - 400 < int (length (errorPaths p))")
  case False
  then show ?thesis
    by (intro alone_last)
      (auto simp: Handle_def Let_def in_range_def errorPagesStatusOffset_def errorPagesStatusUntil_def)
next
  case True
  note in_cache = in_range_def Let_def errorPagesStatusOffset_def errorPagesStatusUntil_def
  show ?thesis
  proof (cases "errorPaths p ! nat (resp_StatusCode F ctx - 400)")
    case None
    obtain f where "page_fs p = Some f"
      using True by auto
    with None True have "page_turn F p (Arrived ctx) =
        Inr (p, Looking ctx (digits (resp_StatusCode F ctx)) (int (length (digits (resp_StatusCode F ctx)))))"
      "Handle F p ctx = handleStatus F p ctx (digits (resp_StatusCode F ctx)) (int (length (digits (resp_StatusCode F ctx))))"
      by (simp_all add: in_cache Handle_def del: handleStatus.simps)
    then show ?thesis using go_on [OF _ handleStatus_alone] by metis
  next
    case (Some path)
    obtain f where "page_fs p = Some f"
      using True by auto
    with Some True have "page_turn F p (Arrived ctx) = Inr (p, Sending ctx path)" "Handle F p ctx = sendError F p ctx path"
      by (simp_all add: in_cache Handle_def)
    then show ?thesis using go_on [OF _ sendError_alone] by metis
  qed
qed

section \<open>Every order of turns\<close>

text \<open>What is known of a request: the response it arrived with is unchanged until the file server has been asked.\<close>

definition looking_ok :: "'c ErrorPages \<Rightarrow> bytes \<Rightarrow> bytes \<Rightarrow> int \<Rightarrow> bool" where
  "looking_ok p status sb l \<longleftrightarrow>
     (if l < 0 then first_page p status (length status) = []
      else l \<le> int (length status) \<and> length sb = length status \<and>
        (if nat l < length sb then sb[nat l := CHR ''x''] else sb) = wild status (nat l) \<and>
        first_page p status (nat l) = first_page p status (length status))"

definition page_answer :: "'c fasthttp \<Rightarrow> 'c ErrorPages \<Rightarrow> 'c \<Rightarrow> 'c \<Rightarrow> bool" where
  "page_answer F p ctx c \<longleftrightarrow>
     (if \<not> in_range (resp_StatusCode F ctx) then c = ctx
      else case page_fs p of
             None \<Rightarrow> c = SendDefaultError F ctx
           | Some f \<Rightarrow> c = answer F f (page_for p (resp_StatusCode F ctx)) ctx \<or> c = answer F f ''-'' ctx)"

definition request_ok :: "'c fasthttp \<Rightarrow> 'c ErrorPages \<Rightarrow> 'c \<times> 'c page_request \<Rightarrow> bool" where
  "request_ok F p = (\<lambda>(ctx, t).
     let s = resp_StatusCode F ctx; active = in_range s \<and> page_fs p \<noteq> None
     in case t of
          Arrived c \<Rightarrow> c = ctx
        | Looking c sb l \<Rightarrow> c = ctx \<and> active \<and> looking_ok p (digits s) sb l
        | Sending c path \<Rightarrow> c = ctx \<and> active \<and> path \<in> {page_for p s, ''-''}
        | GivingUp c status statusFS path \<Rightarrow>
            active \<and> status = s \<and> path = page_for p s \<and> path \<noteq> [] \<and> path \<noteq> ''-'' \<and> statusFS \<noteq> 200 \<and>
            (\<exists>f. page_fs p = Some f \<and> statusFS = resp_StatusCode F (served F f path ctx) \<and>
              c = resp_SetStatusCode F s (req_SetRequestURI F (req_RequestURI F ctx) (served F f path ctx)))
        | Answered c \<Rightarrow> page_answer F p ctx c)"

lemma looking_ok_update [simp]: "looking_ok (p\<lparr>errorPaths := es\<rparr>) = looking_ok p"
  by (simp add: looking_ok_def fun_eq_iff)

lemma page_answer_update [simp]: "page_answer F (p\<lparr>errorPaths := es\<rparr>) = page_answer F p"
  by (auto simp: page_answer_def fun_eq_iff split: option.split)

lemma request_ok_update [simp]: "request_ok F (p\<lparr>errorPaths := es\<rparr>) = request_ok F p"
  by (simp add: request_ok_def Let_def cong: page_request.case_cong)

lemma page_turn_Looking:
  assumes "0 \<le> l" "(if nat l < length sb then sb[nat l := CHR ''x''] else sb) = w"
  shows "page_turn F p (Looking ctx sb l) =
    (if page_of p w \<noteq> []
     then go_bind (store_path (resp_StatusCode F ctx) (page_of p w) p) (\<lambda>p'. Inr (p', Sending ctx (page_of p w)))
     else Inr (p, Looking ctx w (l - 1)))"
proof -
  have "(l < int (length sb)) = (nat l < length sb)" "\<not> l < 0"
    using assms(1) by auto
  then show ?thesis
    unfolding page_of_def by (simp only: page_turn.simps Let_def assms(2) if_False)
qed

lemma looking_miss:
  assumes "looking_ok p s sb l" "0 \<le> l" "page_of p (wild s (nat l)) = []"
  shows "looking_ok p s (wild s (nat l)) (l - 1)"
proof (cases "nat l")
  case 0
  then show ?thesis
    using assms by (auto simp: looking_ok_def)
next
  case (Suc m)
  then have "l - 1 = int m" "m < length s"
    using assms by (auto simp: looking_ok_def)
  then show ?thesis
    using assms Suc by (auto simp: looking_ok_def wild_step)
qed

lemma looking_hit:
  assumes "looking_ok p s sb l" "0 \<le> l" "page_of p (wild s (nat l)) \<noteq> []"
  shows "page_of p (wild s (nat l)) = first_page p s (length s)"
  using assms by (cases "nat l") (auto simp: looking_ok_def)

lemma request_Looking:
  assumes "pages_wf p" "request_ok F p (ctx, Looking c sb l)"
  shows "\<exists>es t. page_turn F p (Looking c sb l) = Inr (p\<lparr>errorPaths := es\<rparr>, t) \<and>
    pages_wf (p\<lparr>errorPaths := es\<rparr>) \<and> request_ok F p (ctx, t)"
proof -
  let ?s = "resp_StatusCode F ctx"
  have ok: "c = ctx" "in_range ?s" "looking_ok p (digits ?s) sb l"
    using assms(2) by (simp_all add: request_ok_def Let_def)
  obtain f where f: "page_fs p = Some f"
    using assms(2) by (auto simp: request_ok_def Let_def)
  have store: "store_path ?s path p = Inr (p\<lparr>errorPaths := (errorPaths p)[nat (?s - 400) := Some path]\<rparr>)" for path
    using assms(1) f ok(2) by (simp add: store_path_ok pages_wf_def)
  have wf: "pages_wf (p\<lparr>errorPaths := (errorPaths p)[nat (?s - 400) := Some (page_for p ?s)]\<rparr>)"
    using pages_wf_settle [OF assms(1) f ok(2), of "page_for p ?s"] by simp
  have sb: "(if nat l < length sb then sb[nat l := CHR ''x''] else sb) = wild (digits ?s) (nat l)" if "0 \<le> l"
    using ok(3) that by (auto simp: looking_ok_def)
  consider "l < 0" | "0 \<le> l" "page_of p (wild (digits ?s) (nat l)) \<noteq> []"
    | "0 \<le> l" "page_of p (wild (digits ?s) (nat l)) = []"
    by linarith
  then show ?thesis
  proof cases
    case 1
    then have "page_for p ?s = []"
      using ok(3) by (simp add: looking_ok_def page_for_def)
    moreover have "page_turn F p (Looking c sb l) =
        Inr (p\<lparr>errorPaths := (errorPaths p)[nat (?s - 400) := Some []]\<rparr>, Answered (SendDefaultError F ctx))"
      using 1 by (simp add: ok(1) store)
    ultimately show ?thesis
      using wf ok(2) f by (auto simp: request_ok_def page_answer_def answer_def)
  next
    case 2
    have "page_turn F p (Looking c sb l) =
        Inr (p\<lparr>errorPaths := (errorPaths p)[nat (?s - 400) := Some (page_for p ?s)]\<rparr>, Sending ctx (page_for p ?s))"
      unfolding page_turn_Looking [OF 2(1) sb [OF 2(1)]] ok(1) looking_hit [OF ok(3) 2]
      using 2(2) looking_hit [OF ok(3) 2] by (simp add: store page_for_def)
    then show ?thesis
      using wf ok(2) f by (auto simp: request_ok_def)
  next
    case 3
    have "page_turn F p (Looking c sb l) = Inr (p, Looking ctx (wild (digits ?s) (nat l)) (l - 1))"
      unfolding page_turn_Looking [OF 3(1) sb [OF 3(1)]] ok(1) by (simp add: 3(2))
    moreover have "request_ok F p (ctx, Looking ctx (wild (digits ?s) (nat l)) (l - 1))"
      using looking_miss [OF ok(3) 3] ok(2) f by (simp add: request_ok_def)
    ultimately show ?thesis
      using assms(1) by (intro exI [of _ "errorPaths p"]) auto
  qed
qed

lemma request_turn:
  assumes "pages_wf p" "request_ok F p (ctx, t)"
  shows "\<exists>es t'. page_turn F p t = Inr (p\<lparr>errorPaths := es\<rparr>, t') \<and> pages_wf (p\<lparr>errorPaths := es\<rparr>) \<and> request_ok F p (ctx, t')"
proof -
  let ?s = "resp_StatusCode F ctx"
  have same: ?thesis if "page_turn F p t = Inr (p, t')" "request_ok F p (ctx, t')" for t'
    using that assms(1) by (intro exI [of _ "errorPaths p"]) auto
  show ?thesis
  proof (cases t)
    case (Arrived c)
    then have c: "c = ctx" using assms(2) by (simp add: request_ok_def)
    note cache = in_range_def Let_def errorPagesStatusOffset_def errorPagesStatusUntil_def
    show ?thesis
    proof (cases "in_range ?s \<and> page_fs p \<noteq> None")
      case False
      then show ?thesis
        by (intro same [of "Answered (if in_range ?s then SendDefaultError F ctx else ctx)"])
          (auto simp: Arrived c cache request_ok_def page_answer_def)
    next
      case True
      then obtain f where f: "page_fs p = Some f" "in_range ?s" by auto
      then have len: "length (errorPaths p) = 200"
        using assms(1) by (simp add: pages_wf_def)
      show ?thesis
      proof (cases "cached_path p ?s")
        case None
        then show ?thesis
          using f len by (intro same [of "Looking ctx (digits ?s) (int (length (digits ?s)))"])
            (auto simp: Arrived c cache cached_path_def request_ok_def looking_ok_def)
      next
        case (Some path)
        then have "path \<in> {page_for p ?s, ''-''}"
          using page_choice [OF assms(1) f] by simp
        then show ?thesis
          using f len Some by (intro same [of "Sending ctx path"])
            (auto simp: Arrived c cache cached_path_def request_ok_def)
      qed
    qed
  next
    case (Looking c sb l)
    show ?thesis
      using request_Looking [OF assms(1), of F ctx c sb l] assms(2) unfolding Looking by simp
  next
    case (Sending c path)
    then have c: "c = ctx" "in_range ?s" "path \<in> {page_for p ?s, ''-''}"
      using assms(2) by (simp_all add: request_ok_def Let_def)
    obtain f where f: "page_fs p = Some f"
      using assms(2) Sending by (auto simp: request_ok_def Let_def)
    let ?d = "resp_SetStatusCode F ?s (req_SetRequestURI F (req_RequestURI F ctx) (served F f path ctx))"
    show ?thesis
    proof (cases "path \<noteq> [] \<and> path \<noteq> ''-'' \<and> resp_StatusCode F (served F f path ctx) \<noteq> 200")
      case True
      then show ?thesis
        using c f dash_iff [of path] by (intro same [of "GivingUp ?d ?s (resp_StatusCode F (served F f path ctx)) path"])
          (auto simp: Sending served_def request_ok_def Let_def)
    next
      case False
      then show ?thesis
        using c f dash_iff [of path] by (intro same [of "Answered (answer F f path ctx)"])
          (auto simp: Sending served_def answer_def request_ok_def page_answer_def Let_def)
    qed
  next
    case (GivingUp c status statusFS path)
    obtain f where f: "page_fs p = Some f" "in_range ?s" "status = ?s" "path = page_for p ?s" "path \<noteq> []" "path \<noteq> ''-''"
      "statusFS \<noteq> 200" "statusFS = resp_StatusCode F (served F f path ctx)"
      "c = resp_SetStatusCode F ?s (req_SetRequestURI F (req_RequestURI F ctx) (served F f path ctx))"
      using assms(2) GivingUp by (auto simp: request_ok_def Let_def)
    then have "page_turn F p t =
        Inr (p\<lparr>errorPaths := (errorPaths p)[nat (?s - 400) := Some ''-'']\<rparr>, Answered (answer F f path ctx))"
      using assms(1) by (simp add: GivingUp store_path_ok pages_wf_def answer_def)
    moreover have "pages_wf (p\<lparr>errorPaths := (errorPaths p)[nat (?s - 400) := Some ''-'']\<rparr>)"
      using pages_wf_settle [OF assms(1) f(1,2), of "''-''"] by simp
    moreover have "request_ok F p (ctx, Answered (answer F f path ctx))"
      using f(1,2,4) by (simp add: request_ok_def page_answer_def)
    ultimately show ?thesis by blast
  next
    case (Answered c)
    then show ?thesis
      using assms by (intro same [of "Answered c"]) simp_all
  qed
qed

text \<open>A request needs no other request to get on, and at most eight turns of its own.\<close>

fun turns_left :: "'c fasthttp \<Rightarrow> 'c page_request \<Rightarrow> nat" where
  "turns_left F (Arrived ctx) = length (digits (resp_StatusCode F ctx)) + 5"
| "turns_left F (Looking ctx sb l) = nat (l + 1) + 3"
| "turns_left F (Sending ctx path) = 2"
| "turns_left F (GivingUp ctx status statusFS path) = 1"
| "turns_left F (Answered ctx) = 0"

lemma page_turn_progress:
  "page_turn F p t = Inr (p', t') \<Longrightarrow> turns_left F t \<noteq> 0 \<Longrightarrow> turns_left F t' < turns_left F t"
  by (cases t) (auto simp: Let_def go_bind_def split: if_splits sum.splits option.splits)

lemma turns_left_Answered: "turns_left F t = 0 \<longleftrightarrow> (\<exists>c. t = Answered c)"
  by (cases t) simp_all

section \<open>All requests\<close>

definition pages_inv :: "'c fasthttp \<Rightarrow> 'c ErrorPages \<Rightarrow> 'c pages_state \<Rightarrow> bool" where
  "pages_inv F p0 s \<longleftrightarrow> (case s of
     Serving p ts \<Rightarrow> (\<exists>es. p = p0\<lparr>errorPaths := es\<rparr>) \<and> pages_wf p \<and> (\<forall>r \<in> set ts. request_ok F p0 r)
   | PagesPanic e \<Rightarrow> False)"

lemma pages_inv_step: "pages_step F s t \<Longrightarrow> pages_inv F p0 s \<Longrightarrow> pages_inv F p0 t"
proof (induction rule: pages_step.induct)
  case (arrive p ts ctx)
  then show ?case
    by (auto simp: pages_inv_def) (simp add: request_ok_def)
next
  case (turn i ts ctx t p p' t')
  then obtain es where p: "p = p0\<lparr>errorPaths := es\<rparr>" "pages_wf p" "\<forall>r \<in> set ts. request_ok F p0 r"
    by (auto simp: pages_inv_def)
  have "(ctx, t) \<in> set ts"
    using turn(1,2) nth_mem by metis
  then have "request_ok F p (ctx, t)"
    using p(1,3) by simp
  from request_turn [OF p(2) this] obtain es' where "p' = p\<lparr>errorPaths := es'\<rparr>" "pages_wf p'" "request_ok F p (ctx, t')"
    using turn(3) by auto
  moreover have "set (ts[i := (ctx, t')]) \<subseteq> insert (ctx, t') (set ts)"
    by (rule set_update_subset_insert)
  ultimately show ?case
    using p by (auto simp: pages_inv_def)
next
  case (turn_panic i ts ctx t p e)
  then obtain es where p: "p = p0\<lparr>errorPaths := es\<rparr>" "pages_wf p" "\<forall>r \<in> set ts. request_ok F p0 r"
    by (auto simp: pages_inv_def)
  have "(ctx, t) \<in> set ts"
    using turn_panic(1,2) nth_mem by metis
  then have "request_ok F p (ctx, t)"
    using p(1,3) by simp
  from request_turn [OF p(2) this] turn_panic(3) show ?case by auto
qed

lemma pages_inv_reach: "pages_reach F s t \<Longrightarrow> pages_inv F p0 s \<Longrightarrow> pages_inv F p0 t"
  by (induction rule: pages_reach.induct) (auto dest: pages_inv_step)

lemma alone_reach:
  "alone F p t r \<Longrightarrow> r = Inr (p', t') \<Longrightarrow> i < length ts \<Longrightarrow> ts ! i = (ctx, t) \<Longrightarrow>
   pages_reach F (Serving p ts) (Serving p' (ts[i := (ctx, t')]))"
proof (induction arbitrary: ts rule: alone.induct)
  case (stay p t)
  then have "ts[i := (ctx, t')] = ts"
    by (metis Pair_inject list_update_id sum.inject(2))
  then show ?case
    using stay by (auto intro: here)
next
  case (go_on p t p1 t1 r)
  have "pages_step F (Serving p ts) (Serving p1 (ts[i := (ctx, t1)]))"
    by (rule turn [OF go_on(5,6,1)])
  moreover have "pages_reach F (Serving p1 (ts[i := (ctx, t1)])) (Serving p' ((ts[i := (ctx, t1)])[i := (ctx, t')]))"
    using go_on by (intro go_on.IH) simp_all
  ultimately show ?case
    by (auto intro: onward)
qed simp

lemma request_completes:
  assumes "pages_wf p" "request_ok F p (ctx, t)" "i < length ts" "ts ! i = (ctx, t)"
  shows "\<exists>p' c. pages_reach F (Serving p ts) (Serving p' (ts[i := (ctx, Answered c)]))"
proof -
  have "\<exists>p' c. alone F p t (Inr (p', Answered c))"
    using assms(1,2)
  proof (induction "turns_left F t" arbitrary: p t rule: less_induct)
    case less
    show ?case
    proof (cases "turns_left F t = 0")
      case True
      then show ?thesis
        by (auto simp: turns_left_Answered intro: stay)
    next
      case False
      obtain es t' where step: "page_turn F p t = Inr (p\<lparr>errorPaths := es\<rparr>, t')"
        "pages_wf (p\<lparr>errorPaths := es\<rparr>)" "request_ok F p (ctx, t')"
        using request_turn [OF less.prems] by blast
      with less.hyps [OF page_turn_progress [OF step(1) False] step(2)] show ?thesis
        by (auto intro: go_on)
    qed
  qed
  then show ?thesis
    using alone_reach [OF _ refl assms(3,4)] by blast
qed

section \<open>Properties\<close>

text \<open>C12. Error pages never change what the client is told, however requests overlap: with any number of responses that go
  through one freshly configured \<open>ErrorPages\<close> at the same time, in every interleaving of their accesses to the cache
  and whatever the file server answers, no call panics, every response keeps its status code, and every answer is the
  configured page's or the default error page; no request can keep another from being answered.\<close>

theorem overlapping_error_pages:
  assumes "fasthttp_ok F" "pages_reach F (Serving (NewErrorPages newFS root pages) []) s"
  shows "\<exists>p ts. s = Serving p ts \<and>
    (\<forall>(ctx, t) \<in> set ts. \<forall>c. t = Answered c \<longrightarrow>
       resp_StatusCode F c = resp_StatusCode F ctx \<and> page_answer F (NewErrorPages newFS root pages) ctx c) \<and>
    (\<forall>i < length ts. \<exists>p' c. pages_reach F s (Serving p' (ts[i := (fst (ts ! i), Answered c)])))"
proof -
  let ?p0 = "NewErrorPages newFS root pages"
  have "pages_inv F ?p0 (Serving ?p0 [])"
    by (auto simp: pages_inv_def NewErrorPages_wf intro: exI [of _ "errorPaths ?p0"])
  from pages_inv_reach [OF assms(2) this] obtain p ts es where
    s: "s = Serving p ts" "p = ?p0\<lparr>errorPaths := es\<rparr>" "pages_wf p" "\<forall>r \<in> set ts. request_ok F ?p0 r"
    by (auto simp: pages_inv_def split: pages_state.splits)
  have "resp_StatusCode F c = resp_StatusCode F ctx" if "page_answer F ?p0 ctx c" for ctx c
    using that assms(1) by (auto simp: page_answer_def answer_status split: if_splits option.splits)
  moreover have "\<exists>p' c. pages_reach F s (Serving p' (ts[i := (fst (ts ! i), Answered c)]))" if "i < length ts" for i
    using request_completes [OF s(3) _ that, of F "fst (ts ! i)" "snd (ts ! i)"] s(1,2,4) that by simp
  ultimately show ?thesis
    using s(1,4) by (fastforce simp: request_ok_def)
qed

theorem overlapping_error_pages_witness:
  "\<exists>p c. pages_reach ref_fasthttp (Serving (NewErrorPages ref_fs ''www'' [(''40x'', ''/err/4.html'')]) [])
       (Serving p [(ref_response 404, Answered c)]) \<and>
     resp_StatusCode ref_fasthttp c = 404 \<and> page_answer ref_fasthttp ref_pages (ref_response 404) c"
proof -
  let ?c = "ref_response 404"
  obtain p c where h: "Handle ref_fasthttp ref_pages ?c = Inr (p, c)"
    using Handle_total [OF ref_fasthttp_ok ref_pages_facts(6)] by blast
  have "pages_reach ref_fasthttp (Serving ref_pages [(?c, Arrived ?c)]) (Serving p ([(?c, Arrived ?c)][0 := (?c, Answered c)]))"
    by (rule alone_reach [OF Handle_alone]) (simp_all add: h)
  then have "pages_reach ref_fasthttp (Serving ref_pages []) (Serving p [(?c, Answered c)])"
    using onward [OF arrive [of ref_fasthttp ref_pages "[]" ?c]] by simp
  moreover have "resp_StatusCode ref_fasthttp ?c = 404"
    by (simp add: ref_defs ref_response_def)
  ultimately show ?thesis
    using overlapping_error_pages [OF ref_fasthttp_ok, of ref_fs "''www''" "[(''40x'', ''/err/4.html'')]" "Serving p [(?c, Answered c)]"]
    by (fastforce simp: ref_pages_def)
qed

text \<open>
  What giving up means when requests overlap: a request that looked for its page before another one gave the page up
  stores the page again, and later requests are sent it again (until the next failure).
\<close>

lemma looking_finds:
  assumes "looking_ok p (digits s) sb l" "page_for p s \<noteq> []"
  shows "\<exists>sb' l'. alone F p (Looking ctx sb l) (Inr (p, Looking ctx sb' l')) \<and>
    (\<forall>es. page_turn F (p\<lparr>errorPaths := es\<rparr>) (Looking ctx sb' l') =
      go_bind (store_path (resp_StatusCode F ctx) (page_for p s) (p\<lparr>errorPaths := es\<rparr>))
        (\<lambda>p'. Inr (p', Sending ctx (page_for p s))))"
  using assms(1)
proof (induction "nat (l + 1)" arbitrary: sb l)
  case 0
  then show ?case
    using assms(2) by (simp add: looking_ok_def page_for_def)
next
  case (Suc n)
  then have l: "0 \<le> l" "n = nat ((l - 1) + 1)" by simp_all
  have sb: "(if nat l < length sb then sb[nat l := CHR ''x''] else sb) = wild (digits s) (nat l)"
    using Suc.prems l(1) by (auto simp: looking_ok_def)
  note turn = page_turn_Looking [OF l(1) sb, of F _ ctx]
  show ?case
  proof (cases "page_of p (wild (digits s) (nat l)) = []")
    case True
    with turn [of p] have "page_turn F p (Looking ctx sb l) = Inr (p, Looking ctx (wild (digits s) (nat l)) (l - 1))"
      by simp
    with Suc.hyps(1) [OF l(2) looking_miss [OF Suc.prems l(1) True]] show ?thesis
      by (metis go_on)
  next
    case False
    then have "page_turn F (p\<lparr>errorPaths := es\<rparr>) (Looking ctx sb l) =
        go_bind (store_path (resp_StatusCode F ctx) (page_for p s) (p\<lparr>errorPaths := es\<rparr>))
          (\<lambda>p'. Inr (p', Sending ctx (page_for p s)))" for es
      using turn [of "p\<lparr>errorPaths := es\<rparr>"] by (simp only: looking_hit [OF Suc.prems l(1) False] page_for_def page_of_update) simp
    then show ?thesis
      using stay by metis
  qed
qed

lemma given_up_page_returns:
  assumes "pages_wf p" "page_fs p = Some f" "in_range s" "cached_path p s = None" "page_for p s \<notin> {[], ''-''}"
    and "resp_StatusCode F c1 = s" "resp_StatusCode F (served F f (page_for p s) c1) \<noteq> 200"
    and "resp_StatusCode F c2 = s" "resp_StatusCode F (served F f (page_for p s) c2) = 200"
  defines "done1 \<equiv> (c1, Answered (answer F f (page_for p s) c1))" and "done2 \<equiv> (c2, Answered (answer F f (page_for p s) c2))"
  shows "\<exists>p1 t p2. pages_reach F (Serving p []) (Serving p1 [done1, (c2, t)]) \<and> cached_path p1 s = Some ''-'' \<and>
    pages_reach F (Serving p1 [done1, (c2, t)]) (Serving p2 [done1, done2]) \<and> cached_path p2 s = Some (page_for p s)"
proof -
  have len: "length (errorPaths p) = 200"
    using assms(1,2) by (simp add: pages_wf_def)
  let ?p1 = "p\<lparr>errorPaths := (errorPaths p)[nat (s - 400) := Some ''-'']\<rparr>"
  let ?p2 = "?p1\<lparr>errorPaths := (errorPaths ?p1)[nat (s - 400) := Some (page_for p s)]\<rparr>"
  have arrived: "page_turn F p (Arrived c2) = Inr (p, Looking c2 (digits s) (int (length (digits s))))"
    using assms(2-4,8) len
    by (simp add: Let_def in_range_def cached_path_def errorPagesStatusOffset_def errorPagesStatusUntil_def)
  have "looking_ok p (digits s) (digits s) (int (length (digits s)))"
    by (simp add: looking_ok_def)
  from looking_finds [OF this] assms(5) obtain sb l where look:
    "alone F p (Looking c2 (digits s) (int (length (digits s)))) (Inr (p, Looking c2 sb l))"
    "\<And>es. page_turn F (p\<lparr>errorPaths := es\<rparr>) (Looking c2 sb l) = go_bind (store_path s (page_for p s) (p\<lparr>errorPaths := es\<rparr>))
       (\<lambda>p'. Inr (p', Sending c2 (page_for p s)))"
    using assms(8) by (metis insert_iff)
  have both: "pages_reach F (Serving p []) (Serving p [(c1, Arrived c1), (c2, Arrived c2)])"
    using onward [OF arrive onward [OF arrive here], of F p "[]" c1 c2] by simp
  have "pages_reach F (Serving p [(c1, Arrived c1), (c2, Arrived c2)]) (Serving p [(c1, Arrived c1), (c2, Looking c2 sb l)])"
    using alone_reach [OF go_on [OF arrived look(1)] refl, of 1 "[(c1, Arrived c1), (c2, Arrived c2)]" c2] by simp
  moreover have "alone F p (Arrived c1) (Inr (?p1, Answered (answer F f (page_for p s) c1)))"
    using Handle_alone [of F p c1] Handle_ok [OF assms(1-3,6)] assms(4,5,7) by (simp add: settled_def)
  from alone_reach [OF this refl, of 0 "[(c1, Arrived c1), (c2, Looking c2 sb l)]" c1]
  have "pages_reach F (Serving p [(c1, Arrived c1), (c2, Looking c2 sb l)]) (Serving ?p1 [done1, (c2, Looking c2 sb l)])"
    by (simp add: done1_def)
  ultimately have first: "pages_reach F (Serving p []) (Serving ?p1 [done1, (c2, Looking c2 sb l)])"
    using both by (blast intro: pages_reach_trans)
  have "page_turn F ?p2 (Sending c2 (page_for p s)) = Inr (?p2, Answered (answer F f (page_for p s) c2))"
    using assms(2,5,8,9) dash_iff [of "page_for p s"] by (auto simp: answer_def served_def Let_def)
  moreover have "page_turn F ?p1 (Looking c2 sb l) = Inr (?p2, Sending c2 (page_for p s))"
    unfolding look(2) using len by (simp add: store_path_ok [OF assms(3)])
  ultimately have "alone F ?p1 (Looking c2 sb l) (Inr (?p2, Answered (answer F f (page_for p s) c2)))"
    by (blast intro: alone.go_on alone.stay)
  from alone_reach [OF this refl, of 1 "[done1, (c2, Looking c2 sb l)]" c2]
  have "pages_reach F (Serving ?p1 [done1, (c2, Looking c2 sb l)]) (Serving ?p2 [done1, done2])"
    by (simp add: done2_def)
  moreover have "cached_path ?p1 s = Some ''-''" "cached_path ?p2 s = Some (page_for p s)"
    using cached_path_store [OF assms(3,3)] len by simp_all
  ultimately show ?thesis
    using first by blast
qed

end
