(* ===== verification/Base64.thy ===== *)
theory Base64
  imports GoPrelude
begin

text \<open>
  The standard base64 encoding of Go's \<open>encoding/base64\<close> (with padding), which the basic-auth filter
  uses to precompute what a client sends, and its injectivity.
\<close>

section \<open>Encoding\<close>

definition base64_alphabet :: bytes where
  "base64_alphabet = ''ABCDEFGHIJKLMNOPQRSTUVWXYZabcdefghijklmnopqrstuvwxyz0123456789+/''"

definition b64 :: "nat \<Rightarrow> char" where
  "b64 n = base64_alphabet ! (n mod 64)"

fun base64_encode :: "bytes \<Rightarrow> bytes" where
  "base64_encode [] = []"
| "base64_encode [a] =
     [b64 (of_char a div 4), b64 (of_char a mod 4 * 16), CHR ''='', CHR ''='']"
| "base64_encode [a, b] =
     [b64 (of_char a div 4), b64 (of_char a mod 4 * 16 + of_char b div 16),
      b64 (of_char b mod 16 * 4), CHR ''='']"
| "base64_encode (a # b # c # rest) =
     [b64 (of_char a div 4), b64 (of_char a mod 4 * 16 + of_char b div 16),
      b64 (of_char b mod 16 * 4 + of_char c div 64), b64 (of_char c mod 64)] @ base64_encode rest"

text \<open>\<open>EncodedLen\<close> is the length of the encoding.\<close>

definition EncodedLen :: "nat \<Rightarrow> nat" where
  "EncodedLen n = (n + 2) div 3 * 4"

lemma length_base64_encode: "length (base64_encode bs) = EncodedLen (length bs)"
proof (induction bs rule: base64_encode.induct)
  case (4 a b c rest)
  have "(n + 3 + 2) div 3 = (n + 2) div 3 + 1" for n :: nat
    by presburger
  with 4 show ?case
    by (simp add: EncodedLen_def)
qed (simp_all add: EncodedLen_def)

section \<open>Injectivity\<close>

lemma alphabet: "length base64_alphabet = 64" "distinct base64_alphabet" "CHR ''='' \<notin> set base64_alphabet"
  by code_simp+

lemma b64_inject: "m < 64 \<Longrightarrow> n < 64 \<Longrightarrow> b64 m = b64 n \<longleftrightarrow> m = n"
  by (simp add: b64_def alphabet nth_eq_iff_index_eq)

lemma b64_not_pad: "b64 n \<noteq> CHR ''=''" "CHR ''='' \<noteq> b64 n"
proof -
  have "b64 n \<in> set base64_alphabet"
    by (simp add: b64_def alphabet(1))
  with alphabet(3) show "b64 n \<noteq> CHR ''=''" "CHR ''='' \<noteq> b64 n"
    by (metis)+
qed

lemma of_char_less: "(of_char c :: nat) < 256"
  by simp

lemma b64_hi: "b64 ((of_char a :: nat) div 4) = b64 (of_char a' div 4) \<longleftrightarrow> (of_char a :: nat) div 4 = of_char a' div 4"
  using of_char_less [of a] of_char_less [of a'] by (intro b64_inject) linarith+

text \<open>Two digits in base \<open>q\<close>.\<close>

lemma two_digits:
  fixes x :: nat
  assumes "x < q" "x' < q"
  shows "h * q + x = h' * q + x' \<longleftrightarrow> h = h' \<and> x = x'"
proof
  assume e: "h * q + x = h' * q + x'"
  then have "(h * q + x) mod q = (h' * q + x') mod q" "(h * q + x) div q = (h' * q + x') div q"
    by simp_all
  then show "h = h' \<and> x = x'"
    using assms by simp
qed simp

lemma two_digits_less:
  fixes x :: nat
  assumes "x < q" "h < p"
  shows "h * q + x < p * q"
proof -
  have "h * q + x < Suc h * q" using assms(1) by simp
  also have "\<dots> \<le> p * q" using assms(2) by (intro mult_le_mono1) simp
  finally show ?thesis .
qed

lemma b64_two:
  assumes "x < q" "x' < q" "h < p" "h' < p" "p * q = 64"
  shows "b64 (h * q + x) = b64 (h' * q + x') \<longleftrightarrow> h = h' \<and> x = x'"
  using two_digits_less [of x q h p] two_digits_less [of x' q h' p] assms
  by (simp add: b64_inject two_digits)

lemma b64_mid:
  "b64 ((of_char a :: nat) mod 4 * 16 + of_char b div 16) = b64 (of_char a' mod 4 * 16 + of_char b' div 16) \<longleftrightarrow>
   (of_char a :: nat) mod 4 = of_char a' mod 4 \<and> (of_char b :: nat) div 16 = of_char b' div 16"
  by (rule b64_two [where p = 4]) (simp_all add: less_mult_imp_div_less)

lemma b64_low:
  "b64 ((of_char b :: nat) mod 16 * 4 + of_char c div 64) = b64 (of_char b' mod 16 * 4 + of_char c' div 64) \<longleftrightarrow>
   (of_char b :: nat) mod 16 = of_char b' mod 16 \<and> (of_char c :: nat) div 64 = of_char c' div 64"
  by (rule b64_two [where p = 16]) (simp_all add: less_mult_imp_div_less)

lemma b64_mod:
  "b64 ((of_char c :: nat) mod 64) = b64 (of_char c' mod 64) \<longleftrightarrow> (of_char c :: nat) mod 64 = of_char c' mod 64"
  "b64 ((of_char c :: nat) mod 16 * 4) = b64 (of_char c' mod 16 * 4) \<longleftrightarrow> (of_char c :: nat) mod 16 = of_char c' mod 16"
  "b64 ((of_char c :: nat) mod 4 * 16) = b64 (of_char c' mod 4 * 16) \<longleftrightarrow> (of_char c :: nat) mod 4 = of_char c' mod 4"
  by (subst b64_inject; simp)+

lemma char_split:
  "(of_char a :: nat) div m = of_char a' div m \<Longrightarrow> (of_char a :: nat) mod m = of_char a' mod m \<Longrightarrow> a = a'"
  by (metis div_mod_decomp of_char_eq_iff)

lemmas b64_simps = b64_hi b64_mid b64_low b64_mod b64_not_pad

lemma base64_encode_inject: "base64_encode xs = base64_encode ys \<longleftrightarrow> xs = ys"
proof
  show "xs = ys" if "base64_encode xs = base64_encode ys"
    using that
  proof (induction xs arbitrary: ys rule: base64_encode.induct)
    case 1
    then show ?case by (cases ys rule: base64_encode.cases) simp_all
  next
    case (2 a)
    then show ?case
      by (cases ys rule: base64_encode.cases) (auto simp: b64_simps intro: char_split)
  next
    case (3 a b)
    then show ?case
      by (cases ys rule: base64_encode.cases) (auto simp: b64_simps intro: char_split)
  next
    case (4 a b c rest)
    show ?case
    proof (cases ys rule: base64_encode.cases)
      case (4 a' b' c' rest')
      then have "a = a'" "b = b'" "c = c'" "base64_encode rest = base64_encode rest'"
        using "4.prems" by (auto simp: b64_simps intro: char_split)
      with "4.IH" 4 show ?thesis by simp
    qed (use "4.prems" in \<open>simp_all add: b64_simps\<close>)
  qed
qed simp

end
