(* ===== verification/Filters.thy ===== *)
theory Filters
  imports CtxApi ConfigTree Base64
begin

text \<open>
  The filters of \<open>pkg/filter\<close>: the interface \<open>Filter\<close> and its registry (\<open>filter.go\<close>), the basic-auth
  filter (\<open>basicauth.go\<close>) and the header filter (\<open>header.go\<close>). A filter is the record of its two
  methods; what the server relies on is the locale \<open>request_filter\<close>, interpreted here on both filters.
\<close>

section \<open>filter.go\<close>

record 'c filter_if =
  f_Request :: "'c \<Rightarrow> (bool \<times> 'c) go"
  f_Response :: "'c \<Rightarrow> (bool \<times> 'c) go"

type_synonym ('n, 'c) NewFilterFunc = "'n \<Rightarrow> string + 'c filter_if"
type_synonym ('n, 'c) filter_registry = "string \<Rightarrow> ('n, 'c) NewFilterFunc option"

definition RegisterNewFilterFunc :: "string \<Rightarrow> ('n, 'c) NewFilterFunc \<Rightarrow> ('n, 'c) filter_registry \<Rightarrow>
    ('n, 'c) filter_registry" where
  "RegisterNewFilterFunc filterType fn reg = reg(filterType \<mapsto> fn)"

definition NewFilter :: "'n tree_api \<Rightarrow> ('n, 'c) filter_registry \<Rightarrow> 'n \<Rightarrow> string + 'c filter_if" where
  "NewFilter T reg cfg =
     (let t = tn_String T (tn_Get T ''type'' cfg)
      in case reg t of Some fn \<Rightarrow> fn cfg | None \<Rightarrow> Inl (''unknown filter type: '' @ t))"

text \<open>\<open>FilterDelegator\<close>: nil functions let everything pass.\<close>

record 'c FilterDelegator =
  RequestFunc :: "('c \<Rightarrow> (bool \<times> 'c) go) option"
  ResponseFunc :: "('c \<Rightarrow> (bool \<times> 'c) go) option"

definition FilterDelegator_Request :: "'c FilterDelegator \<Rightarrow> 'c \<Rightarrow> (bool \<times> 'c) go" where
  "FilterDelegator_Request d ctx = (case RequestFunc d of Some f \<Rightarrow> f ctx | None \<Rightarrow> Inr (True, ctx))"

definition FilterDelegator_Response :: "'c FilterDelegator \<Rightarrow> 'c \<Rightarrow> (bool \<times> 'c) go" where
  "FilterDelegator_Response d ctx = (case ResponseFunc d of Some f \<Rightarrow> f ctx | None \<Rightarrow> Inr (True, ctx))"

section \<open>basicauth.go\<close>

definition DefaultRealm :: string where
  "DefaultRealm = ''Restricted''"

record BasicAuthUser =
  Name :: string
  Secret :: string
  auth :: bytes

record BasicAuthFilter =
  Realm :: string
  Users :: "BasicAuthUser list"
  UsersFile :: string

text \<open>The loop that precomputes the credentials and forgets the plain secrets.\<close>

definition init_user :: "BasicAuthUser \<Rightarrow> BasicAuthUser" where
  "init_user u = u\<lparr>auth := base64_encode (Name u @ '':'' @ Secret u), Secret := []\<rparr>"

text \<open>\<open>readFile\<close> is \<open>os.ReadFile\<close>, \<open>yaml_users\<close> decodes a users file.\<close>

definition BasicAuthFilter_init ::
    "(string \<Rightarrow> string + bytes) \<Rightarrow> (bytes \<Rightarrow> string + BasicAuthUser list) \<Rightarrow> BasicAuthFilter \<Rightarrow>
     string + BasicAuthFilter" where
  "BasicAuthFilter_init readFile yaml_users f =
     (let users = (if UsersFile f \<noteq> [] then
                     (case readFile (UsersFile f) of Inl err \<Rightarrow> Inl err
                      | Inr bin \<Rightarrow> (case yaml_users bin of Inl err \<Rightarrow> Inl err
                                   | Inr us \<Rightarrow> Inr (Users f @ us)))
                   else Inr (Users f))
      in case users of Inl err \<Rightarrow> Inl err
         | Inr us \<Rightarrow> Inr (f\<lparr>Users := map init_user us\<rparr>))"

definition unauthorized :: "'c fasthttp \<Rightarrow> BasicAuthFilter \<Rightarrow> 'c \<Rightarrow> 'c" where
  "unauthorized F f ctx =
     resp_SetKV F ''WWW-Authenticate'' (''Basic realm='' @ Realm f) (resp_SetStatusCode F 401 ctx)"

definition basicPrefix :: bytes where
  "basicPrefix = ''Basic ''"

fun find_user :: "BasicAuthUser list \<Rightarrow> bytes \<Rightarrow> BasicAuthUser option" where
  "find_user [] a = None"
| "find_user (u # us) a = (if a = auth u then Some u else find_user us a)"

definition BasicAuthFilter_Request :: "'c fasthttp \<Rightarrow> BasicAuthFilter \<Rightarrow> 'c \<Rightarrow> (bool \<times> 'c) go" where
  "BasicAuthFilter_Request F f ctx =
     (let header = req_Peek F ''Authorization'' ctx
      in if length header = 0 then Inr (False, unauthorized F f ctx)
         else if \<not> HasPrefix header basicPrefix
         then Inr (False, ctx_Error F ''Unknown authorization'' 400 ctx)
         else case find_user (Users f) (drop (length basicPrefix) header) of
                Some u \<Rightarrow> Inr (True, uri_SetUsername F (Name u) ctx)
              | None \<Rightarrow> Inr (False, unauthorized F f ctx))"

definition BasicAuthFilter_Response :: "BasicAuthFilter \<Rightarrow> 'c \<Rightarrow> (bool \<times> 'c) go" where
  "BasicAuthFilter_Response f ctx = Inr (True, ctx)"

definition BasicAuthFilter_filter :: "'c fasthttp \<Rightarrow> BasicAuthFilter \<Rightarrow> 'c filter_if" where
  "BasicAuthFilter_filter F f =
     \<lparr>f_Request = BasicAuthFilter_Request F f, f_Response = BasicAuthFilter_Response f\<rparr>"

text \<open>\<open>unmarshal\<close> is \<open>tree.UnmarshalViaYAML(cfg, f)\<close>.\<close>

definition NewBasicAuthFilter ::
    "'c fasthttp \<Rightarrow> ('n \<Rightarrow> BasicAuthFilter \<Rightarrow> string + BasicAuthFilter) \<Rightarrow> (string \<Rightarrow> string + bytes) \<Rightarrow>
     (bytes \<Rightarrow> string + BasicAuthUser list) \<Rightarrow> 'n \<Rightarrow> string + 'c filter_if" where
  "NewBasicAuthFilter F unmarshal readFile yaml_users cfg =
     (case unmarshal cfg \<lparr>Realm = DefaultRealm, Users = [], UsersFile = []\<rparr> of
        Inl err \<Rightarrow> Inl err
      | Inr f \<Rightarrow> (case BasicAuthFilter_init readFile yaml_users f of
                   Inl err \<Rightarrow> Inl err
                 | Inr f \<Rightarrow> Inr (BasicAuthFilter_filter F f)))"

section \<open>header.go\<close>

record headerFilter =
  setKeys :: "bytes list"
  setValues :: "bytes list"
  addKeys :: "bytes list"
  addValues :: "bytes list"
  delKeys :: "bytes list"

definition newHeaderHandler :: "'n tree_api \<Rightarrow> 'n \<Rightarrow> headerFilter" where
  "newHeaderHandler T cfg =
     \<lparr>setKeys = map fst (tn_Map T (tn_Get T ''set'' cfg)),
      setValues = map (\<lambda>(k, v). tn_String T v) (tn_Map T (tn_Get T ''set'' cfg)),
      addKeys = map fst (tn_Map T (tn_Get T ''add'' cfg)),
      addValues = map (\<lambda>(k, v). tn_String T v) (tn_Map T (tn_Get T ''add'' cfg)),
      delKeys = map (tn_String T) (tn_Array T (tn_Get T ''del'' cfg))\<rparr>"

text \<open>The interface \<open>fasthttpHeader\<close>: the three methods a header offers.\<close>

record 'c fasthttpHeader =
  SetBytesKV :: "bytes \<Rightarrow> bytes \<Rightarrow> 'c \<Rightarrow> 'c"
  AddBytesKV :: "bytes \<Rightarrow> bytes \<Rightarrow> 'c \<Rightarrow> 'c"
  DelBytes :: "bytes \<Rightarrow> 'c \<Rightarrow> 'c"

text \<open>\<open>for i, k := range keys { op(k, values[i]) }\<close>.\<close>

fun header_kv_loop :: "(bytes \<Rightarrow> bytes \<Rightarrow> 'c \<Rightarrow> 'c) \<Rightarrow> bytes list \<Rightarrow> bytes list \<Rightarrow> 'c \<Rightarrow> 'c go" where
  "header_kv_loop op [] vs ctx = Inr ctx"
| "header_kv_loop op (k # ks) [] ctx = Inl IndexOutOfRange"
| "header_kv_loop op (k # ks) (v # vs) ctx = header_kv_loop op ks vs (op k v ctx)"

definition headerFilter_filter :: "headerFilter \<Rightarrow> 'c fasthttpHeader \<Rightarrow> 'c \<Rightarrow> 'c go" where
  "headerFilter_filter h fh ctx =
     go_bind (header_kv_loop (SetBytesKV fh) (setKeys h) (setValues h) ctx) (\<lambda>ctx.
     go_bind (header_kv_loop (AddBytesKV fh) (addKeys h) (addValues h) ctx) (\<lambda>ctx.
     Inr (fold (DelBytes fh) (delKeys h) ctx)))"

record HeaderFilter =
  hf_request :: headerFilter
  hf_response :: headerFilter

definition request_header :: "'c fasthttp \<Rightarrow> 'c fasthttpHeader" where
  "request_header F = \<lparr>SetBytesKV = req_SetKV F, AddBytesKV = req_AddKV F, DelBytes = req_Del F\<rparr>"

definition response_header :: "'c fasthttp \<Rightarrow> 'c fasthttpHeader" where
  "response_header F = \<lparr>SetBytesKV = resp_SetKV F, AddBytesKV = resp_AddKV F, DelBytes = resp_Del F\<rparr>"

definition HeaderFilter_Request :: "'c fasthttp \<Rightarrow> HeaderFilter \<Rightarrow> 'c \<Rightarrow> (bool \<times> 'c) go" where
  "HeaderFilter_Request F f ctx =
     go_bind (headerFilter_filter (hf_request f) (request_header F) ctx) (\<lambda>ctx. Inr (True, ctx))"

definition HeaderFilter_Response :: "'c fasthttp \<Rightarrow> HeaderFilter \<Rightarrow> 'c \<Rightarrow> (bool \<times> 'c) go" where
  "HeaderFilter_Response F f ctx =
     go_bind (headerFilter_filter (hf_response f) (response_header F) ctx) (\<lambda>ctx. Inr (True, ctx))"

definition HeaderFilter_filter :: "'c fasthttp \<Rightarrow> HeaderFilter \<Rightarrow> 'c filter_if" where
  "HeaderFilter_filter F f = \<lparr>f_Request = HeaderFilter_Request F f, f_Response = HeaderFilter_Response F f\<rparr>"

definition NewHeaderFilter :: "'c fasthttp \<Rightarrow> 'n tree_api \<Rightarrow> 'n \<Rightarrow> string + 'c filter_if" where
  "NewHeaderFilter F T cfg =
     (let f = \<lparr>hf_request = newHeaderHandler T (tn_Get T ''request'' cfg),
               hf_response = newHeaderHandler T (tn_Get T ''response'' cfg)\<rparr>
      in Inr (HeaderFilter_filter F f))"

section \<open>Basic auth\<close>

lemma init_user_simps [simp]:
  "Name (init_user u) = Name u" "Secret (init_user u) = []"
  "auth (init_user u) = base64_encode (Name u @ '':'' @ Secret u)"
  by (simp_all add: init_user_def)

lemma find_user_init:
  "find_user (map init_user us) (base64_encode cred) =
     map_option init_user (find (\<lambda>u. Name u @ '':'' @ Secret u = cred) us)"
  by (induction us) (auto simp: base64_encode_inject)

lemma find_user_Some: "find_user us a = Some u \<Longrightarrow> u \<in> set us \<and> auth u = a"
  by (induction us) (auto split: if_splits)

section \<open>Headers\<close>

lemma header_kv_loop_fold:
  "length ks = length vs \<Longrightarrow> header_kv_loop op ks vs c = Inr (fold (\<lambda>(k, v). op k v) (zip ks vs) c)"
  by (induction ks vs arbitrary: c rule: list_induct2) simp_all

lemma newHeaderHandler_lengths [simp]:
  "length (setKeys (newHeaderHandler T cfg)) = length (setValues (newHeaderHandler T cfg))"
  "length (addKeys (newHeaderHandler T cfg)) = length (addValues (newHeaderHandler T cfg))"
  by (simp_all add: newHeaderHandler_def)

lemma headerFilter_filter_new:
  "headerFilter_filter (newHeaderHandler T cfg) fh c =
     (let h = newHeaderHandler T cfg
      in Inr (fold (DelBytes fh) (delKeys h)
           (fold (\<lambda>(k, v). AddBytesKV fh k v) (zip (addKeys h) (addValues h))
             (fold (\<lambda>(k, v). SetBytesKV fh k v) (zip (setKeys h) (setValues h)) c))))"
  by (simp add: headerFilter_filter_def header_kv_loop_fold Let_def)

text \<open>
  Documented behaviour of a header: \<open>vals k c\<close> lists the values under a key, keys are compared after
  normalisation, and the special headers fasthttp keeps in fields of their own are not \<open>ordinary\<close>.
\<close>

definition header_laws :: "(bytes \<Rightarrow> bytes) \<Rightarrow> (bytes \<Rightarrow> bool) \<Rightarrow> (bytes \<Rightarrow> 'c \<Rightarrow> bytes list) \<Rightarrow>
    'c fasthttpHeader \<Rightarrow> bool" where
  "header_laws norm ordinary vals fh \<longleftrightarrow>
     (\<forall>k v j c. ordinary k \<longrightarrow> vals j (SetBytesKV fh k v c) = (if norm j = norm k then [v] else vals j c)) \<and>
     (\<forall>k v j c. ordinary k \<longrightarrow> vals j (AddBytesKV fh k v c) = (if norm j = norm k then vals j c @ [v] else vals j c)) \<and>
     (\<forall>k j c. ordinary k \<longrightarrow> vals j (DelBytes fh k c) = (if norm j = norm k then [] else vals j c))"

lemma vals_fold_set:
  assumes "header_laws norm ordinary vals fh" "\<forall>k \<in> fst ` set kvs. ordinary k"
  shows "vals j (fold (\<lambda>(k, v). SetBytesKV fh k v) kvs c) =
    (case find (\<lambda>(k, v). norm k = norm j) (rev kvs) of None \<Rightarrow> vals j c | Some (k, v) \<Rightarrow> [v])"
  using assms(2)
proof (induction kvs rule: rev_induct)
  case (snoc x kvs)
  then show ?case
    using assms(1) by (cases x) (auto simp: header_laws_def)
qed simp

lemma vals_fold_add:
  assumes "header_laws norm ordinary vals fh" "\<forall>k \<in> fst ` set kvs. ordinary k"
  shows "vals j (fold (\<lambda>(k, v). AddBytesKV fh k v) kvs c) =
    vals j c @ map snd (filter (\<lambda>(k, v). norm k = norm j) kvs)"
  using assms(2)
proof (induction kvs rule: rev_induct)
  case (snoc x kvs)
  then show ?case
    using assms(1) by (cases x) (auto simp: header_laws_def)
qed simp

lemma vals_fold_del:
  assumes "header_laws norm ordinary vals fh" "\<forall>k \<in> set ks. ordinary k"
  shows "vals j (fold (DelBytes fh) ks c) = (if norm j \<in> norm ` set ks then [] else vals j c)"
  using assms(2)
proof (induction ks rule: rev_induct)
  case (snoc k ks)
  then show ?case
    using assms(1) by (auto simp: header_laws_def)
qed simp

section \<open>The interface\<close>

text \<open>
  What the server may assume of a filter: both methods return; a rejecting \<open>Request\<close> leaves an error
  status; a passing one, and \<open>Response\<close>, leave status and body alone.
\<close>

locale request_filter =
  fixes F :: "'c fasthttp" and fi :: "'c filter_if"
  assumes request_returns: "\<exists>b c'. f_Request fi c = Inr (b, c')"
    and response_returns: "\<exists>b c'. f_Response fi c = Inr (b, c')"
    and request_rejects: "fasthttp_ok F \<Longrightarrow> f_Request fi c = Inr (False, c') \<Longrightarrow>
      400 \<le> resp_StatusCode F c' \<and> resp_StatusCode F c' < 600"
    and request_passes: "fasthttp_ok F \<Longrightarrow> f_Request fi c = Inr (True, c') \<Longrightarrow> same_response F c' c"
    and response_keeps: "fasthttp_ok F \<Longrightarrow> f_Response fi c = Inr (b, c') \<Longrightarrow> same_response F c' c"
begin

lemma request_outcome:
  assumes "fasthttp_ok F"
  obtains (pass) c' where "f_Request fi c = Inr (True, c')" "same_response F c' c"
    | (reject) c' where "f_Request fi c = Inr (False, c')" "400 \<le> resp_StatusCode F c'" "resp_StatusCode F c' < 600"
proof -
  obtain b c' where e: "f_Request fi c = Inr (b, c')" using request_returns by blast
  show thesis
  proof (cases b)
    case True
    with e show thesis using pass request_passes [OF assms] by simp
  next
    case False
    with e show thesis using reject request_rejects [OF assms] by simp
  qed
qed

lemma response_outcome:
  assumes "fasthttp_ok F"
  obtains b c' where "f_Response fi c = Inr (b, c')" "same_response F c' c"
  using response_returns response_keeps [OF assms] by blast

end

lemma same_response_simps [simp]: "same_response F c c"
  by (simp add: same_response_def)

lemma same_response_trans: "same_response F a b \<Longrightarrow> same_response F b c \<Longrightarrow> same_response F a c"
  by (simp add: same_response_def)

interpretation basic_auth: request_filter F "BasicAuthFilter_filter F f" for F f
proof unfold_locales
  fix c c' b
  show "\<exists>b c'. f_Request (BasicAuthFilter_filter F f) c = Inr (b, c')"
    by (auto simp: BasicAuthFilter_filter_def BasicAuthFilter_Request_def Let_def split: option.split)
  show "\<exists>b c'. f_Response (BasicAuthFilter_filter F f) c = Inr (b, c')"
    by (auto simp: BasicAuthFilter_filter_def BasicAuthFilter_Response_def)
  assume ok: "fasthttp_ok F"
  note defs = BasicAuthFilter_filter_def BasicAuthFilter_Request_def BasicAuthFilter_Response_def
    unauthorized_def Let_def
  show "400 \<le> resp_StatusCode F c' \<and> resp_StatusCode F c' < 600"
    if "f_Request (BasicAuthFilter_filter F f) c = Inr (False, c')"
    using that by (auto simp: defs ctx_laws [OF ok] split: if_splits option.splits)
  show "same_response F c' c" if "f_Request (BasicAuthFilter_filter F f) c = Inr (True, c')"
    using that by (auto simp: defs keeps_response_laws [OF ok] split: if_splits option.splits)
  show "same_response F c' c" if "f_Response (BasicAuthFilter_filter F f) c = Inr (b, c')"
    using that by (simp add: defs)
qed

lemma fold_keeps_response:
  assumes "\<And>x c. x \<in> set xs \<Longrightarrow> same_response F (g x c) c"
  shows "same_response F (fold g xs c) c"
  using assms
proof (induction xs arbitrary: c)
  case (Cons x xs)
  have "same_response F (fold g xs (g x c)) (g x c)" "same_response F (g x c) c"
    using Cons by simp_all
  then show ?case by (auto intro: same_response_trans)
qed simp

lemma headerFilter_keeps:
  assumes "\<And>k v c. same_response F (SetBytesKV fh k v c) c" "\<And>k v c. same_response F (AddBytesKV fh k v c) c"
    "\<And>k c. same_response F (DelBytes fh k c) c"
  shows "\<exists>c'. headerFilter_filter (newHeaderHandler T cfg) fh c = Inr c' \<and> same_response F c' c"
proof -
  define h where "h = newHeaderHandler T cfg"
  define c1 where "c1 = fold (\<lambda>(k, v). SetBytesKV fh k v) (zip (setKeys h) (setValues h)) c"
  define c2 where "c2 = fold (\<lambda>(k, v). AddBytesKV fh k v) (zip (addKeys h) (addValues h)) c1"
  have "same_response F c1 c" "same_response F c2 c1" "same_response F (fold (DelBytes fh) (delKeys h) c2) c2"
    unfolding c1_def c2_def by (rule fold_keeps_response; simp add: assms split_def)+
  then have "same_response F (fold (DelBytes fh) (delKeys h) c2) c"
    by (blast intro: same_response_trans)
  then show ?thesis
    by (simp add: h_def c1_def c2_def headerFilter_filter_new Let_def)
qed

lemma HeaderFilter_returns:
  fixes F :: "'c fasthttp" and T :: "'n tree_api" and a b :: 'n
  defines "f \<equiv> \<lparr>hf_request = newHeaderHandler T a, hf_response = newHeaderHandler T b\<rparr>"
  shows "\<exists>c'. HeaderFilter_Request F f c = Inr (True, c')" "\<exists>c'. HeaderFilter_Response F f c = Inr (True, c')"
  by (simp_all add: f_def HeaderFilter_Request_def HeaderFilter_Response_def headerFilter_filter_new Let_def)

lemma HeaderFilter_keeps:
  fixes F :: "'c fasthttp" and T :: "'n tree_api" and a b :: 'n
  defines "f \<equiv> \<lparr>hf_request = newHeaderHandler T a, hf_response = newHeaderHandler T b\<rparr>"
  assumes ok: "fasthttp_ok F"
  shows "HeaderFilter_Request F f c = Inr (r, c') \<Longrightarrow> r \<and> same_response F c' c"
    "HeaderFilter_Response F f c = Inr (r, c') \<Longrightarrow> r \<and> same_response F c' c"
proof -
  obtain c1 where "headerFilter_filter (newHeaderHandler T a) (request_header F) c = Inr c1" "same_response F c1 c"
    using headerFilter_keeps [of F "request_header F" T a c] keeps_response_laws [OF ok]
    unfolding request_header_def by auto
  then show "HeaderFilter_Request F f c = Inr (r, c') \<Longrightarrow> r \<and> same_response F c' c"
    by (auto simp: HeaderFilter_Request_def f_def)
  obtain c2 where "headerFilter_filter (newHeaderHandler T b) (response_header F) c = Inr c2" "same_response F c2 c"
    using headerFilter_keeps [of F "response_header F" T b c] keeps_response_laws [OF ok]
    unfolding response_header_def by auto
  then show "HeaderFilter_Response F f c = Inr (r, c') \<Longrightarrow> r \<and> same_response F c' c"
    by (auto simp: HeaderFilter_Response_def f_def)
qed

interpretation header: request_filter F
    "HeaderFilter_filter F \<lparr>hf_request = newHeaderHandler T a, hf_response = newHeaderHandler T b\<rparr>" for F T a b
proof unfold_locales
  fix c c' r
  let ?fi = "HeaderFilter_filter F \<lparr>hf_request = newHeaderHandler T a, hf_response = newHeaderHandler T b\<rparr>"
  show "\<exists>b c'. f_Request ?fi c = Inr (b, c')" "\<exists>b c'. f_Response ?fi c = Inr (b, c')"
    using HeaderFilter_returns [of F T a b c] by (auto simp: HeaderFilter_filter_def)
  assume ok: "fasthttp_ok F"
  show "400 \<le> resp_StatusCode F c' \<and> resp_StatusCode F c' < 600" if "f_Request ?fi c = Inr (False, c')"
    using that HeaderFilter_keeps(1) [OF ok, of T a b c False c'] by (simp add: HeaderFilter_filter_def)
  show "same_response F c' c" if "f_Request ?fi c = Inr (True, c')"
    using that HeaderFilter_keeps(1) [OF ok, of T a b c True c'] by (simp add: HeaderFilter_filter_def)
  show "same_response F c' c" if "f_Response ?fi c = Inr (r, c')"
    using that HeaderFilter_keeps(2) [OF ok, of T a b c r c'] by (simp add: HeaderFilter_filter_def)
qed

section \<open>Properties\<close>

lemma BasicAuth_Request_find:
  assumes "Users f = map init_user us"
  shows "f_Request (BasicAuthFilter_filter F f) c =
    (let header = req_Peek F ''Authorization'' c
     in case find (\<lambda>u. header = ''Basic '' @ base64_encode (Name u @ '':'' @ Secret u)) us of
          Some u \<Rightarrow> Inr (True, uri_SetUsername F (Name u) c)
        | None \<Rightarrow> Inr (False, if header = [] \<or> HasPrefix header ''Basic '' then unauthorized F f c
                            else ctx_Error F ''Unknown authorization'' 400 c))"
proof (cases "HasPrefix (req_Peek F ''Authorization'' c) ''Basic ''")
  case True
  then obtain a where a: "req_Peek F ''Authorization'' c = ''Basic '' @ a"
    by (auto simp: HasPrefix_iff)
  have "find_user (Users f) a = map_option init_user (find (\<lambda>u. a = base64_encode (Name u @ '':'' @ Secret u)) us)"
    unfolding assms by (induction us) auto
  then show ?thesis
    by (auto simp: BasicAuthFilter_filter_def BasicAuthFilter_Request_def a basicPrefix_def HasPrefix_def
        split: option.splits)
next
  case False
  then have "find (\<lambda>u. req_Peek F ''Authorization'' c = ''Basic '' @ base64_encode (Name u @ '':'' @ Secret u)) us = None"
    by (auto simp: find_None_iff HasPrefix_iff)
  with False show ?thesis
    by (simp add: BasicAuthFilter_filter_def BasicAuthFilter_Request_def basicPrefix_def Let_def)
qed

lemma colon_split:
  "c \<notin> set n \<Longrightarrow> c \<notin> set n' \<Longrightarrow> n @ c # s = n' @ c # s' \<longleftrightarrow> n = n' \<and> s = s'"
proof (induction n arbitrary: n')
  case Nil
  then show ?case by (cases n') auto
next
  case (Cons x n)
  then show ?case by (cases n') auto
qed

lemma BasicAuthFilter_users:
  assumes "BasicAuthFilter_init readFile yaml_users f0 = Inr f"
    and "UsersFile f0 \<noteq> [] \<Longrightarrow> readFile (UsersFile f0) = Inr bin \<and> yaml_users bin = Inr fileUsers"
  shows "Users f = map init_user (Users f0 @ (if UsersFile f0 = [] then [] else fileUsers))"
  using assms by (auto simp: BasicAuthFilter_init_def Let_def)

text \<open>C9. Who gets in: let \<open>NewBasicAuthFilter\<close> build a filter from a configuration that lists the users
  \<open>Users f0\<close> and, if it names a users file, from the users \<open>fileUsers\<close> read from that file; no name contains a
  colon. A request with name and secret \<open>n\<close>, \<open>s\<close> in its \<open>Authorization\<close> header passes, as user \<open>n\<close>, exactly
  if they are those of a user of the configuration or of the file; any request that does not carry the
  credentials of one of these users is rejected, with 401, or with 400 when it has a header of another scheme.\<close>

theorem basic_auth_correct:
  assumes ok: "fasthttp_ok F"
    and new: "NewBasicAuthFilter F unmarshal readFile yaml_users cfg = Inr fi"
    and cfg: "unmarshal cfg \<lparr>Realm = DefaultRealm, Users = [], UsersFile = []\<rparr> = Inr f0"
    and fu: "UsersFile f0 \<noteq> [] \<Longrightarrow> readFile (UsersFile f0) = Inr bin \<and> yaml_users bin = Inr fileUsers"
  defines "us \<equiv> Users f0 @ (if UsersFile f0 = [] then [] else fileUsers)"
  assumes names: "\<forall>u \<in> set us. CHR '':'' \<notin> set (Name u)"
  shows "(CHR '':'' \<notin> set n \<longrightarrow> req_Peek F ''Authorization'' c = ''Basic '' @ base64_encode (n @ '':'' @ s) \<longrightarrow>
       (if \<exists>u \<in> set us. Name u = n \<and> Secret u = s
        then f_Request fi c = Inr (True, uri_SetUsername F n c)
        else \<exists>c'. f_Request fi c = Inr (False, c') \<and> resp_StatusCode F c' = 401)) \<and>
     ((\<forall>u \<in> set us. req_Peek F ''Authorization'' c \<noteq> ''Basic '' @ base64_encode (Name u @ '':'' @ Secret u)) \<longrightarrow>
       (\<exists>c'. f_Request fi c = Inr (False, c') \<and>
         resp_StatusCode F c' =
           (if req_Peek F ''Authorization'' c = [] \<or> HasPrefix (req_Peek F ''Authorization'' c) ''Basic '' then 401 else 400)))"
    (is "(_ \<longrightarrow> ?head \<longrightarrow> ?pass) \<and> (?none \<longrightarrow> ?rej)")
proof -
  let ?P = "\<lambda>u. req_Peek F ''Authorization'' c = ''Basic '' @ base64_encode (Name u @ '':'' @ Secret u)"
  obtain f where init: "BasicAuthFilter_init readFile yaml_users f0 = Inr f" and fi: "fi = BasicAuthFilter_filter F f"
    using new cfg by (auto simp: NewBasicAuthFilter_def split: sum.splits)
  have "Users f = map init_user us"
    unfolding us_def by (rule BasicAuthFilter_users [OF init fu])
  note req = BasicAuth_Request_find [OF this, of F c, folded fi, unfolded Let_def]
  have st: "resp_StatusCode F (unauthorized F f c) = 401"
    by (simp add: unauthorized_def ctx_laws [OF ok])
  have rej: ?rej if ?none
  proof -
    have "find ?P us = None" using that by (auto simp: find_None_iff)
    then show ?thesis unfolding req by (simp add: st ctx_laws [OF ok])
  qed
  have pass: ?pass if n: "CHR '':'' \<notin> set n" and h: ?head
  proof (cases "find ?P us")
    case None
    moreover have "HasPrefix (req_Peek F ''Authorization'' c) ''Basic ''"
      unfolding h by (rule HasPrefix_append)
    moreover have "\<not> (\<exists>u \<in> set us. Name u = n \<and> Secret u = s)"
      using None h by (auto simp: find_None_iff)
    ultimately show ?thesis
      unfolding req using st by simp
  next
    case (Some u)
    then have "u \<in> set us" "?P u"
      by (auto simp: find_Some_iff)
    then have "Name u = n" "Secret u = s"
      using names n unfolding h by (auto simp: base64_encode_inject colon_split)
    with \<open>u \<in> set us\<close> show ?thesis
      unfolding req using Some by auto
  qed
  from pass rej show ?thesis
    by blast
qed

text \<open>A configuration with the user \<open>foo\<close> and a users file with the user \<open>joe\<close>.\<close>

definition demo_auth :: BasicAuthFilter where
  "demo_auth = \<lparr>Realm = DefaultRealm, Users = [\<lparr>Name = ''foo'', Secret = ''bar'', auth = []\<rparr>], UsersFile = ''users.yaml''\<rparr>"

definition demo_file_users :: "BasicAuthUser list" where
  "demo_file_users = [\<lparr>Name = ''joe'', Secret = ''ok'', auth = []\<rparr>]"

definition demo_auth_request :: "bytes \<Rightarrow> refctx" where
  "demo_auth_request a = (ref_request ''GET'' ''/'')\<lparr>rx_reqh := [(''Authorization'', a)]\<rparr>"

theorem basic_auth_correct_witness:
  "\<exists>fi. NewBasicAuthFilter ref_fasthttp (\<lambda>_ _. Inr demo_auth) (\<lambda>_. Inr []) (\<lambda>_. Inr demo_file_users) () = Inr fi \<and>
    f_Request fi (demo_auth_request ''Basic am9lOm9r'') =
      Inr (True, (demo_auth_request ''Basic am9lOm9r'')\<lparr>rx_user := ''joe''\<rparr>)"
proof -
  let ?f = "demo_auth\<lparr>Users := map init_user (Users demo_auth @ demo_file_users)\<rparr>"
  have new: "NewBasicAuthFilter ref_fasthttp (\<lambda>_ _. Inr demo_auth) (\<lambda>_. Inr []) (\<lambda>_. Inr demo_file_users) () =
      Inr (BasicAuthFilter_filter ref_fasthttp ?f)"
    by (simp add: NewBasicAuthFilter_def BasicAuthFilter_init_def demo_auth_def)
  have enc: "base64_encode (''joe'' @ '':'' @ ''ok'') = ''am9lOm9r''"
    by code_simp
  have head: "req_Peek ref_fasthttp ''Authorization'' (demo_auth_request ''Basic am9lOm9r'') =
      ''Basic '' @ base64_encode (''joe'' @ '':'' @ ''ok'')"
    unfolding enc by (simp add: ref_defs demo_auth_request_def)
  have "f_Request (BasicAuthFilter_filter ref_fasthttp ?f) (demo_auth_request ''Basic am9lOm9r'') =
      Inr (True, uri_SetUsername ref_fasthttp ''joe'' (demo_auth_request ''Basic am9lOm9r''))"
    using basic_auth_correct [OF ref_fasthttp_ok new refl, of "[]" demo_file_users "''joe''"
        "demo_auth_request ''Basic am9lOm9r''" "''ok''"] head
    by (simp add: demo_auth_def demo_file_users_def)
  with new show ?thesis
    by (intro exI [of _ "BasicAuthFilter_filter ref_fasthttp ?f"]) (simp add: ref_defs)
qed

text \<open>C17. What the header filter does: built from any configuration, for every ordinary header it
  replaces the values by the last configured \<open>set\<close> value (if there is one), appends the \<open>add\<close> values
  in order, and then drops them all if the header is listed under \<open>del\<close>; it never panics.\<close>

theorem header_filter_effect:
  fixes T :: "'n tree_api" and cfg :: 'n
  assumes "header_laws norm ordinary vals fh"
  defines "h \<equiv> newHeaderHandler T cfg"
  assumes "\<forall>k \<in> set (setKeys h) \<union> set (addKeys h) \<union> set (delKeys h). ordinary k"
  shows "\<exists>c'. headerFilter_filter h fh c = Inr c' \<and>
    vals j c' = (if norm j \<in> norm ` set (delKeys h) then []
      else (case find (\<lambda>(k, v). norm k = norm j) (rev (zip (setKeys h) (setValues h))) of
              None \<Rightarrow> vals j c | Some (k, v) \<Rightarrow> [v]) @
           map snd (filter (\<lambda>(k, v). norm k = norm j) (zip (addKeys h) (addValues h))))"
proof -
  have "\<forall>k \<in> fst ` set (zip (setKeys h) (setValues h)). ordinary k" "\<forall>k \<in> fst ` set (zip (addKeys h) (addValues h)). ordinary k"
    using assms(3) by (auto dest: set_zip_leftD)
  then show ?thesis
    using assms(3) unfolding h_def headerFilter_filter_new Let_def
    by (simp add: vals_fold_set [OF assms(1)] vals_fold_add [OF assms(1)] vals_fold_del [OF assms(1)])
qed

definition demo_header_cfg :: rtree where
  "demo_header_cfg = RMap [(''set'', RMap [(''A'', RStr ''1'')]), (''add'', RMap [(''A'', RStr ''2''), (''B'', RStr ''3'')]),
     (''del'', RArr [RStr ''B''])]"

theorem header_filter_effect_witness:
  "\<exists>c'. headerFilter_filter (newHeaderHandler ref_tree demo_header_cfg) (response_header ref_fasthttp)
      ((ref_request ''GET'' ''/'')\<lparr>rx_resph := [(''A'', ''0'')]\<rparr>) = Inr c' \<and>
    resp_Peek ref_fasthttp ''A'' c' = [''1'', ''2'']"
proof -
  have laws: "header_laws (\<lambda>k. k) (\<lambda>_. True) (resp_Peek ref_fasthttp) (response_header ref_fasthttp)"
    by (auto simp: header_laws_def response_header_def ref_defs filter_empty_conv intro: arg_cong [where f = "map snd"] filter_cong)
  show ?thesis
    using header_filter_effect [OF laws, of ref_tree demo_header_cfg _ "''A''"]
    by (simp add: newHeaderHandler_def demo_header_cfg_def ref_tree_def)
qed

end
