(* ===== verification/Server.thy ===== *)
theory Server
  imports RouteCaching ErrorPages Filters
begin

text \<open>
  \<open>pkg/handler/server.go\<close> and \<open>pkg/handler/handler.go\<close>: how a request goes through access log, route
  table, filters, handler and error pages (\<open>hostHandler\<close>), and how a listener with several hosts chooses
  among them (\<open>virtualHandler\<close>). The state a request changes (route cache, result pool, error-page cache)
  is threaded through. The retry loop of \<open>Handle\<close> is a \<open>partial_function (option)\<close>: \<open>None\<close> is a request
  that is never answered. A nil entry called (a filter or handler missing from its map) is the Go panic.
  Handlers, their constructors and the access log's \<open>Log\<close> are code of other packages that may panic, so they
  are functions with a panic as a possible outcome; the file server of the error pages is assumed to return.
\<close>

section \<open>Model\<close>

text \<open>A \<open>fasthttp.RequestHandler\<close> changes the context, or panics.\<close>

type_synonym 'c request_handler = "'c \<Rightarrow> 'c go"

text \<open>The part of the interface \<open>accesslog.AccessLog\<close> a request uses; \<open>Close\<close> answers an error or nil. \<open>Log\<close> may
  panic (\<open>AppendUint\<close> does on the negative length of a response sent in chunks).\<close>

record 'c accesslog_if =
  al_Collect :: "'c \<Rightarrow> 'c"
  al_Log :: "'c \<Rightarrow> 'c go"
  al_Close :: "string option"

record ('t, 'c) hostHandler =
  hh_cfg :: "'t Config"
  hostBytes :: bytes
  accessLog :: "'c accesslog_if"
  errorPages :: "'c ErrorPages"
  hh_filters :: "string \<Rightarrow> 'c filter_if option"
  hh_handlers :: "string \<Rightarrow> 'c request_handler option"
  hh_routes :: Routes

fun request_filters :: "('t, 'c) hostHandler \<Rightarrow> string list \<Rightarrow> 'c \<Rightarrow> (bool \<times> 'c) go" where
  "request_filters h [] ctx = Inr (True, ctx)"
| "request_filters h (f # fs) ctx =
     (case hh_filters h f of
        None \<Rightarrow> Inl NilDereference
      | Some fi \<Rightarrow> go_bind (f_Request fi ctx) (\<lambda>(ok, ctx).
                     if \<not> ok then Inr (False, ctx) else request_filters h fs ctx))"

fun response_filters :: "('t, 'c) hostHandler \<Rightarrow> string list \<Rightarrow> 'c \<Rightarrow> 'c go" where
  "response_filters h [] ctx = Inr ctx"
| "response_filters h (f # fs) ctx =
     (case hh_filters h f of
        None \<Rightarrow> Inl NilDereference
      | Some fi \<Rightarrow> go_bind (f_Response fi ctx) (\<lambda>(ok, ctx).
                     if \<not> ok then Inr ctx else response_filters h fs ctx))"

text \<open>\<open>h.errorPages.Handle(ctx)\<close>.\<close>

definition handle_error_page :: "'c fasthttp \<Rightarrow> ('t, 'c) hostHandler \<Rightarrow> 'c \<Rightarrow> (('t, 'c) hostHandler \<times> 'c) go" where
  "handle_error_page F h ctx =
     go_bind (Handle F (errorPages h) ctx) (\<lambda>(p, ctx). Inr (h\<lparr>errorPages := p\<rparr>, ctx))"

text \<open>The three-way choice of what answers the request.\<close>

definition route_content :: "'c fasthttp \<Rightarrow> ('t, 'c) hostHandler \<Rightarrow> Result \<Rightarrow> 'c \<Rightarrow> 'c go" where
  "route_content F h result ctx =
     (if StatusCode result > 0 then
        Inr (resp_SetStatusMessage F (StatusMessage result)
              (resp_SetStatusCode F (StatusCode result) (resp_Reset F ctx)))
      else if Handler result \<noteq> [] then
        (case hh_handlers h (Handler result) of
           None \<Rightarrow> Inl NilDereference
         | Some hf \<Rightarrow> hf ctx)
      else Inr (resp_SetStatusCode F 404 ctx))"

definition handleRouteResult :: "'c fasthttp \<Rightarrow> ('t, 'c) hostHandler \<Rightarrow> 'c \<Rightarrow> Result \<Rightarrow>
    (('t, 'c) hostHandler \<times> 'c) go" where
  "handleRouteResult F h ctx result =
     (let uri = RewriteURIWithQueryString result (ctx_QueryString F ctx);
          ctx = (if length uri > 0 then req_SetRequestURI F uri ctx else ctx)
      in go_bind (request_filters h (Filters result) ctx) (\<lambda>(ok, ctx).
           if \<not> ok then handle_error_page F h ctx
           else
             let uri = RedirectURIWithQueryString result (ctx_QueryString F ctx)
             in if length uri > 0 then Inr (h, ctx_RedirectBytes F uri (StatusCode result) ctx)
                else
                  go_bind (route_content F h result ctx) (\<lambda>ctx.
                  go_bind (handle_error_page F h ctx) (\<lambda>(h, ctx).
                  go_bind (response_filters h (Filters result) ctx) (\<lambda>ctx.
                  Inr (h, ctx))))))"

text \<open>One turn of the loop of \<open>Handle\<close>: the flag says whether it continues.\<close>

definition handle_pass :: "'c fasthttp \<Rightarrow> maphash \<Rightarrow> route_env \<Rightarrow> ('t, 'c) hostHandler \<Rightarrow> result_pool \<Rightarrow> 'c \<Rightarrow> nat \<Rightarrow>
    (bool \<times> ('t, 'c) hostHandler \<times> result_pool \<times> 'c \<times> nat) go" where
  "handle_pass F mh env h pool ctx off =
     (let (result, rs, pool) = CachedRoute mh env (hh_routes h) pool (ctx_Method F ctx) (ctx_Path F ctx) off
      in go_bind (handleRouteResult F (h\<lparr>hh_routes := rs\<rparr>) ctx result) (\<lambda>(h, ctx).
           let off = nat (RouteIndex result);
               resultStatusCode = StatusCode result;
               pool = Release result pool
           in if resultStatusCode \<noteq> 404 \<and> resp_StatusCode F ctx = 404 \<and> IsNextIfNotFound (hh_routes h) off
              then Inr (True, h, pool, resp_Reset F ctx, off + 1)
              else Inr (False, h, pool, ctx, off)))"

text \<open>The loop. \<open>envs n\<close> is what turn \<open>n\<close> reads of its environment (clock, pools).\<close>

partial_function (option) handle_loop :: "'c fasthttp \<Rightarrow> maphash \<Rightarrow> (nat \<Rightarrow> route_env) \<Rightarrow> nat \<Rightarrow> ('t, 'c) hostHandler \<Rightarrow>
    result_pool \<Rightarrow> 'c \<Rightarrow> nat \<Rightarrow> (('t, 'c) hostHandler \<times> result_pool \<times> 'c) go option" where
  "handle_loop F mh envs n h pool ctx off =
     (let r = handle_pass F mh (envs n) h pool ctx off
      in if isl r then Some (Inl (projl r))
         else
           let (continue, h', pool', ctx', off') = projr r
           in if continue then handle_loop F mh envs (Suc n) h' pool' ctx' off'
              else Some (Inr (h', pool', ctx')))"

definition hostHandler_Handle :: "'c fasthttp \<Rightarrow> maphash \<Rightarrow> (nat \<Rightarrow> route_env) \<Rightarrow> ('t, 'c) hostHandler \<Rightarrow>
    result_pool \<Rightarrow> 'c \<Rightarrow> (('t, 'c) hostHandler \<times> result_pool \<times> 'c) go option" where
  "hostHandler_Handle F mh envs h pool ctx =
     (let ctx = al_Collect (accessLog h) ctx
      in case handle_loop F mh envs 0 h pool ctx 0 of
           None \<Rightarrow> None
         | Some (Inl e) \<Rightarrow> Some (Inl e)
         | Some (Inr (h, pool, ctx)) \<Rightarrow>
             Some (go_bind (al_Log (accessLog h) ctx) (\<lambda>ctx. Inr (h, pool, ctx))))"

datatype conn_error = ErrSmallBuffer | NetOpError bool | OtherError

definition HandleError :: "'c fasthttp \<Rightarrow> ('t, 'c) hostHandler \<Rightarrow> 'c \<Rightarrow> conn_error \<Rightarrow> (('t, 'c) hostHandler \<times> 'c) go" where
  "HandleError F h ctx err =
     (let ctx = (case err of
                   ErrSmallBuffer \<Rightarrow> resp_SetStatusCode F 431 ctx
                 | NetOpError timeout \<Rightarrow> resp_SetStatusCode F (if timeout then 408 else 400) ctx
                 | OtherError \<Rightarrow> resp_SetStatusCode F 400 ctx)
      in handle_error_page F h ctx)"

text \<open>\<open>Close\<close> reports the access log's error.\<close>

definition hostHandler_Close :: "('t, 'c) hostHandler \<Rightarrow> string list" where
  "hostHandler_Close h = (case al_Close (accessLog h) of None \<Rightarrow> [] | Some err \<Rightarrow> [err])"

subsection \<open>Construction\<close>

text \<open>A constructor may panic, or return an error or a handler.\<close>

type_synonym ('n, 'c) NewHandlerFunc = "'n \<Rightarrow> (string + 'c request_handler) go"

definition RegisterNewHandlerFunc :: "string \<Rightarrow> ('n, 'c) NewHandlerFunc \<Rightarrow> (string \<Rightarrow> ('n, 'c) NewHandlerFunc option) \<Rightarrow>
    (string \<Rightarrow> ('n, 'c) NewHandlerFunc option)" where
  "RegisterNewHandlerFunc typeName fn reg = reg(typeName \<mapsto> fn)"

definition NewHandler :: "'n tree_api \<Rightarrow> (string \<Rightarrow> ('n, 'c) NewHandlerFunc option) \<Rightarrow> 'n \<Rightarrow> (string + 'c request_handler) go" where
  "NewHandler T reg cfg =
     (let typeName = tn_String T (tn_Get T ''type'' cfg)
      in case reg typeName of Some fn \<Rightarrow> fn cfg | None \<Rightarrow> Inr (Inl (''unknown handler type: '' @ typeName)))"

datatype server_error = InitError string | RoutesError route_error

fun init_filters :: "'t tree_api \<Rightarrow> ('t, 'c) filter_registry \<Rightarrow> (string \<times> 't) list \<Rightarrow>
    (string \<Rightarrow> 'c filter_if option) \<Rightarrow> server_error + (string \<Rightarrow> 'c filter_if option)" where
  "init_filters T reg [] m = Inr m"
| "init_filters T reg ((name, cfg) # cfgs) m =
     (case NewFilter T reg cfg of
        Inl err \<Rightarrow> Inl (InitError err)
      | Inr f \<Rightarrow> init_filters T reg cfgs (m(name \<mapsto> f)))"

fun init_handlers :: "'t tree_api \<Rightarrow> (string \<Rightarrow> ('t, 'c) NewHandlerFunc option) \<Rightarrow> string \<Rightarrow> (string \<times> 't) list \<Rightarrow>
    (string \<Rightarrow> 'c request_handler option) \<Rightarrow> (server_error + (string \<Rightarrow> 'c request_handler option)) go" where
  "init_handlers T reg root [] m = Inr (Inr m)"
| "init_handlers T reg root ((name, hcfg) # cfgs) m =
     (let hcfg = (if tn_String T (tn_Get T ''root'' hcfg) = [] then tn_SetString T ''root'' root hcfg else hcfg)
      in case NewHandler T reg hcfg of
           Inl e \<Rightarrow> Inl e
         | Inr (Inl err) \<Rightarrow> Inr (Inl (InitError err))
         | Inr (Inr hh) \<Rightarrow> init_handlers T reg root cfgs (m(name \<mapsto> hh)))"

text \<open>
  \<open>newLogger\<close> and \<open>newAccessLog\<close> stand for \<open>logger.NewLogger\<close> and \<open>accesslog.NewAccessLog\<close>; \<open>newFS\<close> and
  \<open>compile\<close> for the file server and the regular expressions; \<open>now\<close> is the clock when the cache is made.
\<close>

definition newHostHandler :: "(LogConfig \<Rightarrow> string option) \<Rightarrow> ('t Config \<Rightarrow> string + 'c accesslog_if) \<Rightarrow>
    (string \<Rightarrow> 'c handler) \<Rightarrow> 't tree_api \<Rightarrow> ('t, 'c) filter_registry \<Rightarrow> (string \<Rightarrow> ('t, 'c) NewHandlerFunc option) \<Rightarrow>
    re_compile \<Rightarrow> int \<Rightarrow> 't Config \<Rightarrow> (server_error + ('t, 'c) hostHandler) go" where
  "newHostHandler newLogger newAccessLog newFS T filterReg handlerReg compile now cfg =
     (case newLogger (cfg_Log cfg) of
        Some err \<Rightarrow> Inr (Inl (InitError err))
      | None \<Rightarrow>
     (case newAccessLog cfg of
        Inl err \<Rightarrow> Inr (Inl (InitError err))
      | Inr al \<Rightarrow>
     (case init_filters T filterReg (cfg_Filters cfg) Map.empty of
        Inl err \<Rightarrow> Inr (Inl err)
      | Inr fm \<Rightarrow>
     go_try (init_handlers T handlerReg (cfg_Root cfg) (cfg_Handlers cfg) Map.empty) (\<lambda>hm.
     (case NewRoutes compile now cfg of
        Inl err \<Rightarrow> Inr (Inl (RoutesError err))
      | Inr rs \<Rightarrow>
          Inr (Inr \<lparr>hh_cfg = cfg, hostBytes = cfg_Host cfg, accessLog = al,
               errorPages = NewErrorPages newFS (cfg_Root cfg) (cfg_ErrorPages cfg),
               hh_filters = fm, hh_handlers = hm, hh_routes = rs\<rparr>))))))"

subsection \<open>virtualHandler\<close>

fun find_host :: "bytes \<Rightarrow> ('t, 'c) hostHandler list \<Rightarrow> nat \<Rightarrow> nat option" where
  "find_host host [] i = None"
| "find_host host (h # hs) i = (if host = hostBytes h then Some i else find_host host hs (Suc i))"

text \<open>The index of the handler chosen; an empty list is the Go panic.\<close>

definition virtualHandler_handler :: "('t, 'c) hostHandler list \<Rightarrow> bytes \<Rightarrow> nat go" where
  "virtualHandler_handler hs hostB =
     (let i = IndexByte hostB (CHR '':'');
          host = (if i \<noteq> - 1 then take (nat i) hostB else hostB);
          hit = (if length hs > 1 then find_host host hs 0 else None)
      in case hit of
           Some k \<Rightarrow> Inr k
         | None \<Rightarrow> if length hs = 0 then Inl IndexOutOfRange else Inr 0)"

definition virtualHandler_Handle :: "'c fasthttp \<Rightarrow> maphash \<Rightarrow> (nat \<Rightarrow> route_env) \<Rightarrow> ('t, 'c) hostHandler list \<Rightarrow>
    result_pool \<Rightarrow> 'c \<Rightarrow> (('t, 'c) hostHandler list \<times> result_pool \<times> 'c) go option" where
  "virtualHandler_Handle F mh envs hs pool ctx =
     (case virtualHandler_handler hs (ctx_Host F ctx) of
        Inl e \<Rightarrow> Some (Inl e)
      | Inr k \<Rightarrow>
         (case hostHandler_Handle F mh envs (hs ! k) pool ctx of
            None \<Rightarrow> None
          | Some (Inl e) \<Rightarrow> Some (Inl e)
          | Some (Inr (h, pool, ctx)) \<Rightarrow> Some (Inr (hs[k := h], pool, ctx))))"

definition virtualHandler_HandleError :: "'c fasthttp \<Rightarrow> ('t, 'c) hostHandler list \<Rightarrow> 'c \<Rightarrow> conn_error \<Rightarrow>
    (('t, 'c) hostHandler list \<times> 'c) go" where
  "virtualHandler_HandleError F hs ctx err =
     go_bind (virtualHandler_handler hs (ctx_Host F ctx)) (\<lambda>k.
     go_bind (HandleError F (hs ! k) ctx err) (\<lambda>(h, ctx). Inr (hs[k := h], ctx)))"

definition virtualHandler_Close :: "('t, 'c) hostHandler list \<Rightarrow> string list" where
  "virtualHandler_Close hs = concat (map hostHandler_Close hs)"

text \<open>The hosts of a listener, and the log outputs its messages go to (each once).\<close>

fun new_host_handlers :: "('t Config \<Rightarrow> (server_error + ('t, 'c) hostHandler) go) \<Rightarrow> 't Config list \<Rightarrow> string list \<Rightarrow>
    (server_error + (('t, 'c) hostHandler list \<times> string list)) go" where
  "new_host_handlers new [] outputs = Inr (Inr ([], outputs))"
| "new_host_handlers new (cfg # cfgs) outputs =
     go_try (new cfg) (\<lambda>h.
     go_try (new_host_handlers new cfgs
               (if log_Output (cfg_Log cfg) \<in> List.set outputs then outputs else outputs @ [log_Output (cfg_Log cfg)]))
       (\<lambda>(hs, outputs). Inr (Inr (h # hs, outputs))))"

definition newVirtualHandler :: "('t Config \<Rightarrow> (server_error + ('t, 'c) hostHandler) go) \<Rightarrow> 't Config list \<Rightarrow>
    (server_error + (('t, 'c) hostHandler list \<times> string list)) go" where
  "newVirtualHandler new cfgs = new_host_handlers new cfgs []"

text \<open>The server of a listener: one host, or several behind a \<open>virtualHandler\<close>.\<close>

datatype ('t, 'c) ServerHandler =
    HostServer "('t, 'c) hostHandler"
  | VirtualServer "('t, 'c) hostHandler list" "string list"

definition NewServerHandler :: "('t Config \<Rightarrow> (server_error + ('t, 'c) hostHandler) go) \<Rightarrow> 't Config list \<Rightarrow>
    (server_error + ('t, 'c) ServerHandler) go" where
  "NewServerHandler new cfgs =
     (if length cfgs = 1 then go_try (new (cfgs ! 0)) (\<lambda>h. Inr (Inr (HostServer h)))
      else go_try (newVirtualHandler new cfgs) (\<lambda>(hs, outs). Inr (Inr (VirtualServer hs outs))))"

section \<open>Well-formed hosts\<close>

text \<open>A result the host can execute: its filters and its handler exist.\<close>

definition declared :: "('t, 'c) hostHandler \<Rightarrow> Result \<Rightarrow> bool" where
  "declared h res \<longleftrightarrow> (\<forall>f \<in> List.set (Filters res). hh_filters h f \<noteq> None) \<and>
     (Handler res = [] \<or> hh_handlers h (Handler res) \<noteq> None)"

definition hh_wf :: "'c fasthttp \<Rightarrow> ('t, 'c) hostHandler \<Rightarrow> bool" where
  "hh_wf F h \<longleftrightarrow> pages_wf (errorPages h) \<and> cache_all (declared h) (hh_routes h) \<and>
     (\<forall>m p i. declared h (route_value (hh_routes h) m p i)) \<and>
     (\<forall>f fi. hh_filters h f = Some fi \<longrightarrow> request_filter F fi)"

text \<open>What a request may change of a host: the error-page cache and the route cache.\<close>

definition same_host :: "('t, 'c) hostHandler \<Rightarrow> ('t, 'c) hostHandler \<Rightarrow> bool" where
  "same_host h' h \<longleftrightarrow> (\<exists>p rs. h' = h\<lparr>errorPages := p, hh_routes := rs\<rparr> \<and> routes rs = routes (hh_routes h))"

text \<open>The panics of the code of other packages a host calls: of one of its handlers, of its access log.\<close>

definition handler_panic :: "('t, 'c) hostHandler \<Rightarrow> go_panic \<Rightarrow> bool" where
  "handler_panic h e \<longleftrightarrow> (\<exists>k f c. hh_handlers h k = Some f \<and> f c = Inl e)"

definition log_panic :: "('t, 'c) hostHandler \<Rightarrow> go_panic \<Rightarrow> bool" where
  "log_panic h e \<longleftrightarrow> (\<exists>c. al_Log (accessLog h) c = Inl e)"

lemma same_host_refl [simp]: "same_host h h"
proof -
  have "h = h\<lparr>errorPages := errorPages h, hh_routes := hh_routes h\<rparr>" by simp
  then show ?thesis unfolding same_host_def by blast
qed

lemma same_host_trans: "same_host h2 h1 \<Longrightarrow> same_host h1 h \<Longrightarrow> same_host h2 h"
  by (auto simp: same_host_def) blast

lemma same_host_fields:
  "same_host h' h \<Longrightarrow> accessLog h' = accessLog h \<and> hh_filters h' = hh_filters h \<and> hh_handlers h' = hh_handlers h \<and>
     routes (hh_routes h') = routes (hh_routes h) \<and> hostBytes h' = hostBytes h \<and> hh_cfg h' = hh_cfg h"
  by (auto simp: same_host_def)

lemma same_host_panics: "same_host h' h \<Longrightarrow> handler_panic h' = handler_panic h \<and> log_panic h' = log_panic h"
  using same_host_fields [of h' h] by (simp add: handler_panic_def log_panic_def fun_eq_iff)

lemma declared_same: "same_host h' h \<Longrightarrow> declared h' = declared h"
  using same_host_fields [of h' h] by (simp add: declared_def fun_eq_iff)

section \<open>Every step returns, unless a handler panics\<close>

lemma request_filters_return:
  assumes ok: "fasthttp_ok F" and flt: "\<forall>f fi. hh_filters h f = Some fi \<longrightarrow> request_filter F fi"
    and dec: "\<forall>f \<in> List.set fs. hh_filters h f \<noteq> None"
  shows "(\<exists>c'. request_filters h fs c = Inr (True, c') \<and> same_response F c' c) \<or>
     (\<exists>c'. request_filters h fs c = Inr (False, c') \<and> in_range (resp_StatusCode F c'))"
  using dec
proof (induction fs arbitrary: c)
  case (Cons f fs)
  then obtain fi where fi: "hh_filters h f = Some fi" by auto
  with flt have rf: "request_filter F fi" by blast
  consider (pass) c' where "f_Request fi c = Inr (True, c')" "same_response F c' c"
    | (reject) c' where "f_Request fi c = Inr (False, c')" "400 \<le> resp_StatusCode F c'" "resp_StatusCode F c' < 600"
    using request_filter.request_outcome [OF rf ok] by metis
  then show ?case
  proof cases
    case (pass c')
    from Cons.IH [of c'] Cons.prems show ?thesis
      using pass fi by (auto intro: same_response_trans)
  next
    case (reject c')
    then show ?thesis using fi by (simp add: in_range_def)
  qed
qed simp

lemma response_filters_return:
  assumes ok: "fasthttp_ok F" and flt: "\<forall>f fi. hh_filters h f = Some fi \<longrightarrow> request_filter F fi"
    and dec: "\<forall>f \<in> List.set fs. hh_filters h f \<noteq> None"
  shows "\<exists>c'. response_filters h fs c = Inr c' \<and> same_response F c' c"
  using dec
proof (induction fs arbitrary: c)
  case (Cons f fs)
  then obtain fi where fi: "hh_filters h f = Some fi" by auto
  with flt have rf: "request_filter F fi" by blast
  obtain b c' where r: "f_Response fi c = Inr (b, c')" "same_response F c' c"
    using request_filter.response_outcome [OF rf ok] by blast
  from Cons.IH [of c'] Cons.prems show ?case
    using r fi by (cases b) (auto intro: same_response_trans)
qed simp

lemma handle_error_page_returns:
  assumes "fasthttp_ok F" "pages_wf (errorPages h)"
  obtains p c' where "handle_error_page F h c = Inr (h\<lparr>errorPages := p\<rparr>, c')" "pages_wf p"
    "resp_StatusCode F c' = resp_StatusCode F c" "Handle F (errorPages h) c = Inr (p, c')"
  using Handle_total [OF assms, of c] by (auto simp: handle_error_page_def)

lemma route_content_returns:
  "declared h res \<Longrightarrow> case route_content F h res c of Inl e \<Rightarrow> handler_panic h e | Inr c' \<Rightarrow> True"
  unfolding handler_panic_def by (cases "hh_handlers h (Handler res)"; cases "the (hh_handlers h (Handler res)) c")
    (auto simp: route_content_def declared_def)

lemma handleRouteResult_returns:
  assumes ok: "fasthttp_ok F" and pages: "pages_wf (errorPages h)" and dec: "declared h res"
    and flt: "\<forall>f fi. hh_filters h f = Some fi \<longrightarrow> request_filter F fi"
  shows "case handleRouteResult F h c res of
      Inl e \<Rightarrow> handler_panic h e
    | Inr (h', c') \<Rightarrow> \<exists>p. h' = h\<lparr>errorPages := p\<rparr> \<and> pages_wf p"
proof -
  let ?u = "RewriteURIWithQueryString res (ctx_QueryString F c)"
  define d where "d = (if length ?u > 0 then req_SetRequestURI F ?u c else c)"
  have fdec: "\<forall>f \<in> List.set (Filters res). hh_filters h f \<noteq> None"
    using dec by (simp add: declared_def)
  have start: "handleRouteResult F h c res = go_bind (request_filters h (Filters res) d) (\<lambda>(ok, ctx).
           if \<not> ok then handle_error_page F h ctx
           else let uri = RedirectURIWithQueryString res (ctx_QueryString F ctx)
             in if length uri > 0 then Inr (h, ctx_RedirectBytes F uri (StatusCode res) ctx)
                else
                  go_bind (route_content F h res ctx) (\<lambda>ctx.
                  go_bind (handle_error_page F h ctx) (\<lambda>(h, ctx).
                  go_bind (response_filters h (Filters res) ctx) (\<lambda>ctx.
                  Inr (h, ctx)))))"
    by (simp add: handleRouteResult_def d_def Let_def)
  consider (pass) c1 where "request_filters h (Filters res) d = Inr (True, c1)"
    | (reject) c1 where "request_filters h (Filters res) d = Inr (False, c1)"
    using request_filters_return [OF ok flt fdec] by blast
  then show ?thesis
  proof cases
    case reject
    obtain p c2 where "handle_error_page F h c1 = Inr (h\<lparr>errorPages := p\<rparr>, c2)" "pages_wf p"
      using handle_error_page_returns [OF ok pages] by blast
    then show ?thesis
      unfolding start reject by auto
  next
    case pass
    show ?thesis
    proof (cases "route_content F h res c1")
      case (Inl e)
      then show ?thesis
        unfolding start pass using route_content_returns [OF dec, of F c1] pages
        by (auto simp: Let_def intro: exI [of _ "errorPages h"])
    next
      case (Inr c2)
      obtain p c3 where ep: "handle_error_page F h c2 = Inr (h\<lparr>errorPages := p\<rparr>, c3)" "pages_wf p"
        using handle_error_page_returns [OF ok pages] by blast
      obtain c4 where "response_filters (h\<lparr>errorPages := p\<rparr>) (Filters res) c3 = Inr c4"
        using response_filters_return [OF ok, of "h\<lparr>errorPages := p\<rparr>" "Filters res" c3] flt fdec by auto
      then show ?thesis
        unfolding start pass using Inr ep pages by (auto simp: Let_def intro: exI [of _ "errorPages h"])
    qed
  qed
qed

lemma handle_pass_returns:
  assumes ok: "fasthttp_ok F" and wf: "hh_wf F h" and pool: "pool_ok pool"
  shows "case handle_pass F mh env h pool c off of
      Inl e \<Rightarrow> handler_panic h e
    | Inr (again, h', pool', c', off') \<Rightarrow> hh_wf F h' \<and> pool_ok pool' \<and> same_host h' h"
proof -
  obtain res rs pool1 where cr: "CachedRoute mh env (hh_routes h) pool (ctx_Method F c) (ctx_Path F c) off = (res, rs, pool1)"
    by (cases "CachedRoute mh env (hh_routes h) pool (ctx_Method F c) (ctx_Path F c) off")
  have all: "declared h res" "cache_all (declared h) rs" "routes rs = routes (hh_routes h)" "pool_ok pool1"
    using CachedRoute_all [OF _ pool _ cr, of "declared h"] wf by (simp_all add: hh_wf_def)
  let ?h = "h\<lparr>hh_routes := rs\<rparr>"
  have hr: "case handleRouteResult F ?h c res of
      Inl e \<Rightarrow> handler_panic ?h e | Inr (h', c') \<Rightarrow> \<exists>p. h' = ?h\<lparr>errorPages := p\<rparr> \<and> pages_wf p"
    using handleRouteResult_returns [OF ok, of ?h res c] wf all(1) by (auto simp: hh_wf_def declared_def)
  show ?thesis
  proof (cases "handleRouteResult F ?h c res")
    case (Inl e)
    then show ?thesis
      using hr by (simp add: handle_pass_def cr handler_panic_def)
  next
    case (Inr r)
    then obtain p c' where hr: "handleRouteResult F ?h c res = Inr (?h\<lparr>errorPages := p\<rparr>, c')" "pages_wf p"
      using hr by (cases r) auto
    have same: "same_host (?h\<lparr>errorPages := p\<rparr>) h"
      unfolding same_host_def using all(3) by (intro exI [of _ p] exI [of _ rs]) simp
    moreover have "hh_wf F (?h\<lparr>errorPages := p\<rparr>)"
      using wf hr(2) all(2,3) declared_same [OF same] route_value_routes [OF all(3)] by (simp add: hh_wf_def)
    ultimately show ?thesis
      unfolding handle_pass_def cr using hr(1) all(4) by (auto simp: Let_def)
  qed
qed

lemma handle_pass_panics:
  "fasthttp_ok F \<Longrightarrow> hh_wf F h \<Longrightarrow> pool_ok pool \<Longrightarrow> handle_pass F mh env h pool c off = Inl e \<Longrightarrow> handler_panic h e"
  using handle_pass_returns [of F h pool mh env c off] by simp

lemma handle_pass_keeps:
  "fasthttp_ok F \<Longrightarrow> hh_wf F h \<Longrightarrow> pool_ok pool \<Longrightarrow> handle_pass F mh env h pool c off = Inr (again, h', pool', c', off') \<Longrightarrow>
   hh_wf F h' \<and> pool_ok pool' \<and> same_host h' h"
  using handle_pass_returns [of F h pool mh env c off] by simp

section \<open>The loop\<close>

text \<open>Induction over the turns of a loop that returns.\<close>

lemma handle_loop_turns:
  assumes run: "handle_loop F mh envs n h pool c off = Some y"
    and panic: "\<And>n h pool c off e. handle_pass F mh (envs n) h pool c off = Inl e \<Longrightarrow> P n h pool c off (Inl e)"
    and stop: "\<And>n h pool c off h' pool' c' off'. handle_pass F mh (envs n) h pool c off = Inr (False, h', pool', c', off') \<Longrightarrow>
        P n h pool c off (Inr (h', pool', c'))"
    and again: "\<And>n h pool c off h' pool' c' off' y. handle_pass F mh (envs n) h pool c off = Inr (True, h', pool', c', off') \<Longrightarrow>
        P (Suc n) h' pool' c' off' y \<Longrightarrow> P n h pool c off y"
  shows "P n h pool c off y"
proof -
  have "F0 = F \<and> mh0 = mh \<and> envs0 = envs \<longrightarrow> P n h pool c off y"
    if "handle_loop F0 mh0 envs0 n h pool c off = Some y" for F0 mh0 envs0
    using that
  proof (rule handle_loop.raw_induct [rotated, where P = "\<lambda>F0 mh0 envs0 n h pool c off y.
      F0 = F \<and> mh0 = mh \<and> envs0 = envs \<longrightarrow> P n h pool c off y"])
    fix loop F0 mh0 envs0 n h pool c off y
    assume IH: "\<And>mh' envs' n h pool c off b y. loop mh' envs' n h pool c off b = Some y \<Longrightarrow>
        mh' = F \<and> envs' = mh \<and> n = envs \<longrightarrow> P h pool c off b y"
      and body: "(let r = handle_pass F0 mh0 (envs0 n) h pool c off
        in if isl r then Some (Inl (projl r))
           else let (continue, h', pool', ctx', off') = projr r
                in if continue then loop F0 mh0 envs0 (Suc n) h' pool' ctx' off'
                   else Some (Inr (h', pool', ctx'))) = Some y"
    show "F0 = F \<and> mh0 = mh \<and> envs0 = envs \<longrightarrow> P n h pool c off y"
    proof (intro impI)
      assume e: "F0 = F \<and> mh0 = mh \<and> envs0 = envs"
      show "P n h pool c off y"
      proof (cases "handle_pass F mh (envs n) h pool c off")
        case (Inl err)
        then show ?thesis using body e panic by (auto simp: Let_def)
      next
        case (Inr r)
        obtain go_on h' pool' c' off' where r: "r = (go_on, h', pool', c', off')" by (cases r)
        show ?thesis
          using body e Inr r stop again IH by (cases go_on) (auto simp: Let_def)
      qed
    qed
  qed
  with run show ?thesis by blast
qed

lemma handle_loop_unfold:
  "handle_loop F mh envs n h pool c off =
     (case handle_pass F mh (envs n) h pool c off of
        Inl e \<Rightarrow> Some (Inl e)
      | Inr (go_on, h', pool', c', off') \<Rightarrow>
          if go_on then handle_loop F mh envs (Suc n) h' pool' c' off' else Some (Inr (h', pool', c')))"
  by (subst handle_loop.simps) (auto simp: Let_def split: sum.split)

lemma handle_loop_safe:
  assumes "handle_loop F mh envs n h pool c off = Some y"
    and ok: "fasthttp_ok F" and "hh_wf F h" "pool_ok pool"
  shows "case y of Inl e \<Rightarrow> handler_panic h e
    | Inr (h', pool', c') \<Rightarrow> hh_wf F h' \<and> pool_ok pool' \<and> same_host h' h"
  using assms(3,4)
proof (induction rule: handle_loop_turns [OF assms(1)])
  case (1 n h pool c off e)
  then show ?case
    using handle_pass_panics [OF ok] by simp
next
  case (2 n h pool c off h' pool' c' off')
  then show ?case
    using handle_pass_keeps [OF ok] by simp
next
  case (3 n h pool c off h' pool' c' off' y)
  then have k: "hh_wf F h'" "pool_ok pool'" "same_host h' h"
    using handle_pass_keeps [OF ok] by blast+
  show ?case
    using 3(2) [OF k(1,2)] same_host_panics [OF k(3)] k(3) by (auto split: sum.splits intro: same_host_trans)
qed

lemma Handle_safe:
  assumes "hostHandler_Handle F mh envs h pool c = Some y" "fasthttp_ok F" "hh_wf F h" "pool_ok pool"
  shows "case y of Inl e \<Rightarrow> handler_panic h e \<or> log_panic h e
    | Inr (h', pool', c') \<Rightarrow> hh_wf F h' \<and> pool_ok pool' \<and> same_host h' h"
proof -
  obtain z where z: "handle_loop F mh envs 0 h pool (al_Collect (accessLog h) c) 0 = Some z"
    using assms(1) by (auto simp: hostHandler_Handle_def Let_def split: option.splits)
  note safe = handle_loop_safe [OF z assms(2-4)]
  show ?thesis
  proof (cases z)
    case (Inl e)
    then show ?thesis
      using safe assms(1) z by (auto simp: hostHandler_Handle_def Let_def)
  next
    case (Inr r)
    obtain h' pool' c' where r: "r = (h', pool', c')" by (cases r)
    then have keep: "hh_wf F h'" "pool_ok pool'" "same_host h' h"
      using safe Inr by simp_all
    have y: "y = go_bind (al_Log (accessLog h') c') (\<lambda>ctx. Inr (h', pool', ctx))"
      using assms(1) z Inr r by (simp add: hostHandler_Handle_def Let_def)
    show ?thesis
    proof (cases "al_Log (accessLog h') c'")
      case (Inl e)
      then have "log_panic h e"
        using same_host_fields [OF keep(3)] by (auto simp: log_panic_def)
      then show ?thesis
        using y Inl by simp
    qed (use y keep in simp)
  qed
qed

text \<open>Without \<open>nextIfNotFound\<close> routes there is one turn.\<close>

lemma no_next_one_pass:
  assumes "\<forall>r \<in> List.set (routes (hh_routes h)). \<not> nextIfNotFound r"
    and "handle_pass F mh env h pool c off = Inr (go_on, h', pool', c', off')" and "same_host h' h"
  shows "\<not> go_on"
proof -
  obtain res rs pool1 where cr: "CachedRoute mh env (hh_routes h) pool (ctx_Method F c) (ctx_Path F c) off = (res, rs, pool1)"
    by (cases "CachedRoute mh env (hh_routes h) pool (ctx_Method F c) (ctx_Path F c) off")
  have "\<not> IsNextIfNotFound (hh_routes h') i" for i
    using assms(1) same_host_fields [OF assms(3)] by (auto simp: IsNextIfNotFound_def)
  with assms(2) show ?thesis
    by (auto simp: handle_pass_def cr go_bind_Inr_iff Let_def split: if_splits)
qed

lemma Handle_answers:
  assumes ok: "fasthttp_ok F" and wf: "hh_wf F h" "pool_ok pool"
    and nn: "\<forall>r \<in> List.set (routes (hh_routes h)). \<not> nextIfNotFound r"
  shows "\<exists>y. hostHandler_Handle F mh envs h pool c = Some y"
proof -
  let ?c = "al_Collect (accessLog h) c"
  have "\<exists>z. handle_loop F mh envs 0 h pool ?c 0 = Some z"
  proof (cases "handle_pass F mh (envs 0) h pool ?c 0")
    case (Inl e)
    then show ?thesis
      by (subst handle_loop_unfold) simp
  next
    case (Inr r)
    obtain again h' pool' c' off' where r: "r = (again, h', pool', c', off')" by (cases r)
    with Inr have "\<not> again"
      using no_next_one_pass [OF nn] handle_pass_keeps [OF ok wf] by blast
    with Inr r show ?thesis
      by (subst handle_loop_unfold) simp
  qed
  then show ?thesis
    by (auto simp: hostHandler_Handle_def Let_def split: sum.split)
qed

section \<open>What \<open>newHostHandler\<close> builds\<close>

definition builtin_filters :: "'c fasthttp \<Rightarrow> 't tree_api \<Rightarrow> ('t \<Rightarrow> BasicAuthFilter \<Rightarrow> string + BasicAuthFilter) \<Rightarrow>
    (string \<Rightarrow> string + bytes) \<Rightarrow> (bytes \<Rightarrow> string + BasicAuthUser list) \<Rightarrow> ('t, 'c) filter_registry" where
  "builtin_filters F T unmarshal readFile yaml_users =
     RegisterNewFilterFunc ''header'' (NewHeaderFilter F T)
       (RegisterNewFilterFunc ''basicAuth'' (NewBasicAuthFilter F unmarshal readFile yaml_users) Map.empty)"

lemma builtin_filters_ok:
  assumes "NewFilter T (builtin_filters F T unmarshal readFile yaml_users) cfg = Inr fi"
  shows "request_filter F fi"
  using assms basic_auth.request_filter_axioms [of F] header.request_filter_axioms [of F T]
  by (auto simp: NewFilter_def builtin_filters_def RegisterNewFilterFunc_def NewHeaderFilter_def NewBasicAuthFilter_def
      Let_def split: if_splits sum.splits)

lemma init_filters_ok:
  assumes "init_filters T reg cfgs m = Inr m'"
    and "\<And>cfg fi. NewFilter T reg cfg = Inr fi \<Longrightarrow> Q fi" "\<forall>f fi. m f = Some fi \<longrightarrow> Q fi"
  shows "(\<forall>f fi. m' f = Some fi \<longrightarrow> Q fi) \<and> (\<forall>f. f \<in> fst ` List.set cfgs \<or> m f \<noteq> None \<longrightarrow> m' f \<noteq> None)"
  using assms(1,3)
proof (induction cfgs arbitrary: m)
  case (Cons x cfgs)
  obtain name cfg where x: "x = (name, cfg)" by (cases x)
  with Cons.prems obtain fi where fi: "NewFilter T reg cfg = Inr fi" "init_filters T reg cfgs (m(name \<mapsto> fi)) = Inr m'"
    by (auto split: sum.splits)
  have "\<forall>f gi. (m(name \<mapsto> fi)) f = Some gi \<longrightarrow> Q gi"
    using Cons.prems(2) assms(2) [OF fi(1)] by simp
  from Cons.IH [OF fi(2) this] x show ?case
    by auto
qed simp

lemma init_handlers_ok:
  assumes "init_handlers T reg root cfgs m = Inr (Inr m')"
  shows "\<forall>f. f \<in> fst ` List.set cfgs \<or> m f \<noteq> None \<longrightarrow> m' f \<noteq> None"
  using assms
proof (induction cfgs arbitrary: m)
  case (Cons x cfgs)
  obtain name cfg where x: "x = (name, cfg)" by (cases x)
  with Cons.prems obtain hh where "init_handlers T reg root cfgs (m(name \<mapsto> hh)) = Inr (Inr m')"
    by (auto simp: Let_def split: sum.splits)
  from Cons.IH [OF this] x show ?case
    by auto
qed simp

lemma newHostHandler_wf:
  assumes "newHostHandler newLogger newAccessLog newFS T (builtin_filters F T unmarshal readFile yaml_users)
      handlerReg compile now cfg = Inr (Inr h)"
  shows "hh_wf F h" "\<exists>rs. NewRoutes compile now cfg = Inr rs \<and> hh_routes h = rs"
proof -
  let ?reg = "builtin_filters F T unmarshal readFile yaml_users"
  from assms obtain al fm hm rs where
    fm: "init_filters T ?reg (cfg_Filters cfg) Map.empty = Inr fm" and
    hm: "init_handlers T handlerReg (cfg_Root cfg) (cfg_Handlers cfg) Map.empty = Inr (Inr hm)" and
    rs: "NewRoutes compile now cfg = Inr rs" and
    h: "h = \<lparr>hh_cfg = cfg, hostBytes = cfg_Host cfg, accessLog = al,
               errorPages = NewErrorPages newFS (cfg_Root cfg) (cfg_ErrorPages cfg),
               hh_filters = fm, hh_handlers = hm, hh_routes = rs\<rparr>"
    by (cases "NewRoutes compile now cfg") (auto simp: newHostHandler_def go_try_Inr_iff split: option.splits sum.splits)
  have flt: "\<forall>f fi. fm f = Some fi \<longrightarrow> request_filter F fi" "\<forall>f. f \<in> fst ` List.set (cfg_Filters cfg) \<longrightarrow> fm f \<noteq> None"
    using init_filters_ok [OF fm, of "request_filter F"] builtin_filters_ok [of T F unmarshal readFile yaml_users]
    by simp_all
  have hdl: "\<forall>k. k \<in> fst ` List.set (cfg_Handlers cfg) \<longrightarrow> hm k \<noteq> None"
    using init_handlers_ok [OF hm] by blast
  have "declared h (route_value rs m p i)" for m p i
    using route_value_declared [OF rs, of m p i] flt(2) hdl unfolding declared_def h hostHandler.simps by blast
  then show "hh_wf F h"
    using flt(1) NewErrorPages_wf NewRoutes_cache_all [OF rs] by (simp add: hh_wf_def h)
  show "\<exists>rs. NewRoutes compile now cfg = Inr rs \<and> hh_routes h = rs"
    using rs h by simp
qed

lemma NewRoute_next: "NewRoute compile rcfg = Inr r \<Longrightarrow> nextIfNotFound r = rt_NextIfNotFound rcfg"
  by (auto simp: NewRoute_def initMatchPath_def Let_def split: if_splits sum.splits)

lemma NewRoutes_next:
  assumes "NewRoutes compile now cfg = Inr rs" "r \<in> List.set (routes rs)"
  shows "\<exists>rcfg \<in> List.set (cfg_Routes cfg). nextIfNotFound r = rt_NextIfNotFound rcfg"
proof -
  have "list_all2 (\<lambda>rcfg r. route_declared cfg rcfg \<and> NewRoute compile rcfg = Inr r) (cfg_Routes cfg) (routes rs)"
    using NewRoutes_ok [of compile now cfg rs] assms(1) by simp
  moreover obtain i where "i < length (routes rs)" "r = routes rs ! i"
    using assms(2) by (auto simp: in_set_conv_nth)
  ultimately have "cfg_Routes cfg ! i \<in> List.set (cfg_Routes cfg)" "NewRoute compile (cfg_Routes cfg ! i) = Inr r"
    by (simp_all add: list_all2_conv_all_nth)
  with NewRoute_next show ?thesis by blast
qed

section \<open>Properties\<close>

text \<open>
  A small site for the witnesses: handler \<open>hello\<close> answers 200, \<open>missing\<close> and \<open>gone\<close> answer 404, the
  filter \<open>auth\<close> asks for \<open>foo:bar\<close>.
\<close>

definition quiet_log :: "refctx accesslog_if" where
  "quiet_log = \<lparr>al_Collect = (\<lambda>c. c), al_Log = Inr, al_Close = None\<rparr>"

definition not_found :: "refctx request_handler" where
  "not_found = (\<lambda>c. Inr (c\<lparr>rx_status := 404\<rparr>))"

definition hello :: "refctx request_handler" where
  "hello = (\<lambda>c. Inr (c\<lparr>rx_status := 200, rx_body := ''hello''\<rparr>))"

definition demo_user :: BasicAuthUser where
  "demo_user = \<lparr>Name = ''foo'', Secret = ''bar'', auth = []\<rparr>"

definition demo_filters :: "(rtree, refctx) filter_registry" where
  "demo_filters = builtin_filters ref_fasthttp ref_tree (\<lambda>_ f. Inr (f\<lparr>Users := [demo_user]\<rparr>)) (\<lambda>_. Inl ''none'') (\<lambda>_. Inr [])"

definition demo_handlers :: "string \<Rightarrow> (rtree, refctx) NewHandlerFunc option" where
  "demo_handlers = [''404'' \<mapsto> (\<lambda>_. Inr (Inr not_found)), ''hello'' \<mapsto> (\<lambda>_. Inr (Inr hello))]"

definition demo_site :: "RouteConfig list \<Rightarrow> rtree Config" where
  "demo_site rts = zero_config\<lparr>cfg_Filters := [(''auth'', RMap [(''type'', RStr ''basicAuth'')])],
     cfg_Handlers := [(''missing'', RMap [(''type'', RStr ''404'')]), (''gone'', RMap [(''type'', RStr ''404'')]),
                      (''hello'', RMap [(''type'', RStr ''hello'')])],
     cfg_Routes := rts\<rparr>"

definition demo_new :: "RouteConfig list \<Rightarrow> (server_error + (rtree, refctx) hostHandler) go" where
  "demo_new rts = newHostHandler (\<lambda>_. None) (\<lambda>_. Inr quiet_log) ref_fs ref_tree demo_filters demo_handlers no_regexp 0
     (demo_site rts)"

definition demo_auth_filter :: "refctx filter_if" where
  "demo_auth_filter = BasicAuthFilter_filter ref_fasthttp \<lparr>Realm = DefaultRealm, Users = [init_user demo_user], UsersFile = []\<rparr>"

definition demo_host :: "RouteConfig list \<Rightarrow> Routes \<Rightarrow> (rtree, refctx) hostHandler" where
  "demo_host rts rs = \<lparr>hh_cfg = demo_site rts, hostBytes = [], accessLog = quiet_log,
     errorPages = NewErrorPages ref_fs [] [], hh_filters = [''auth'' \<mapsto> demo_auth_filter],
     hh_handlers = [''missing'' \<mapsto> not_found, ''gone'' \<mapsto> not_found, ''hello'' \<mapsto> hello], hh_routes = rs\<rparr>"

lemma demo_new_host:
  "NewRoutes no_regexp 0 (demo_site rts) = Inr rs \<Longrightarrow> demo_new rts = Inr (Inr (demo_host rts rs))"
  by (simp add: demo_new_def newHostHandler_def demo_host_def demo_site_def zero_config_def demo_filters_def
      builtin_filters_def RegisterNewFilterFunc_def NewFilter_def NewHandler_def ref_tree_def demo_handlers_def Let_def
      NewBasicAuthFilter_def BasicAuthFilter_init_def demo_auth_filter_def)

lemma demo_host_wf:
  assumes "NewRoutes no_regexp 0 (demo_site rts) = Inr rs"
  shows "hh_wf ref_fasthttp (demo_host rts rs)"
  using newHostHandler_wf(1) [OF demo_new_host [OF assms, unfolded demo_new_def demo_filters_def]] .

definition to_handler :: "string \<Rightarrow> string \<Rightarrow> bool \<Rightarrow> RouteConfig" where
  "to_handler path k next_if = zero_route_config\<lparr>rt_Path := path, rt_Handler := k, rt_NextIfNotFound := next_if\<rparr>"

definition demo_route :: "string \<Rightarrow> string \<Rightarrow> bool \<Rightarrow> Route" where
  "demo_route path k next_if = \<lparr>methodsBytes = [], filters = [], rewriteUriBytes = [], rewriteAppendQueryString = False,
     handler = k, statusCode = 0, statusMessageBytes = [], matchPath = (\<lambda>p. HasPrefix p path), matchPattern = None,
     nextIfNotFound = next_if\<rparr>"

lemma to_handler_route: "path \<noteq> [] \<Longrightarrow> NewRoute compile (to_handler path k n) = Inr (demo_route path k n)"
  by (simp add: NewRoute_def initMatchPath_def to_handler_def zero_route_config_def demo_route_def MatchPrefix_def
      MatchEqual_def Let_def)

lemma to_handler_config [simp]:
  "rt_Filters (to_handler path k n) = []" "rt_Handler (to_handler path k n) = k" "rt_NextIfNotFound (to_handler path k n) = n"
  by (simp_all add: to_handler_def zero_route_config_def)

lemma demo_routes_built:
  "NewRoutes no_regexp 0 (demo_site [to_handler ''/'' ''hello'' False]) = Inr \<lparr>routes = [demo_route ''/'' ''hello'' False], route_cache = None\<rparr>"
  "NewRoutes no_regexp 0 (demo_site [to_handler ''/'' ''missing'' True, to_handler ''/'' ''gone'' False]) =
     Inr \<lparr>routes = [demo_route ''/'' ''missing'' True, demo_route ''/'' ''gone'' False], route_cache = None\<rparr>"
  "NewRoutes no_regexp 0 (demo_site [to_handler ''/x'' ''hello'' False, to_handler ''/'' ''missing'' True, to_handler ''/'' ''hello'' False]) =
     Inr \<lparr>routes = [demo_route ''/x'' ''hello'' False, demo_route ''/'' ''missing'' True, demo_route ''/'' ''hello'' False], route_cache = None\<rparr>"
  by (simp_all add: NewRoutes_def demo_site_def zero_config_def to_handler_route)

definition demo_envs :: "nat \<Rightarrow> route_env" where
  "demo_envs n = demo_env (int n)"

text \<open>C8. Filters gate the handler: whether or not the route rewrites the URI first, when its filters reject the
  request, the handlers, the redirect and the status of the route play no role (the outcome is the same whatever
  handlers the host has, and for every result with these filters and this rewritten URI), and the client gets the
  error status the rejecting filter set.\<close>

theorem rejected_requests_stop:
  fixes F :: "'c fasthttp" and c :: 'c and res :: Result
  defines "uri \<equiv> RewriteURIWithQueryString res (ctx_QueryString F c)"
  assumes "fasthttp_ok F" "hh_wf F h" "declared h res"
    and reject: "request_filters h (Filters res) (if uri \<noteq> [] then req_SetRequestURI F uri c else c) = Inr (False, c1)"
  shows "\<exists>p c'. (\<forall>hs res'. Filters res' = Filters res \<longrightarrow> RewriteURIWithQueryString res' (ctx_QueryString F c) = uri \<longrightarrow>
      handleRouteResult F (h\<lparr>hh_handlers := hs\<rparr>) c res' = Inr (h\<lparr>hh_handlers := hs, errorPages := p\<rparr>, c')) \<and>
    resp_StatusCode F c' = resp_StatusCode F c1 \<and> 400 \<le> resp_StatusCode F c' \<and> resp_StatusCode F c' < 600"
proof -
  obtain p c' where hp: "Handle F (errorPages h) c1 = Inr (p, c')" "resp_StatusCode F c' = resp_StatusCode F c1"
    using Handle_total [OF assms(2), of "errorPages h" c1] assms(3) by (auto simp: hh_wf_def)
  have range: "in_range (resp_StatusCode F c1)"
  proof -
    have "\<forall>f fi. hh_filters h f = Some fi \<longrightarrow> request_filter F fi" "\<forall>f \<in> List.set (Filters res). hh_filters h f \<noteq> None"
      using assms(3,4) by (simp_all add: hh_wf_def declared_def)
    from request_filters_return [OF assms(2) this] reject show ?thesis
      by (metis Inr_inject prod.inject)
  qed
  have same: "request_filters (h\<lparr>hh_handlers := hs\<rparr>) fs c = request_filters h fs c" for hs fs c
    by (induction fs arbitrary: c) (auto split: option.split intro!: arg_cong2 [where f = go_bind])
  have "handleRouteResult F (h\<lparr>hh_handlers := hs\<rparr>) c res' = Inr (h\<lparr>hh_handlers := hs, errorPages := p\<rparr>, c')"
    if "Filters res' = Filters res" "RewriteURIWithQueryString res' (ctx_QueryString F c) = uri" for hs res'
    using hp reject unfolding handleRouteResult_def Let_def that same
    by (simp add: handle_error_page_def)
  then show ?thesis
    using hp(2) range by (intro exI [of _ p] exI [of _ c']) (simp add: in_range_def)
qed

text \<open>A route that rewrites the URI, on a host whose filter asks for credentials.\<close>

theorem rejected_requests_stop_witness:
  "\<exists>p c'. handleRouteResult ref_fasthttp ((demo_host [] \<lparr>routes = [], route_cache = None\<rparr>)\<lparr>hh_handlers := (\<lambda>_. Some hello)\<rparr>)
     (ref_request ''GET'' ''/'') (zero_result\<lparr>Filters := [''auth''], Handler := ''hello'', RewriteURI := ''/new''\<rparr>) =
     Inr ((demo_host [] \<lparr>routes = [], route_cache = None\<rparr>)\<lparr>hh_handlers := (\<lambda>_. Some hello), errorPages := p\<rparr>, c') \<and>
   resp_StatusCode ref_fasthttp c' = 401"
proof -
  let ?h = "demo_host [] \<lparr>routes = [], route_cache = None\<rparr>"
  let ?res = "zero_result\<lparr>Filters := [''auth''], Handler := ''hello'', RewriteURI := ''/new''\<rparr>"
  let ?c = "ref_request ''GET'' ''/''"
  let ?uri = "RewriteURIWithQueryString ?res (ctx_QueryString ref_fasthttp ?c)"
  have built: "NewRoutes no_regexp 0 (demo_site []) = Inr \<lparr>routes = [], route_cache = None\<rparr>"
    by (simp add: NewRoutes_def demo_site_def zero_config_def)
  have "req_Peek ref_fasthttp ''Authorization'' (if ?uri \<noteq> [] then req_SetRequestURI ref_fasthttp ?uri ?c else ?c) = []"
    by (simp add: ref_defs SplitRequestURI_def Let_def)
  then obtain c1 where c1: "request_filters ?h (Filters ?res) (if ?uri \<noteq> [] then req_SetRequestURI ref_fasthttp ?uri ?c else ?c) =
      Inr (False, c1)" "resp_StatusCode ref_fasthttp c1 = 401"
    by (simp add: demo_host_def demo_auth_filter_def BasicAuthFilter_filter_def BasicAuthFilter_Request_def
        unauthorized_def ref_fasthttp_def Let_def)
  have dec: "declared ?h ?res"
    by (simp add: declared_def demo_host_def)
  show ?thesis
    using rejected_requests_stop [OF ref_fasthttp_ok demo_host_wf [OF built] dec c1(1)] c1(2) by auto
qed

section \<open>The loop over routes\<close>

text \<open>
  The retry the code means: \<open>RouteIndex\<close> counts from the start offset, so the absolute position of the
  matched route is \<open>off + RouteIndex\<close>; \<open>nextIfNotFound\<close> of that route is asked, and the next search
  starts after it.
\<close>

definition intended_pass :: "'c fasthttp \<Rightarrow> maphash \<Rightarrow> route_env \<Rightarrow> ('t, 'c) hostHandler \<Rightarrow> result_pool \<Rightarrow> 'c \<Rightarrow> nat \<Rightarrow>
    (bool \<times> ('t, 'c) hostHandler \<times> result_pool \<times> 'c \<times> nat) go" where
  "intended_pass F mh env h pool ctx off =
     (let (result, rs, pool) = CachedRoute mh env (hh_routes h) pool (ctx_Method F ctx) (ctx_Path F ctx) off
      in go_bind (handleRouteResult F (h\<lparr>hh_routes := rs\<rparr>) ctx result) (\<lambda>(h, ctx).
           let at = off + nat (RouteIndex result);
               pool = Release result pool
           in if StatusCode result \<noteq> 404 \<and> resp_StatusCode F ctx = 404 \<and> IsNextIfNotFound (hh_routes h) at
              then Inr (True, h, pool, resp_Reset F ctx, at + 1)
              else Inr (False, h, pool, ctx, at)))"

partial_function (option) intended_loop :: "'c fasthttp \<Rightarrow> maphash \<Rightarrow> (nat \<Rightarrow> route_env) \<Rightarrow> nat \<Rightarrow> ('t, 'c) hostHandler \<Rightarrow>
    result_pool \<Rightarrow> 'c \<Rightarrow> nat \<Rightarrow> (('t, 'c) hostHandler \<times> result_pool \<times> 'c) go option" where
  "intended_loop F mh envs n h pool ctx off =
     (let r = intended_pass F mh (envs n) h pool ctx off
      in if isl r then Some (Inl (projl r))
         else
           let (continue, h', pool', ctx', off') = projr r
           in if continue then intended_loop F mh envs (Suc n) h' pool' ctx' off'
              else Some (Inr (h', pool', ctx')))"

lemma intended_loop_unfold:
  "intended_loop F mh envs n h pool c off =
     (case intended_pass F mh (envs n) h pool c off of
        Inl e \<Rightarrow> Some (Inl e)
      | Inr (go_on, h', pool', c', off') \<Rightarrow>
          if go_on then intended_loop F mh envs (Suc n) h' pool' c' off' else Some (Inr (h', pool', c')))"
  by (subst intended_loop.simps) (auto simp: Let_def split: sum.split)

lemma intended_pass_start: "intended_pass F mh env h pool c 0 = handle_pass F mh env h pool c 0"
  by (simp add: intended_pass_def handle_pass_def)

text \<open>A result that ends with a route has that route's position.\<close>

lemma visit_index: "RouteIndex (visit res (i, r, p)) = int i"
  by (simp add: Let_def)

lemma route_loop_index:
  "StatusCode (route_loop m rs i p res) \<noteq> 404 \<Longrightarrow>
     int i \<le> RouteIndex (route_loop m rs i p res) \<and> RouteIndex (route_loop m rs i p res) < int (i + length rs)"
proof (induction rs arbitrary: i p res)
  case (Cons r rs)
  show ?case
  proof (cases "Match r m p")
    case False
    with Cons.IH [of "Suc i" p res] Cons.prems show ?thesis by simp
  next
    case True
    have "\<exists>p' res'. route_loop m (r # rs) i p res = route_loop m rs (Suc i) p' res' \<or>
        (RouteIndex (route_loop m (r # rs) i p res) = int i)"
      unfolding route_loop_match [OF True] by (cases "stops r p") (auto simp: visit_index simp del: visit.simps)
    moreover have ?thesis if "route_loop m (r # rs) i p res = route_loop m rs (Suc i) p' res'" for p' res'
      using Cons.IH [of "Suc i" p' res'] Cons.prems that by simp
    ultimately show ?thesis by auto
  qed
qed simp

lemma route_value_index:
  assumes "StatusCode (route_value rs m p off) \<noteq> 404"
  shows "0 \<le> RouteIndex (route_value rs m p off) \<and> off + nat (RouteIndex (route_value rs m p off)) < length (routes rs)"
proof -
  have "route_value rs m p off = route_loop m (drop off (routes rs)) 0 p zero_result"
    by (rule route_value_loop)
  with assms route_loop_index [of m "drop off (routes rs)" 0 p zero_result] show ?thesis
    by auto
qed

lemma CachedRoute_uncached:
  assumes "route_cache rs = None" "pool_ok pool"
  shows "\<exists>pool'. CachedRoute mh env rs pool m p off = (route_value rs m p off, rs, pool') \<and> pool_ok pool'"
  using assms Route_fst [OF assms(2), of "env_pick env" rs m p off] Route_snd [OF assms(2), of "env_pick env" rs m p off]
  by (auto simp: CachedRoute_def split: prod.splits)

text \<open>What a pass that continues shows.\<close>

lemma handle_pass_again:
  assumes "route_cache (hh_routes h) = None" "pool_ok pool" "fasthttp_ok F" "hh_wf F h"
    and "handle_pass F mh env h pool c off = Inr (True, h', pool', c', off')"
  shows "\<exists>j. off' = Suc j \<and> off + j < length (routes (hh_routes h)) \<and> nextIfNotFound (routes (hh_routes h) ! j) \<and>
    j < length (routes (hh_routes h)) \<and> route_cache (hh_routes h') = None"
proof -
  let ?r = "route_value (hh_routes h) (ctx_Method F c) (ctx_Path F c) off"
  obtain pool1 where cr: "CachedRoute mh env (hh_routes h) pool (ctx_Method F c) (ctx_Path F c) off = (?r, hh_routes h, pool1)"
    using CachedRoute_uncached [OF assms(1,2)] by blast
  obtain x where "handleRouteResult F h c ?r = Inr x"
    using assms(5) by (auto simp: handle_pass_def cr go_bind_Inr_iff)
  then obtain p c1 where hr: "handleRouteResult F h c ?r = Inr (h\<lparr>errorPages := p\<rparr>, c1)"
    using handleRouteResult_returns [OF assms(3), of h ?r c] assms(4) by (cases x) (auto simp: hh_wf_def)
  have 404: "StatusCode ?r \<noteq> 404" and next_ok: "IsNextIfNotFound (hh_routes h) (nat (RouteIndex ?r))"
    and eqs: "off' = nat (RouteIndex ?r) + 1" "h' = h\<lparr>errorPages := p\<rparr>"
    using assms(5) hr by (auto simp: handle_pass_def cr Let_def split: if_splits)
  from route_value_index [OF 404] next_ok eqs assms(1) show ?thesis
    by (auto simp: IsNextIfNotFound_def split: if_splits)
qed

text \<open>The two notions of a pass differ only in whose \<open>nextIfNotFound\<close> they ask.\<close>

lemma passes_stop:
  assumes "route_cache (hh_routes h) = None" "pool_ok pool" "fasthttp_ok F" "hh_wf F h"
    and "\<And>j. off + j < length (routes (hh_routes h)) \<Longrightarrow>
      \<not> nextIfNotFound (routes (hh_routes h) ! j) \<and> \<not> nextIfNotFound (routes (hh_routes h) ! (off + j))"
  shows "(\<exists>h' pool' c' i i'. handle_pass F mh env h pool c off = Inr (False, h', pool', c', i) \<and>
      intended_pass F mh env h pool c off = Inr (False, h', pool', c', i')) \<or>
    (\<exists>e. handle_pass F mh env h pool c off = Inl e \<and> intended_pass F mh env h pool c off = Inl e \<and> handler_panic h e)"
proof -
  let ?r = "route_value (hh_routes h) (ctx_Method F c) (ctx_Path F c) off"
  obtain pool1 where cr: "CachedRoute mh env (hh_routes h) pool (ctx_Method F c) (ctx_Path F c) off = (?r, hh_routes h, pool1)"
    using CachedRoute_uncached [OF assms(1,2)] by blast
  have 404: "StatusCode ?r \<noteq> 404 \<Longrightarrow> \<not> IsNextIfNotFound (hh_routes h) (nat (RouteIndex ?r)) \<and>
      \<not> IsNextIfNotFound (hh_routes h) (off + nat (RouteIndex ?r))"
    using route_value_index [of "hh_routes h" "ctx_Method F c" "ctx_Path F c" off] assms(5)
    by (simp add: IsNextIfNotFound_def)
  have hr: "case handleRouteResult F h c ?r of
      Inl e \<Rightarrow> handler_panic h e | Inr (h', c') \<Rightarrow> \<exists>p. h' = h\<lparr>errorPages := p\<rparr> \<and> pages_wf p"
    using handleRouteResult_returns [OF assms(3), of h ?r c] assms(4) by (auto simp: hh_wf_def)
  show ?thesis
  proof (cases "handleRouteResult F h c ?r")
    case (Inl e)
    with hr show ?thesis
      by (simp add: handle_pass_def intended_pass_def cr)
  next
    case (Inr x)
    with hr obtain p c1 where "handleRouteResult F h c ?r = Inr (h\<lparr>errorPages := p\<rparr>, c1)"
      by (cases x) auto
    with 404 show ?thesis
      by (auto simp: handle_pass_def intended_pass_def cr Let_def)
  qed
qed

definition single_late_retry :: "Route list \<Rightarrow> bool" where
  "single_late_retry rs \<longleftrightarrow> (\<forall>i < length rs. nextIfNotFound (rs ! i) \<longrightarrow>
     length rs \<le> 2 * i + 1 \<and> (\<forall>k < length rs. nextIfNotFound (rs ! k) \<longrightarrow> k = i))"

text \<open>C6. Where the retry is right: with the route cache off and at most one \<open>nextIfNotFound\<close> route, with
  no more routes after it than before it, the loop of \<open>Handle\<close> ends for every request, and exactly as
  the retry over absolute route positions does: with an answer, unless a handler of the host panics.\<close>

theorem handle_retry_right:
  assumes "fasthttp_ok F" "hh_wf F h" "pool_ok pool"
    and "route_cache (hh_routes h) = None" "single_late_retry (routes (hh_routes h))"
  shows "handle_loop F mh envs 0 h pool c 0 = intended_loop F mh envs 0 h pool c 0 \<and>
    ((\<exists>h' pool' c'. handle_loop F mh envs 0 h pool c 0 = Some (Inr (h', pool', c'))) \<or>
     (\<exists>e. handle_loop F mh envs 0 h pool c 0 = Some (Inl e) \<and> handler_panic h e))"
proof (cases "handle_pass F mh (envs 0) h pool c 0")
  case (Inl e)
  then show ?thesis
    unfolding handle_loop_unfold [of F mh envs 0] intended_loop_unfold [of F mh envs 0]
    using handle_pass_panics [OF assms(1-3)] by (simp add: intended_pass_start)
next
  case (Inr r)
  then obtain again h1 pool1 c1 off1 where p0: "handle_pass F mh (envs 0) h pool c 0 = Inr (again, h1, pool1, c1, off1)"
    by (metis prod_cases5)
  note keep = handle_pass_keeps [OF assms(1-3) p0]
  show ?thesis
  proof (cases again)
    case False
    then show ?thesis
      unfolding handle_loop_unfold [of F mh envs 0] intended_loop_unfold [of F mh envs 0]
      by (simp add: intended_pass_start p0)
  next
    case True
    let ?rs = "routes (hh_routes h)"
    obtain m where m: "off1 = Suc m" "m < length ?rs" "nextIfNotFound (?rs ! m)" "route_cache (hh_routes h1) = None"
      using handle_pass_again [OF assms(4,3,1,2)] p0 True by fastforce
    have rs: "routes (hh_routes h1) = ?rs"
      using same_host_fields keep by blast
    have "\<not> nextIfNotFound (?rs ! j) \<and> \<not> nextIfNotFound (?rs ! (off1 + j))" if "off1 + j < length ?rs" for j
    proof -
      have "length ?rs \<le> 2 * m + 1" and only: "\<And>k. k < length ?rs \<Longrightarrow> nextIfNotFound (?rs ! k) \<Longrightarrow> k = m"
        using assms(5) m(2,3) by (auto simp: single_late_retry_def)
      with that m(1) have "j \<noteq> m" "off1 + j \<noteq> m" "j < length ?rs" by simp_all
      with only that show ?thesis by blast
    qed
    then have "(\<exists>h2 pool2 c2 i i'. handle_pass F mh (envs 1) h1 pool1 c1 off1 = Inr (False, h2, pool2, c2, i) \<and>
        intended_pass F mh (envs 1) h1 pool1 c1 off1 = Inr (False, h2, pool2, c2, i')) \<or>
      (\<exists>e. handle_pass F mh (envs 1) h1 pool1 c1 off1 = Inl e \<and> intended_pass F mh (envs 1) h1 pool1 c1 off1 = Inl e \<and>
        handler_panic h1 e)"
      using passes_stop [OF m(4) _ assms(1), of pool1 off1 mh "envs 1" c1] keep rs by auto
    then have "handle_loop F mh envs 1 h1 pool1 c1 off1 = intended_loop F mh envs 1 h1 pool1 c1 off1 \<and>
        ((\<exists>h' pool' c'. handle_loop F mh envs 1 h1 pool1 c1 off1 = Some (Inr (h', pool', c'))) \<or>
         (\<exists>e. handle_loop F mh envs 1 h1 pool1 c1 off1 = Some (Inl e) \<and> handler_panic h1 e))"
      unfolding handle_loop_unfold [of F mh envs 1] intended_loop_unfold [of F mh envs 1] by auto
    then show ?thesis
      unfolding handle_loop_unfold [of F mh envs 0] intended_loop_unfold [of F mh envs 0]
      using True same_host_panics [of h1 h] keep by (simp add: intended_pass_start p0) metis
  qed
qed

theorem handle_retry_right_witness:
  "\<exists>h' pool' c'. handle_loop ref_fasthttp (\<lambda>_. 0) demo_envs 0
     (demo_host [to_handler ''/x'' ''hello'' False, to_handler ''/'' ''missing'' True, to_handler ''/'' ''hello'' False]
       \<lparr>routes = [demo_route ''/x'' ''hello'' False, demo_route ''/'' ''missing'' True, demo_route ''/'' ''hello'' False], route_cache = None\<rparr>)
     [] (ref_request ''GET'' ''/'') 0 = Some (Inr (h', pool', c'))"
proof -
  let ?h = "demo_host [to_handler ''/x'' ''hello'' False, to_handler ''/'' ''missing'' True, to_handler ''/'' ''hello'' False]
       \<lparr>routes = [demo_route ''/x'' ''hello'' False, demo_route ''/'' ''missing'' True, demo_route ''/'' ''hello'' False], route_cache = None\<rparr>"
  have "route_cache (hh_routes ?h) = None" "single_late_retry (routes (hh_routes ?h))"
    by (simp_all add: demo_host_def single_late_retry_def demo_route_def All_less_Suc numeral_eq_Suc)
  moreover have "\<not> handler_panic ?h e" for e
    by (auto simp: handler_panic_def demo_host_def not_found_def hello_def split: if_splits)
  ultimately show ?thesis
    using handle_retry_right [OF ref_fasthttp_ok demo_host_wf [OF demo_routes_built(3)] pool_ok_Nil] by blast
qed

text \<open>What the next theorem assumes of a route: it matches and just names a handler.\<close>

definition plain_route :: "bytes \<Rightarrow> bytes \<Rightarrow> string \<Rightarrow> Route \<Rightarrow> bool" where
  "plain_route m p k r \<longleftrightarrow> Match r m p \<and> filters r = [] \<and> rewriteUriBytes r = [] \<and> statusCode r = 0 \<and>
     statusMessageBytes r = [] \<and> handler r = k \<and> k \<noteq> []"

lemma plain_route_value:
  assumes "plain_route m p k r" "drop off (routes rs) = r # rest"
  shows "route_value rs m p off = zero_result\<lparr>Handler := k\<rparr>"
proof -
  have "rewrite r p = []"
    using assms(1) by (simp add: rewrite_def plain_route_def split: option.split)
  with assms show ?thesis
    by (simp add: route_value_loop plain_route_def Let_def zero_result_def)
qed

text \<open>Method and path of the request, which neither handler nor error page touches.\<close>

definition on_request :: "'c fasthttp \<Rightarrow> bytes \<Rightarrow> bytes \<Rightarrow> 'c \<Rightarrow> bool" where
  "on_request F m p c \<longleftrightarrow> ctx_Method F c = m \<and> ctx_Path F c = p"

definition keeps_request :: "'c fasthttp \<Rightarrow> bytes \<Rightarrow> bytes \<Rightarrow> bool" where
  "keeps_request F m p \<longleftrightarrow> (\<forall>c. on_request F m p c \<longrightarrow>
     on_request F m p (resp_Reset F c) \<and> (\<forall>t. on_request F m p (resp_SetContentType F t c)) \<and>
     (\<forall>b. on_request F m p (resp_SetBody F b c)))"

definition always_404 :: "'c fasthttp \<Rightarrow> bytes \<Rightarrow> bytes \<Rightarrow> 'c request_handler \<Rightarrow> bool" where
  "always_404 F m p f \<longleftrightarrow> (\<forall>c. on_request F m p c \<longrightarrow>
     (\<exists>c'. f c = Inr c' \<and> resp_StatusCode F c' = 404 \<and> on_request F m p c'))"

lemma plain_result:
  assumes "fasthttp_ok F" "keeps_request F m p" "on_request F m p c" "page_fs (errorPages h) = None"
    and "hh_handlers h k = Some f" "always_404 F m p f" "k \<noteq> []"
  shows "\<exists>c'. handleRouteResult F h c (zero_result\<lparr>Handler := k\<rparr>) = Inr (h, c') \<and> resp_StatusCode F c' = 404 \<and>
    on_request F m p c'"
proof -
  obtain d where f: "f c = Inr d" "resp_StatusCode F d = 404" "on_request F m p d"
    using assms(3,6) by (auto simp: always_404_def)
  let ?c = "SendDefaultError F d"
  have "Handle F (errorPages h) d = Inr (errorPages h, ?c)"
    using Handle_no_pages [OF assms(4), of F d] f(2) by (simp add: in_range_def)
  then have "handleRouteResult F h c (zero_result\<lparr>Handler := k\<rparr>) = Inr (h, ?c)"
    using assms(5,7) f(1) by (simp add: handleRouteResult_def RewriteURIWithQueryString_def RedirectURIWithQueryString_def
        zero_result_def route_content_def handle_error_page_def Let_def)
  moreover have "on_request F m p ?c"
    using assms(2) f(3) by (simp add: SendDefaultError_def Let_def keeps_request_def)
  ultimately show ?thesis
    using f(2) assms(1) by simp
qed

text \<open>C5. Where the retry is wrong: \<open>Handle\<close> takes \<open>RouteIndex\<close>, which counts from the start offset, for
  a position in the table. With a table of two catch-all routes, a \<open>nextIfNotFound\<close> handler and its
  fallback, a request both answer with 404 is never answered: the loop asks the first route's flag
  again after every turn and never ends.\<close>

theorem retry_never_ends:
  assumes "fasthttp_ok F" "keeps_request F m p" "on_request F m p (al_Collect (accessLog h) c)"
    and "routes (hh_routes h) = [r0, r1]" "route_cache (hh_routes h) = None" "page_fs (errorPages h) = None"
    and "plain_route m p k0 r0" "plain_route m p k1 r1" "nextIfNotFound r0"
    and "hh_handlers h k0 = Some f0" "always_404 F m p f0"
    and "hh_handlers h k1 = Some f1" "always_404 F m p f1"
  shows "hostHandler_Handle F mh envs h [] c = None"
proof -
  have turn: "\<exists>pool' c'. handle_pass F mh (envs n) h pool c off = Inr (True, h, pool', c', 1) \<and> pool_ok pool' \<and>
      on_request F m p c'"
    if "off \<le> 1" "pool_ok pool" "on_request F m p c" for n pool c off
  proof -
    note off = that(1) and pool = that(2) and req = that(3)
    obtain k f where k: "route_value (hh_routes h) m p off = zero_result\<lparr>Handler := k\<rparr>" "k \<noteq> []"
        "hh_handlers h k = Some f" "always_404 F m p f"
    proof (cases "off = 0")
      case True
      with off show ?thesis
        using plain_route_value [OF assms(7), of off "hh_routes h" "[r1]"] assms(4,7,10,11) that
        by (simp add: plain_route_def)
    next
      case False
      with off show ?thesis
        using plain_route_value [OF assms(8), of off "hh_routes h" "[]"] le_Suc_eq [of off 0] assms(4,8,12,13) that
        by (simp add: plain_route_def)
    qed
    obtain pool1 where cr: "CachedRoute mh (envs n) (hh_routes h) pool m p off = (zero_result\<lparr>Handler := k\<rparr>, hh_routes h, pool1)"
        "pool_ok pool1"
      using CachedRoute_uncached [OF assms(5) pool, of mh "envs n" m p off] k(1) by auto
    obtain c1 where c1: "handleRouteResult F h c (zero_result\<lparr>Handler := k\<rparr>) = Inr (h, c1)" "resp_StatusCode F c1 = 404"
        "on_request F m p c1"
      using plain_result [OF assms(1,2) req assms(6) k(3,4,2)] by blast
    have "on_request F m p (resp_Reset F c1)"
      using c1(3) assms(2) by (simp add: keeps_request_def)
    moreover have "IsNextIfNotFound (hh_routes h) 0"
      using assms(4,9) by (simp add: IsNextIfNotFound_def)
    moreover have "ctx_Method F c = m" "ctx_Path F c = p"
      using req by (simp_all add: on_request_def)
    ultimately show ?thesis
      using cr c1 by (simp add: handle_pass_def zero_result_def Let_def)
  qed
  have never: "\<not> (off \<le> 1 \<and> pool_ok pool \<and> on_request F m p c \<and> h' = h)"
    if "handle_loop F mh envs n h' pool c off = Some y" for n h' pool c off y
  proof (induction rule: handle_loop_turns [OF that])
    case (1 n h' pool c off e)
    then show ?case using turn [of off pool c n] by auto
  next
    case (2 n h' pool c off h'' pool' c' off')
    then show ?case using turn [of off pool c n] by auto
  next
    case (3 n h' pool c off h'' pool' c' off' y)
    then show ?case using turn [of off pool c n] by auto
  qed
  have "handle_loop F mh envs 0 h [] (al_Collect (accessLog h) c) 0 = None"
  proof (cases "handle_loop F mh envs 0 h [] (al_Collect (accessLog h) c) 0")
    case (Some y)
    from never [OF this] assms(3) show ?thesis by simp
  qed
  then show ?thesis
    by (simp add: hostHandler_Handle_def)
qed

theorem retry_never_ends_witness:
  "hostHandler_Handle ref_fasthttp (\<lambda>_. 0) demo_envs
     (demo_host [to_handler ''/'' ''missing'' True, to_handler ''/'' ''gone'' False]
       \<lparr>routes = [demo_route ''/'' ''missing'' True, demo_route ''/'' ''gone'' False], route_cache = None\<rparr>)
     [] (ref_request ''GET'' ''/nothing'') = None"
proof -
  let ?h = "demo_host [to_handler ''/'' ''missing'' True, to_handler ''/'' ''gone'' False]
       \<lparr>routes = [demo_route ''/'' ''missing'' True, demo_route ''/'' ''gone'' False], route_cache = None\<rparr>"
  have keeps: "keeps_request ref_fasthttp ''GET'' ''/nothing''"
    by (simp add: keeps_request_def on_request_def ref_fasthttp_def)
  have plain: "plain_route ''GET'' ''/nothing'' k (demo_route ''/'' k n)" if "k \<noteq> []" for k n
    using that by (simp add: plain_route_def demo_route_def Match_def matchMethods_def HasPrefix_def)
  have nf: "always_404 ref_fasthttp ''GET'' ''/nothing'' not_found"
    by (simp add: always_404_def on_request_def ref_fasthttp_def not_found_def)
  have start: "on_request ref_fasthttp ''GET'' ''/nothing'' (al_Collect (accessLog ?h) (ref_request ''GET'' ''/nothing''))"
    by (simp add: on_request_def ref_defs SplitRequestURI_def Let_def demo_host_def quiet_log_def)
  have h: "routes (hh_routes ?h) = [demo_route ''/'' ''missing'' True, demo_route ''/'' ''gone'' False]"
    "route_cache (hh_routes ?h) = None" "page_fs (errorPages ?h) = None"
    "hh_handlers ?h ''missing'' = Some not_found" "hh_handlers ?h ''gone'' = Some not_found"
    by (simp_all add: demo_host_def NewErrorPages_def)
  have flag: "nextIfNotFound (demo_route ''/'' ''missing'' True)"
    by (simp add: demo_route_def)
  show ?thesis
    by (rule retry_never_ends [OF ref_fasthttp_ok keeps start h(1-3) plain plain flag h(4) nf h(5) nf]) simp_all
qed

section \<open>Choosing the host\<close>

lemma find_host_spec:
  "find_host host hs i = (case find (\<lambda>(j, h). hostBytes h = host) (enumerate i hs) of None \<Rightarrow> None | Some (j, h) \<Rightarrow> Some j)"
  by (induction hs arbitrary: i) auto

lemma find_host_range: "find_host host hs i = Some k \<Longrightarrow> i \<le> k \<and> k < i + length hs \<and> hostBytes (hs ! (k - i)) = host \<and>
    (\<forall>j < k - i. hostBytes (hs ! j) \<noteq> host)"
proof (induction hs arbitrary: i)
  case (Cons h hs)
  show ?case
  proof (cases "host = hostBytes h")
    case True
    with Cons.prems show ?thesis by auto
  next
    case False
    with Cons.prems have f: "find_host host hs (Suc i) = Some k" by simp
    have "k - i = Suc (k - Suc i)"
      using Cons.IH [OF f] by linarith
    with Cons.IH [OF f] False show ?thesis
      by (auto simp: nth_Cons split: nat.split)
  qed
qed simp

lemma find_host_None: "find_host host hs i = None \<longleftrightarrow> (\<forall>h \<in> List.set hs. hostBytes h \<noteq> host)"
  by (induction hs arbitrary: i) auto

text \<open>C16. Virtual hosts: a request for \<open>name\<close> or \<open>name:port\<close> goes to the first host configured with that
  name, and to the first host of the listener if there is none.\<close>

theorem virtual_host_choice:
  assumes "hs \<noteq> []" "CHR '':'' \<notin> List.set name" "port = [] \<or> hd port = CHR '':''"
  shows "\<exists>k < length hs. virtualHandler_handler hs (name @ port) = Inr k \<and>
    (if \<exists>h \<in> List.set hs. hostBytes h = name
     then hostBytes (hs ! k) = name \<and> (\<forall>j < k. hostBytes (hs ! j) \<noteq> name) else k = 0)"
proof -
  have host: "(if IndexByte (name @ port) (CHR '':'') \<noteq> - 1
      then take (nat (IndexByte (name @ port) (CHR '':''))) (name @ port) else name @ port) = name"
  proof (cases port)
    case Nil
    then show ?thesis using assms(2) by (simp add: IndexByte_absent)
  next
    case (Cons c rest)
    with assms(3) have "name @ port = name @ CHR '':'' # rest" by simp
    then show ?thesis using IndexByte_split [OF assms(2), of rest] by simp
  qed
  consider (one) h where "hs = [h]" | (more) "length hs > 1"
    using assms(1) by (cases hs; cases "tl hs") auto
  then show ?thesis
  proof cases
    case one
    then show ?thesis
      by (auto simp: virtualHandler_handler_def Let_def)
  next
    case more
    show ?thesis
    proof (cases "find_host name hs 0")
      case None
      then show ?thesis
        using more find_host_None [of name hs 0] unfolding virtualHandler_handler_def Let_def host by auto
    next
      case (Some k)
      then have "\<exists>h \<in> List.set hs. hostBytes h = name"
        using find_host_None [of name hs 0] by auto
      with Some show ?thesis
        using more find_host_range [OF Some] unfolding virtualHandler_handler_def Let_def host by auto
    qed
  qed
qed

theorem virtual_host_choice_witness:
  "let h = demo_host [] \<lparr>routes = [], route_cache = None\<rparr>
   in virtualHandler_handler [h, h\<lparr>hostBytes := ''b.org''\<rparr>] ''b.org:8080'' = Inr 1"
proof -
  let ?h = "demo_host [] \<lparr>routes = [], route_cache = None\<rparr>"
  have "hostBytes ?h = []" by (simp add: demo_host_def)
  then show ?thesis
    using virtual_host_choice [of "[?h, ?h\<lparr>hostBytes := ''b.org''\<rparr>]" "''b.org''" "'':8080''"]
    by (auto simp: less_Suc_eq)
qed

end
