(* ===== verification/Content.thy ===== *)
theory Content
  imports CtxApi ConfigTree
begin

text \<open>
  The content handler of \<open>pkg/handler/content.go\<close>: its construction from the configuration tree and the
  choice, per request, of the first condition that holds. \<open>contentRandomPercentage\<close> is the stream
  \<open>draws\<close>: a turn that asks for a percentage takes the next draw. \<open>parse_args\<close> is fasthttp's parser of
  query strings.
\<close>

section \<open>Model\<close>

type_synonym contentHeader = "bytes \<times> bytes"

record contentResponse =
  headers :: "contentHeader list"
  body :: "bytes option"
  cr_statusCode :: int
  hasStatus :: bool

datatype contentConditionKind = condKindNone | condKindPath | condKindQuery | condKindPercentage

record contentCondition =
  kind :: contentConditionKind
  cond_path :: bytes
  queryMatches :: "(bytes \<times> bytes) list"
  percentage :: int
  response :: contentResponse

record Content =
  defaultResponse :: contentResponse
  conditions :: "contentCondition list"

subsection \<open>Construction\<close>

text \<open>\<open>strings.SplitN(s, ": ", 2)\<close>: \<open>None\<close> when the separator does not occur.\<close>

fun split_colon_space :: "bytes \<Rightarrow> (bytes \<times> bytes) option" where
  "split_colon_space (a # b # s) =
     (if a = CHR '':'' \<and> b = CHR '' '' then Some ([], s)
      else case split_colon_space (b # s) of None \<Rightarrow> None | Some (k, v) \<Rightarrow> Some (a # k, v))"
| "split_colon_space s = None"

definition map_headers :: "'n tree_api \<Rightarrow> 'n \<Rightarrow> contentHeader list" where
  "map_headers T n = map (\<lambda>(k, v). (k, tn_String T v)) (tn_Map T n)"

definition array_header :: "'n tree_api \<Rightarrow> 'n \<Rightarrow> contentHeader list" where
  "array_header T v =
     (case tn_Type T v of
        TypeStringValue \<Rightarrow> (case split_colon_space (tn_String T v) of Some kv \<Rightarrow> [kv] | None \<Rightarrow> [])
      | TypeMap \<Rightarrow> map_headers T v
      | _ \<Rightarrow> [])"

definition appendContentHeaders :: "'n tree_api \<Rightarrow> contentHeader list \<Rightarrow> 'n \<Rightarrow> contentHeader list" where
  "appendContentHeaders T dst hs =
     (case tn_Type T hs of
        TypeMap \<Rightarrow> dst @ map_headers T hs
      | TypeArray \<Rightarrow> dst @ concat (map (array_header T) (tn_Array T hs))
      | _ \<Rightarrow> dst)"

definition buildContentResponse :: "'n tree_api \<Rightarrow> 'n \<Rightarrow> 'n option \<Rightarrow> contentResponse" where
  "buildContentResponse T cfg fallback =
     (let hs = tn_Get T ''headers'' cfg;
          hs = (case fallback of Some fb \<Rightarrow> (if tn_IsNil T hs then tn_Get T ''headers'' fb else hs) | None \<Rightarrow> hs)
      in \<lparr>headers = appendContentHeaders T [] hs,
          body = (if tn_Has T ''body'' cfg then Some (tn_String T (tn_Get T ''body'' cfg)) else None),
          cr_statusCode = (if tn_Has T ''status'' cfg then tn_Int T (tn_Get T ''status'' cfg) else 0),
          hasStatus = tn_Has T ''status'' cfg\<rparr>)"

definition buildContentCondition :: "'n tree_api \<Rightarrow> (string \<Rightarrow> (bytes \<times> bytes) list) \<Rightarrow> 'n \<Rightarrow> 'n option \<Rightarrow> contentCondition" where
  "buildContentCondition T parse_args cfg fallback =
     (let cc = \<lparr>kind = condKindNone, cond_path = [], queryMatches = [], percentage = 0,
                response = buildContentResponse T cfg fallback\<rparr>
      in if tn_Has T ''path'' cfg
         then cc\<lparr>kind := condKindPath, cond_path := tn_String T (tn_Get T ''path'' cfg)\<rparr>
         else if tn_Has T ''queryStringContains'' cfg
         then cc\<lparr>kind := condKindQuery,
                 queryMatches := parse_args (tn_String T (tn_Get T ''queryStringContains'' cfg))\<rparr>
         else let pct = tn_Int T (tn_Get T ''percentage'' cfg)
              in if pct > 0 then cc\<lparr>kind := condKindPercentage, percentage := pct\<rparr> else cc)"

definition NewContent :: "'n tree_api \<Rightarrow> (string \<Rightarrow> (bytes \<times> bytes) list) \<Rightarrow> 'n \<Rightarrow> Content" where
  "NewContent T parse_args cfg =
     \<lparr>defaultResponse = buildContentResponse T cfg None,
      conditions = map (\<lambda>c. buildContentCondition T parse_args c (Some cfg)) (tn_Array T (tn_Get T ''conditions'' cfg))\<rparr>"

subsection \<open>Handling\<close>

fun add_headers :: "'c fasthttp \<Rightarrow> contentHeader list \<Rightarrow> 'c \<Rightarrow> 'c" where
  "add_headers F [] ctx = ctx"
| "add_headers F ((k, v) # hs) ctx = add_headers F hs (resp_AddKV F k v ctx)"

definition writeTo :: "'c fasthttp \<Rightarrow> contentResponse \<Rightarrow> 'c \<Rightarrow> 'c" where
  "writeTo F r ctx =
     (let ctx = add_headers F (headers r) ctx;
          ctx = (case body r of Some b \<Rightarrow> resp_SetBodyRaw F b ctx | None \<Rightarrow> ctx)
      in if hasStatus r then resp_SetStatusCode F (cr_statusCode r) ctx else ctx)"

fun query_loop :: "'c fasthttp \<Rightarrow> (bytes \<times> bytes) list \<Rightarrow> 'c \<Rightarrow> bool" where
  "query_loop F [] ctx = True"
| "query_loop F ((k, v) # qs) ctx = (if req_QueryArg F k ctx \<noteq> v then False else query_loop F qs ctx)"

text \<open>Does the condition hold, given the draw it would take?\<close>

definition cond_holds :: "'c fasthttp \<Rightarrow> contentCondition \<Rightarrow> int \<Rightarrow> 'c \<Rightarrow> bool" where
  "cond_holds F cond draw ctx =
     (case kind cond of
        condKindPath \<Rightarrow> ctx_Path F ctx = cond_path cond
      | condKindQuery \<Rightarrow> query_loop F (queryMatches cond) ctx
      | condKindPercentage \<Rightarrow> draw \<le> percentage cond
      | condKindNone \<Rightarrow> False)"

fun conditions_loop :: "'c fasthttp \<Rightarrow> contentResponse \<Rightarrow> contentCondition list \<Rightarrow> (nat \<Rightarrow> int) \<Rightarrow> nat \<Rightarrow> 'c \<Rightarrow> 'c" where
  "conditions_loop F dflt [] draws n ctx = writeTo F dflt ctx"
| "conditions_loop F dflt (cond # conds) draws n ctx =
     (if cond_holds F cond (draws n) ctx then writeTo F (response cond) ctx
      else conditions_loop F dflt conds draws (if kind cond = condKindPercentage then Suc n else n) ctx)"

definition Content_Handle :: "'c fasthttp \<Rightarrow> Content \<Rightarrow> (nat \<Rightarrow> int) \<Rightarrow> 'c \<Rightarrow> 'c" where
  "Content_Handle F h draws ctx = conditions_loop F (defaultResponse h) (conditions h) draws 0 ctx"

section \<open>Which response\<close>

text \<open>The draw that condition \<open>i\<close> would take: one per percentage condition before it.\<close>

definition draw_index :: "contentCondition list \<Rightarrow> nat \<Rightarrow> nat" where
  "draw_index conds i = length (filter (\<lambda>c. kind c = condKindPercentage) (take i conds))"

definition chosen :: "'c fasthttp \<Rightarrow> Content \<Rightarrow> (nat \<Rightarrow> int) \<Rightarrow> 'c \<Rightarrow> contentResponse" where
  "chosen F h draws ctx =
     (case find (\<lambda>i. cond_holds F (conditions h ! i) (draws (draw_index (conditions h) i)) ctx) [0..<length (conditions h)] of
        Some i \<Rightarrow> response (conditions h ! i)
      | None \<Rightarrow> defaultResponse h)"

lemma find_cong_map: "find P (map f xs) = map_option f (find (P \<circ> f) xs)"
  by (induction xs) auto

lemma draw_index_0 [simp]: "draw_index conds 0 = 0"
  by (simp add: draw_index_def)

lemma draw_index_Suc:
  "draw_index (c # conds) (Suc i) = (if kind c = condKindPercentage then Suc (draw_index conds i) else draw_index conds i)"
  by (simp add: draw_index_def)

lemma conditions_loop_find:
  "conditions_loop F dflt conds draws n ctx =
     (case find (\<lambda>i. cond_holds F (conds ! i) (draws (n + draw_index conds i)) ctx) [0..<length conds] of
        Some i \<Rightarrow> writeTo F (response (conds ! i)) ctx
      | None \<Rightarrow> writeTo F dflt ctx)"
proof (induction conds arbitrary: n)
  case (Cons c conds)
  define m where "m = (if kind c = condKindPercentage then Suc n else n)"
  have up: "[0..<length (c # conds)] = 0 # map Suc [0..<length conds]"
    by (simp only: list.size map_Suc_upt upt_conv_Cons add_Suc_right zero_less_Suc One_nat_def add_0_right)
  have ix: "n + draw_index (c # conds) (Suc i) = m + draw_index conds i" for i
    by (simp add: draw_index_Suc m_def)
  show ?case
    unfolding up find.simps find_cong_map using Cons.IH [of m]
    by (auto simp: comp_def ix m_def [symmetric] split: option.split)
qed simp

lemma add_headers_keeps:
  "fasthttp_ok F \<Longrightarrow> same_response F (add_headers F hs ctx) ctx"
  by (induction hs arbitrary: ctx) (auto simp: same_response_def ctx_laws)

section \<open>Properties\<close>

text \<open>The content handler answers with the response of the first condition that holds (a path, all of
  its query arguments, or its draw), and with the default response if none does; the answer has that
  response's status and body where it declares them and leaves the others alone.\<close>

lemma content_first_match:
  assumes "fasthttp_ok F" "hasStatus (chosen F h draws ctx) \<longrightarrow> cr_statusCode (chosen F h draws ctx) \<noteq> 0"
  shows "Content_Handle F h draws ctx = writeTo F (chosen F h draws ctx) ctx \<and>
    resp_StatusCode F (Content_Handle F h draws ctx) =
      (if hasStatus (chosen F h draws ctx) then cr_statusCode (chosen F h draws ctx) else resp_StatusCode F ctx) \<and>
    resp_Body F (Content_Handle F h draws ctx) =
      (case body (chosen F h draws ctx) of Some b \<Rightarrow> b | None \<Rightarrow> resp_Body F ctx)"
proof -
  have w: "Content_Handle F h draws ctx = writeTo F (chosen F h draws ctx) ctx"
    by (simp add: Content_Handle_def conditions_loop_find chosen_def split: option.split)
  show ?thesis
    using assms(2) add_headers_keeps [OF assms(1), of "headers (chosen F h draws ctx)" ctx]
    unfolding w by (auto simp: writeTo_def Let_def ctx_laws [OF assms(1)] same_response_def split: option.split)
qed

definition demo_content :: rtree where
  "demo_content = RMap [(''body'', RStr ''default''), (''headers'', RMap [(''A'', RStr ''1'')]),
     (''conditions'', RArr [RMap [(''path'', RStr ''/x''), (''body'', RStr ''x''), (''status'', RInt 203)],
        RMap [(''percentage'', RInt 50), (''body'', RStr ''half'')]])]"

lemma content_first_match_witness:
  "resp_Body ref_fasthttp (Content_Handle ref_fasthttp (NewContent ref_tree ref_args demo_content) (\<lambda>_. 70) (ref_request ''GET'' ''/x'')) = ''x'' \<and>
   resp_StatusCode ref_fasthttp (Content_Handle ref_fasthttp (NewContent ref_tree ref_args demo_content) (\<lambda>_. 70) (ref_request ''GET'' ''/x'')) = 203"
proof -
  let ?h = "NewContent ref_tree ref_args demo_content"
  have ch: "chosen ref_fasthttp ?h (\<lambda>_. 70) (ref_request ''GET'' ''/x'') =
      \<lparr>headers = [(''A'', ''1'')], body = Some ''x'', cr_statusCode = 203, hasStatus = True\<rparr>"
    by (simp add: chosen_def NewContent_def demo_content_def ref_tree_def buildContentCondition_def buildContentResponse_def
        appendContentHeaders_def map_headers_def cond_holds_def ref_defs SplitRequestURI_def Let_def upt_conv_Cons)
  have "hasStatus (chosen ref_fasthttp ?h (\<lambda>_. 70) (ref_request ''GET'' ''/x'')) \<longrightarrow>
      cr_statusCode (chosen ref_fasthttp ?h (\<lambda>_. 70) (ref_request ''GET'' ''/x'')) \<noteq> 0"
    by (simp add: ch)
  from conjunct2 [OF content_first_match [OF ref_fasthttp_ok this]] show ?thesis
    by (simp add: ch)
qed

text \<open>The share of a percentage condition: of the 100 equally likely draws, a condition configured
  with \<open>percentage: p\<close> takes \<open>p + 1\<close> (all of them from 99 on), one percent more than configured.\<close>

lemma content_percentage_share:
  assumes "tn_Int T (tn_Get T ''percentage'' cfg) = p" "0 < p"
    and "\<not> tn_Has T ''path'' cfg" "\<not> tn_Has T ''queryStringContains'' cfg"
  shows "card {d \<in> {0..<100}. cond_holds F (buildContentCondition T parse_args cfg fallback) d ctx} = nat (min 100 (p + 1))"
proof -
  have "{d \<in> {0..<100}. cond_holds F (buildContentCondition T parse_args cfg fallback) d ctx} = {0..<min 100 (p + 1)}"
    using assms by (auto simp: buildContentCondition_def cond_holds_def Let_def)
  then show ?thesis by simp
qed

lemma content_percentage_share_witness:
  "card {d \<in> {0..<100}. cond_holds ref_fasthttp
     (buildContentCondition ref_tree ref_args (RMap [(''percentage'', RInt 50)]) None) d (ref_request ''GET'' ''/'')} = 51"
  using content_percentage_share [of ref_tree "RMap [(''percentage'', RInt 50)]" 50 ref_fasthttp ref_args None "ref_request ''GET'' ''/''"]
  by (simp add: ref_tree_def)

end
