(* ===== verification/Proxy.thy ===== *)
theory Proxy
  imports CtxApi ConfigTree "HOL-Library.Multiset"
begin

text \<open>
  The proxy handler and its balancer (\<open>pkg/handler/proxy.go\<close>, \<open>pkg/handler/balancer.go\<close>): construction,
  the choice of a backend, and the health checker. Requests and the checker run concurrently: the flag
  of a backend read at a turn of \<open>pick\<close>'s loop is whatever the checker last wrote, so \<open>pick\<close> takes the
  value of every read as an argument. The reverse proxies, \<open>url.Parse\<close>, the HEAD request and the random
  numbers are parameters. \<open>net.SplitHostPort\<close> and FNV-1a are modelled: the ip-hash choice rests on them.
\<close>

section \<open>Construction\<close>

definition algoRoundRobin :: string where
  "algoRoundRobin = ''round-robin''"

definition algoRandom :: string where
  "algoRandom = ''random''"

definition algoIPHash :: string where
  "algoIPHash = ''ip-hash''"

definition supportedAlgorithms :: "string list" where
  "supportedAlgorithms = [algoRoundRobin, algoRandom, algoIPHash]"

record 'u proxyBackend =
  be_url :: 'u
  alive :: bool

record 'u proxyBalancer =
  backends :: "'u proxyBackend list"
  algorithm :: string
  counter :: "64 word"

fun parse_backends :: "(string \<Rightarrow> string + 'u) \<Rightarrow> string list \<Rightarrow> string + 'u proxyBackend list" where
  "parse_backends parseURL [] = Inr []"
| "parse_backends parseURL (s # urls) =
     (case parseURL s of
        Inl err \<Rightarrow> Inl err
      | Inr u \<Rightarrow> (case parse_backends parseURL urls of
                   Inl err \<Rightarrow> Inl err
                 | Inr bs \<Rightarrow> Inr (\<lparr>be_url = u, alive = True\<rparr> # bs)))"

definition requireURL :: string where
  "requireURL = ''require '' @ [CHR 0x27] @ ''url'' @ [CHR 0x27] @ '' or '' @ [CHR 0x27] @ ''urls'' @ [CHR 0x27] @ '' entry''"

definition newProxyBalancer :: "(string \<Rightarrow> string + 'u) \<Rightarrow> string list \<Rightarrow> string \<Rightarrow> string + 'u proxyBalancer" where
  "newProxyBalancer parseURL urls algo =
     (if length urls = 0 then Inl requireURL
      else if algo \<notin> set supportedAlgorithms then Inl (''algorithm not supported: '' @ algo)
      else case parse_backends parseURL urls of
             Inl err \<Rightarrow> Inl err
           | Inr bs \<Rightarrow> Inr \<lparr>backends = bs, algorithm = algo, counter = 0\<rparr>)"

definition proxyURLs :: "'n tree_api \<Rightarrow> 'n \<Rightarrow> string + string list" where
  "proxyURLs T cfg =
     (let urls = tn_Array T (tn_Get T ''urls'' cfg)
      in if length urls = 0 then
           (let single = tn_String T (tn_Get T ''url'' cfg)
            in if single = [] then Inl requireURL else Inr [single])
         else Inr (map (tn_String T) urls))"

text \<open>
  The checker's period and the timeout of its requests, in nanoseconds; \<open>None\<close> when it is disabled. The product
  is a 64-bit \<open>Duration\<close> and wraps, and \<open>time.NewTicker\<close> panics on an interval that is not positive.
\<close>

definition startHealthCheck :: "int \<Rightarrow> (int \<times> int) option go" where
  "startHealthCheck intervalSec =
     (if intervalSec \<le> 0 then Inr None
      else let interval = i64 (intervalSec * 1000000000); timeout = min interval 5000000000
           in if interval \<le> 0 then Inl (PanicMsg ''non-positive interval for NewTicker'')
              else Inr (Some (interval, timeout)))"

text \<open>The balancer and what its health checker runs with, or an error, or the panic of \<open>startHealthCheck\<close>.\<close>

definition NewProxyHandler :: "'n tree_api \<Rightarrow> (string \<Rightarrow> string + 'u) \<Rightarrow> 'n \<Rightarrow>
    (string + 'u proxyBalancer \<times> (int \<times> int) option) go" where
  "NewProxyHandler T parseURL cfg =
     (case proxyURLs T cfg of
        Inl err \<Rightarrow> Inr (Inl (''failed to create proxy: '' @ err))
      | Inr urls \<Rightarrow>
          (let algo = tn_String T (tn_Get T ''algorithm'' cfg);
               algo = (if algo = [] then algoRoundRobin else algo)
           in case newProxyBalancer parseURL urls algo of
                Inl err \<Rightarrow> Inr (Inl (''failed to create proxy: '' @ err))
              | Inr b \<Rightarrow> go_bind (startHealthCheck (tn_Int T (tn_Get T ''healthCheckInterval'' cfg))) (\<lambda>check.
                           Inr (Inr (b, check)))))"

definition NewBalancerHandler :: "'n tree_api \<Rightarrow> (string \<Rightarrow> string + 'u) \<Rightarrow> 'n \<Rightarrow>
    (string + 'u proxyBalancer \<times> (int \<times> int) option) go" where
  "NewBalancerHandler = NewProxyHandler"

section \<open>Picking a backend\<close>

fun LastIndexByte :: "bytes \<Rightarrow> char \<Rightarrow> int" where
  "LastIndexByte [] c = - 1"
| "LastIndexByte (x # xs) c = (let i = LastIndexByte xs c in if i \<noteq> - 1 then i + 1 else if x = c then 0 else - 1)"

datatype addr_error = MissingPort | MissingBracket | TooManyColons | UnexpectedOpen | UnexpectedClose

text \<open>The host part of \<open>net.SplitHostPort\<close>.\<close>

definition SplitHostPort :: "bytes \<Rightarrow> addr_error + bytes" where
  "SplitHostPort hp =
     (let i = LastIndexByte hp (CHR '':'')
      in if i < 0 then Inl MissingPort
         else if hp ! 0 = CHR ''['' then
           (let e = IndexByte hp (CHR '']'')
            in if e < 0 then Inl MissingBracket
               else if e + 1 = int (length hp) then Inl MissingPort
               else if e + 1 \<noteq> i then Inl (if hp ! nat (e + 1) = CHR '':'' then TooManyColons else MissingPort)
               else if IndexByte (drop 1 hp) (CHR ''['') \<ge> 0 then Inl UnexpectedOpen
               else if IndexByte (drop (nat (e + 1)) hp) (CHR '']'') \<ge> 0 then Inl UnexpectedClose
               else Inr (take (nat e - 1) (drop 1 hp)))
         else
           (let host = take (nat i) hp
            in if IndexByte host (CHR '':'') \<ge> 0 then Inl TooManyColons
               else if IndexByte hp (CHR ''['') \<ge> 0 then Inl UnexpectedOpen
               else if IndexByte hp (CHR '']'') \<ge> 0 then Inl UnexpectedClose
               else Inr host))"

text \<open>64-bit FNV-1a.\<close>

definition fnv64a :: "bytes \<Rightarrow> 64 word" where
  "fnv64a bs = foldl (\<lambda>h c. (xor h (word_of_nat (of_char c))) * 1099511628211) 14695981039346656037 bs"

definition hashClientIP :: "bytes \<Rightarrow> 64 word" where
  "hashClientIP remoteAddr =
     (let host = (case SplitHostPort remoteAddr of Inr h \<Rightarrow> h | Inl _ \<Rightarrow> remoteAddr) in fnv64a host)"

text \<open>
  The loop \<open>for i := range n\<close>: \<open>load i k\<close> is the flag of backend \<open>k\<close> as read at turn \<open>i\<close>. The sum \<open>start + i\<close>
  is a \<open>uint64\<close> and wraps.
\<close>

fun pick_loop :: "nat \<Rightarrow> 64 word \<Rightarrow> (nat \<Rightarrow> nat \<Rightarrow> bool) \<Rightarrow> nat list \<Rightarrow> nat option" where
  "pick_loop n start load [] = None"
| "pick_loop n start load (i # rest) =
     (let k = unat ((start + word_of_nat i) mod word_of_nat n)
      in if load i k then Some k else pick_loop n start load rest)"

text \<open>\<open>rnd\<close> is \<open>rand.Uint64N(n)\<close>. The second component is the counter afterwards.\<close>

definition pick :: "'u proxyBalancer \<Rightarrow> 64 word \<Rightarrow> (nat \<Rightarrow> nat \<Rightarrow> bool) \<Rightarrow> bytes \<Rightarrow> nat option \<times> 64 word" where
  "pick b rnd load remoteAddr =
     (let n = length (backends b)
      in if n = 0 then (None, counter b)
         else
           let (start, c) =
             (if algorithm b = algoRandom then (rnd, counter b)
              else if algorithm b = algoIPHash then (hashClientIP remoteAddr mod word_of_nat n, counter b)
              else (counter b + 1 - 1, counter b + 1))
           in (pick_loop n start load [0..<n], c))"

text \<open>What \<open>ServeHTTP\<close> does: the backend that serves, or the error it answers with.\<close>

datatype serve_outcome = Serve nat | ErrorReply int string

definition ServeHTTP :: "'u proxyBalancer \<Rightarrow> 64 word \<Rightarrow> (nat \<Rightarrow> nat \<Rightarrow> bool) \<Rightarrow> bytes \<Rightarrow> serve_outcome \<times> 'u proxyBalancer" where
  "ServeHTTP b rnd load remoteAddr =
     (let (be, c) = pick b rnd load remoteAddr; b = b\<lparr>counter := c\<rparr>
      in (case be of None \<Rightarrow> ErrorReply 503 ''no healthy backend'' | Some k \<Rightarrow> Serve k, b))"

section \<open>The health checker\<close>

text \<open>\<open>head\<close> is the HEAD request: an error or the response's status.\<close>

definition headBackend :: "('u \<Rightarrow> string + int) \<Rightarrow> 'u \<Rightarrow> string option" where
  "headBackend head u =
     (case head u of
        Inl err \<Rightarrow> Some err
      | Inr code \<Rightarrow> if code \<ge> 500 then Some (''status '' @ digits code) else None)"

datatype 'u health_log = BackOnline 'u | MarkedDown 'u string

definition check_backend :: "('u \<Rightarrow> string + int) \<Rightarrow> 'u proxyBackend \<Rightarrow> 'u proxyBackend \<times> 'u health_log list" where
  "check_backend head be =
     (let err = headBackend head (be_url be); up = (err = None); was = alive be
      in (be\<lparr>alive := up\<rparr>,
          if was \<noteq> up then (case err of None \<Rightarrow> [BackOnline (be_url be)] | Some e \<Rightarrow> [MarkedDown (be_url be) e]) else []))"

text \<open>One tick, with the answers the HEAD requests of this tick get, and a run of ticks.\<close>

definition health_tick :: "('u \<Rightarrow> string + int) \<Rightarrow> 'u proxyBalancer \<Rightarrow> 'u proxyBalancer \<times> 'u health_log list" where
  "health_tick head b =
     (let rs = map (check_backend head) (backends b) in (b\<lparr>backends := map fst rs\<rparr>, concat (map snd rs)))"

fun runHealthCheck :: "('u \<Rightarrow> string + int) list \<Rightarrow> 'u proxyBalancer \<Rightarrow> 'u proxyBalancer \<times> 'u health_log list" where
  "runHealthCheck [] b = (b, [])"
| "runHealthCheck (head # heads) b =
     (let (b1, l1) = health_tick head b; (b2, l2) = runHealthCheck heads b1 in (b2, l1 @ l2))"

text \<open>
  The checker runs with the configured period, and its requests end before the next tick, up to the largest number
  of seconds a \<open>Duration\<close> holds; the next number, which the schema of the handler accepts, panics.
\<close>

lemma health_check_period:
  assumes "0 < intervalSec" "intervalSec \<le> 9223372036"
  shows "\<exists>timeout. startHealthCheck intervalSec = Inr (Some (intervalSec * 1000000000, timeout)) \<and>
    0 < timeout \<and> timeout \<le> intervalSec * 1000000000 \<and> timeout \<le> 5000000000"
  using assms by (simp add: startHealthCheck_def Let_def)

lemma health_check_overflow:
  "startHealthCheck 9223372037 = Inl (PanicMsg ''non-positive interval for NewTicker'')"
  by (simp add: startHealthCheck_def Let_def i64_def)

text \<open>So a configuration with that interval takes the whole start down.\<close>

lemma proxy_construction_panics:
  assumes "proxyURLs T cfg = Inr urls" "tn_Int T (tn_Get T ''healthCheckInterval'' cfg) = 9223372037"
    and "newProxyBalancer parseURL urls (let algo = tn_String T (tn_Get T ''algorithm'' cfg)
      in if algo = [] then algoRoundRobin else algo) = Inr b"
  shows "NewProxyHandler T parseURL cfg = Inl (PanicMsg ''non-positive interval for NewTicker'')"
  using assms by (simp add: NewProxyHandler_def health_check_overflow Let_def)

section \<open>The picking loop\<close>

lemma pick_loop_find:
  "pick_loop n start load is = map_option (\<lambda>i. unat ((start + word_of_nat i) mod word_of_nat n))
     (find (\<lambda>i. load i (unat ((start + word_of_nat i) mod word_of_nat n))) is)"
  by (induction "is") (simp_all add: Let_def)

text \<open>Without wrap-around the index is what it looks like.\<close>

lemma pick_index:
  assumes "0 < n" "n < 2 ^ 64" "unat start + i < 2 ^ 64"
  shows "unat (((start :: 64 word) + word_of_nat i) mod word_of_nat n) = (unat start + i) mod n"
proof -
  have "i < 2 ^ 64" using assms(3) by simp
  then have "unat (start + word_of_nat i) = unat start + i"
    using assms(3) by (simp add: unat_word_ariths unat_of_nat)
  then show ?thesis
    using assms(2) by (simp add: unat_mod_distrib unat_of_nat)
qed

lemma mod_cover:
  fixes s k n :: nat
  assumes "k < n"
  shows "\<exists>i < n. (s + i) mod n = k"
proof -
  let ?i = "(k + n - s mod n) mod n"
  have n: "0 < n" using assms by simp
  have "s mod n < n" using n by simp
  then have e: "s mod n + (k + n - s mod n) = k + n" by simp
  have "(s + ?i) mod n = (s mod n + (k + n - s mod n)) mod n"
    by (simp add: mod_simps)
  also have "\<dots> = k" unfolding e using assms by simp
  finally show ?thesis using n by (intro exI [of _ ?i]) simp
qed

lemma pick_loop_total:
  assumes "0 < n" "n < 2 ^ 64" "unat start + n \<le> 2 ^ 64" "k < n" "\<forall>i < n. load i k"
  shows "\<exists>i < n. \<exists>j < n. pick_loop n start load [0..<n] = Some j \<and> load i j"
proof -
  have ix: "unat ((start + word_of_nat i) mod word_of_nat n) = (unat start + i) mod n" if "i < n" for i
    using that assms(1-3) by (intro pick_index) simp_all
  obtain i where "i < n" "(unat start + i) mod n = k"
    using mod_cover [OF assms(4)] by blast
  then have "find (\<lambda>i. load i (unat ((start + word_of_nat i) mod word_of_nat n))) [0..<n] \<noteq> None"
    using assms(5) ix by (auto simp: find_None_iff)
  then obtain t where t: "find (\<lambda>i. load i (unat ((start + word_of_nat i) mod word_of_nat n))) [0..<n] = Some t"
    by blast
  then have "t < n" "load t (unat ((start + word_of_nat t) mod word_of_nat n))"
    by (auto simp: find_Some_iff)
  moreover have "unat ((start + word_of_nat t) mod word_of_nat n) < n"
    using ix [OF \<open>t < n\<close>] assms(1) by simp
  ultimately show ?thesis
    using t by (auto simp: pick_loop_find)
qed

lemma LastIndexByte_append: "c \<notin> set b \<Longrightarrow> LastIndexByte (a @ c # b) c = int (length a)"
proof (induction a)
  case Nil
  have "c \<notin> set xs \<Longrightarrow> LastIndexByte xs c = - 1" for xs
    by (induction xs) (auto simp: Let_def)
  with Nil show ?case by (simp add: Let_def)
qed (simp add: Let_def)

lemma SplitHostPort_plain:
  assumes "{CHR '':'', CHR ''['', CHR '']''} \<inter> set host = {}" "{CHR '':'', CHR ''['', CHR '']''} \<inter> set port = {}" "host \<noteq> []"
  shows "SplitHostPort (host @ CHR '':'' # port) = Inr host"
proof -
  have "host ! 0 \<noteq> CHR ''[''"
    using assms(1,3) by (auto simp: neq_Nil_conv)
  then have h0: "(host @ CHR '':'' # port) ! 0 \<noteq> CHR ''[''"
    using assms(3) by (simp add: nth_append)
  have "IndexByte host (CHR '':'') = - 1" "IndexByte (host @ CHR '':'' # port) (CHR ''['') = - 1"
    "IndexByte (host @ CHR '':'' # port) (CHR '']'') = - 1"
    using assms(1,2) by (auto simp: IndexByte_absent)
  moreover have "LastIndexByte (host @ CHR '':'' # port) (CHR '':'') = int (length host)"
    using assms(2) by (intro LastIndexByte_append) simp
  ultimately show ?thesis
    using h0 by (simp add: SplitHostPort_def Let_def)
qed

lemma SplitHostPort_bracketed:
  assumes "{CHR ''['', CHR '']''} \<inter> set host = {}" "{CHR '':'', CHR ''['', CHR '']''} \<inter> set port = {}"
  shows "SplitHostPort (CHR ''['' # host @ CHR '']'' # CHR '':'' # port) = Inr host"
proof -
  let ?hp = "CHR ''['' # host @ CHR '']'' # CHR '':'' # port"
  have "LastIndexByte ((CHR ''['' # host @ [CHR '']'']) @ CHR '':'' # port) (CHR '':'') = int (length host + 2)"
    using assms(2) by (subst LastIndexByte_append) simp_all
  then have last: "LastIndexByte ?hp (CHR '':'') = int (length host + 2)" by simp
  have close: "IndexByte ?hp (CHR '']'') = int (length host + 1)"
    using IndexByte_split [of "CHR '']''" "CHR ''['' # host" "CHR '':'' # port"] assms(1) by simp
  have "IndexByte (drop 1 ?hp) (CHR ''['') = - 1"
    "IndexByte (drop (nat (int (length host + 1) + 1)) ?hp) (CHR '']'') = - 1"
    using assms by (auto simp: IndexByte_absent nat_add_distrib)
  with last close show ?thesis
    unfolding SplitHostPort_def Let_def by simp
qed

section \<open>Properties\<close>

text \<open>C21. A healthy backend is found: if one of the backends stays alive while \<open>pick\<close> looks (whatever the
  checker does to the others meanwhile), \<open>pick\<close> returns a backend that was alive when it looked at it,
  as long as the round-robin counter is at least \<open>n\<close> away from wrapping at 2^64.\<close>

theorem pick_finds_alive:
  fixes b :: "'u proxyBalancer"
  assumes "length (backends b) = n" "k < n" "n < 2 ^ 63" "\<forall>i < n. load i k"
    and "algorithm b = algoRandom \<Longrightarrow> unat rnd < n"
    and "algorithm b \<notin> {algoRandom, algoIPHash} \<Longrightarrow> unat (counter b) + n \<le> 2 ^ 64"
  shows "\<exists>i < n. \<exists>j < n. fst (ServeHTTP b rnd load addr) = Serve j \<and> load i j"
proof -
  define start where "start = (if algorithm b = algoRandom then rnd
      else if algorithm b = algoIPHash then hashClientIP addr mod word_of_nat n else counter b)"
  have n: "0 < n" "n < 2 ^ 64" using assms(2,3) by simp_all
  have "unat (hashClientIP addr mod word_of_nat n) < n"
    using n by (simp add: unat_mod_distrib unat_of_nat)
  then have "unat start + n \<le> 2 ^ 64"
    using assms(3,5,6) by (auto simp: start_def)
  from pick_loop_total [where load = load, OF n this assms(2,4)] obtain i j where
    "i < n" "j < n" "pick_loop n start load [0..<n] = Some j" "load i j" by blast
  then show ?thesis
    using n(1) by (auto simp: ServeHTTP_def pick_def assms(1) start_def Let_def split: if_splits)
qed

definition demo_balancer :: "string \<Rightarrow> string proxyBalancer" where
  "demo_balancer algo = \<lparr>backends = map (\<lambda>u. \<lparr>be_url = u, alive = True\<rparr>) [''a'', ''b'', ''c''], algorithm = algo, counter = 7\<rparr>"

theorem pick_finds_alive_witness:
  "\<exists>j. fst (ServeHTTP (demo_balancer algoRoundRobin) 0 (\<lambda>i k. k = 0) ''1.2.3.4:5'') = Serve j \<and> j = 0"
  using pick_finds_alive [of "demo_balancer algoRoundRobin" 3 0 "\<lambda>i k. k = 0" 0 "''1.2.3.4:5''"]
  by (auto simp: demo_balancer_def algoRoundRobin_def algoRandom_def)

text \<open>Requests one after the other, all backends alive.\<close>

fun serve_many :: "'u proxyBalancer \<Rightarrow> bytes list \<Rightarrow> serve_outcome list" where
  "serve_many b [] = []"
| "serve_many b (a # as) = (let (out, b') = ServeHTTP b 0 (\<lambda>_ _. True) a in out # serve_many b' as)"

lemma serve_many_rr:
  assumes "length (backends b) = n" "0 < n" "n < 2 ^ 64" "algorithm b = algoRoundRobin"
    "unat (counter b) + length as \<le> 2 ^ 64"
  shows "serve_many b as = map (\<lambda>i. Serve ((unat (counter b) + i) mod n)) [0..<length as]"
  using assms
proof (induction as arbitrary: b)
  case (Cons a as)
  have algo: "algorithm b \<noteq> algoRandom" "algorithm b \<noteq> algoIPHash"
    using Cons.prems(4) by (simp_all add: algoRoundRobin_def algoRandom_def algoIPHash_def)
  have first: "unat (counter b mod word_of_nat n) = unat (counter b) mod n"
    using Cons.prems(3) by (simp add: unat_mod_distrib unat_of_nat)
  have up: "[0..<n] = 0 # [Suc 0..<n]" using Cons.prems(2) by (simp add: upt_conv_Cons)
  have sv: "ServeHTTP b 0 (\<lambda>_ _. True) a = (Serve (unat (counter b) mod n), b\<lparr>counter := counter b + 1\<rparr>)"
    using Cons.prems(1,2) algo by (simp add: ServeHTTP_def pick_def Let_def up first)
  show ?case
  proof (cases as)
    case Nil
    then show ?thesis by (simp add: sv)
  next
    case (Cons a' as')
    then have "unat (counter b) + 1 < 2 ^ 64" using Cons.prems(5) by simp
    then have "unat (counter b + 1) = unat (counter b) + 1"
      by (simp add: unat_word_ariths)
    with Cons.prems Cons.IH [of "b\<lparr>counter := counter b + 1\<rparr>"] show ?thesis
      by (simp add: sv upt_conv_Cons map_Suc_upt [symmetric] comp_def del: upt_Suc)
  qed
qed simp

lemma mod_permutation:
  fixes s n :: nat
  assumes "0 < n"
  shows "mset (map (\<lambda>i. (s + i) mod n) [0..<n]) = mset [0..<n]"
proof -
  have inj: "inj_on (\<lambda>i. (s + i) mod n) {0..<n}"
  proof (rule inj_onI)
    have step: "i = j" if "i \<le> j" "j < n" "(s + i) mod n = (s + j) mod n" for i j
    proof -
      have "n dvd (s + j) - (s + i)"
        using that by (subst mod_eq_dvd_iff_nat [symmetric]) simp_all
      then have "n dvd j - i" by simp
      with that show ?thesis by (auto dest: dvd_imp_le)
    qed
    fix i j assume "i \<in> {0..<n}" "j \<in> {0..<n}" "(s + i) mod n = (s + j) mod n"
    then show "i = j"
      using step [of i j] step [of j i] by (cases "i \<le> j") simp_all
  qed
  then have "(\<lambda>i. (s + i) mod n) ` {0..<n} = {0..<n}"
    using assms by (intro card_subset_eq) (auto simp: card_image)
  then have "distinct (map (\<lambda>i. (s + i) mod n) [0..<n])" "set (map (\<lambda>i. (s + i) mod n) [0..<n]) = set [0..<n]"
    using inj by (simp_all add: distinct_map)
  then show ?thesis
    by (metis distinct_upt set_eq_iff_mset_eq_distinct)
qed

text \<open>Round robin is fair: any \<open>n\<close> successive requests to \<open>n\<close> alive backends are served by all of
  them, each exactly once (up to the wrap of the 64-bit counter).\<close>

lemma round_robin_fair:
  assumes "length (backends b) = n" "0 < n" "n < 2 ^ 64" "algorithm b = algoRoundRobin"
    and "length addrs = n" "unat (counter b) + n \<le> 2 ^ 64"
  shows "mset (serve_many b addrs) = mset (map Serve [0..<n])"
proof -
  have "serve_many b addrs = map Serve (map (\<lambda>i. (unat (counter b) + i) mod n) [0..<n])"
    using serve_many_rr [OF assms(1-4), of addrs] assms(5,6) by simp
  then show ?thesis
    using mod_permutation [OF assms(2), of "unat (counter b)"] by (metis mset_map)
qed

lemma round_robin_fair_witness:
  "mset (serve_many (demo_balancer algoRoundRobin) [''x:1'', ''y:2'', ''z:3'']) = mset [Serve 0, Serve 1, Serve 2]"
proof -
  have "mset (serve_many (demo_balancer algoRoundRobin) [''x:1'', ''y:2'', ''z:3'']) = mset (map Serve [0..<3])"
    by (rule round_robin_fair) (simp_all add: demo_balancer_def)
  also have "map Serve [0..<3] = [Serve 0, Serve 1, Serve 2]"
    by (simp add: upt_rec)
  finally show ?thesis .
qed

text \<open>The ip-hash algorithm is sticky: two requests from one client address, whatever their ports and
  the balancer's counter, IPv4 or bracketed IPv6, are served alike while the backends' flags are the same.\<close>

lemma ip_hash_sticky:
  assumes "algorithm b = algoIPHash" "host \<noteq> []" "{CHR ''['', CHR '']''} \<inter> set host = {}"
    and "{CHR '':'', CHR ''['', CHR '']''} \<inter> set port1 = {}" "{CHR '':'', CHR ''['', CHR '']''} \<inter> set port2 = {}"
  defines "addr \<equiv> (\<lambda>port. if CHR '':'' \<in> set host then CHR ''['' # host @ CHR '']'' # CHR '':'' # port else host @ CHR '':'' # port)"
  shows "fst (ServeHTTP (b\<lparr>counter := c1\<rparr>) r1 load (addr port1)) = fst (ServeHTTP (b\<lparr>counter := c2\<rparr>) r2 load (addr port2))"
proof -
  have "hashClientIP (addr p) = fnv64a host" if "{CHR '':'', CHR ''['', CHR '']''} \<inter> set p = {}" for p
    using that assms(2,3) SplitHostPort_plain [of host p] SplitHostPort_bracketed [of host p]
    by (auto simp: hashClientIP_def addr_def)
  then have "hashClientIP (addr port1) = hashClientIP (addr port2)"
    using assms(4,5) by metis
  then show ?thesis
    using assms(1) by (simp add: ServeHTTP_def pick_def algoIPHash_def algoRandom_def Let_def)
qed

lemma ip_hash_sticky_witness:
  "fst (ServeHTTP ((demo_balancer algoIPHash)\<lparr>counter := 1\<rparr>) 0 (\<lambda>_ k. k \<noteq> 1) ''[::1]:80'') =
   fst (ServeHTTP ((demo_balancer algoIPHash)\<lparr>counter := 2\<rparr>) 5 (\<lambda>_ k. k \<noteq> 1) ''[::1]:9999'')"
  using ip_hash_sticky [of "demo_balancer algoIPHash" "''::1''" "''80''" "''9999''" 1 0 "\<lambda>_ k. k \<noteq> 1" 2 5]
  by (simp add: demo_balancer_def)

text \<open>The health checker: after a run of ticks each backend is marked alive exactly if its last HEAD
  request was answered with a status below 500, the backends and their order are unchanged, and a tick
  writes one message for each backend whose mark it changes and no other.\<close>

lemma health_check_marks:
  shows "map be_url (backends (fst (runHealthCheck (heads @ [head]) b))) = map be_url (backends b) \<and>
    (\<forall>be \<in> set (backends (fst (runHealthCheck (heads @ [head]) b))).
       alive be \<longleftrightarrow> (\<exists>code < 500. head (be_url be) = Inr code)) \<and>
    length (snd (health_tick head b)) =
      length (filter (\<lambda>be. alive be \<noteq> (\<exists>code < 500. head (be_url be) = Inr code)) (backends b))"
proof (intro conjI)
  have alive_iff: "headBackend head u = None \<longleftrightarrow> (\<exists>code < 500. head u = Inr code)" for u and head :: "'a \<Rightarrow> string + int"
    by (auto simp: headBackend_def split: sum.split)
  have urls: "map be_url (backends (fst (health_tick head b))) = map be_url (backends b)" for head and b :: "'a proxyBalancer"
    by (simp add: health_tick_def Let_def check_backend_def comp_def)
  show "map be_url (backends (fst (runHealthCheck (heads @ [head]) b))) = map be_url (backends b)" for heads
    by (induction heads arbitrary: b) (simp_all add: urls split_def Let_def)
  show "\<forall>be \<in> set (backends (fst (runHealthCheck (heads @ [head]) b))). alive be \<longleftrightarrow> (\<exists>code < 500. head (be_url be) = Inr code)"
  proof (induction heads arbitrary: b)
    case Nil
    show ?case
      by (auto simp: health_tick_def check_backend_def Let_def alive_iff)
  next
    case (Cons h heads)
    show ?case
      using Cons.IH by (simp add: split_def Let_def)
  qed
  define P :: "'a proxyBackend \<Rightarrow> bool" where "P = (\<lambda>be. alive be \<noteq> (\<exists>code < 500. head (be_url be) = Inr code))"
  have len: "length (snd (check_backend head be)) = (if P be then 1 else 0)" for be
    by (auto simp: P_def check_backend_def Let_def alive_iff [symmetric] split: option.split)
  have "length (concat (map (\<lambda>be. snd (check_backend head be)) bs)) = length (filter P bs)" for bs
    by (induction bs) (simp_all add: len del: length_0_conv)
  then have "length (snd (health_tick head b)) = length (filter P (backends b))"
    by (simp add: health_tick_def Let_def comp_def)
  then show "length (snd (health_tick head b)) =
      length (filter (\<lambda>be. alive be \<noteq> (\<exists>code < 500. head (be_url be) = Inr code)) (backends b))"
    by (simp only: P_def)
qed

lemma health_check_marks_witness:
  "list_all (\<lambda>be. alive be = (be_url be \<noteq> ''b''))
     (backends (fst (runHealthCheck ([\<lambda>_. Inl ''down''] @ [\<lambda>u. if u = ''b'' then Inr 503 else Inr 204]) (demo_balancer algoRandom))))"
  using health_check_marks [of "[\<lambda>_. Inl ''down'']" "\<lambda>u. if u = ''b'' then Inr 503 else Inr 204" "demo_balancer algoRandom"]
  by (auto simp: list_all_iff split: if_splits)

end
