(* ===== verification/Loggers.thy ===== *)
theory Loggers
  imports ConfigTypes "HOL-Library.Multiset" "HOL-Library.Word"
begin

text \<open>
  \<open>pkg/logger/rotator.go\<close> and \<open>pkg/logger/logger.go\<close>: the rotators shared per output with their reference
  counts, and the loggers on top of them. A rotator is its position in \<open>rotators\<close> (its pointer); the
  multiset of rotators the clients still hold is a ghost argument of the reachable states.

  \<open>Close\<close> decrements the count without the lock, takes the lock only to remove the rotator from the map,
  and closes it afterwards: three steps. The interface \<open>shared_outputs\<close> holds for clients that run one
  after the other (\<open>shared_reach\<close>); \<open>close_race\<close> shows what the interleaving of the steps breaks.
\<close>

section \<open>Rotators\<close>

datatype rotator_impl = NopRotator string | Lumberjack string Rotation

definition NewRotator :: "string \<Rightarrow> Rotation \<Rightarrow> rotator_impl" where
  "NewRotator out cfg =
     (if out = [] then NopRotator ''discard''
      else if out = ''stdout'' then NopRotator ''stdout''
      else if out = ''stderr'' then NopRotator ''stderr''
      else Lumberjack out cfg)"

text \<open>\<open>for_output\<close> and \<open>closes\<close> (how often the rotator was closed) are ghosts.\<close>

record sharedRotator =
  impl :: rotator_impl
  shared :: int
  for_output :: string
  closes :: nat

record registry =
  rotators :: "sharedRotator list"
  sharedRotators :: "(string \<times> nat) list"

definition empty_registry :: registry where
  "empty_registry = \<lparr>rotators = [], sharedRotators = []\<rparr>"

definition share :: "nat \<Rightarrow> registry \<Rightarrow> registry" where
  "share i st = st\<lparr>rotators := (rotators st)[i := (rotators st ! i)\<lparr>shared := shared (rotators st ! i) + 1\<rparr>]\<rparr>"

definition SharedRotator :: "string \<Rightarrow> Rotation \<Rightarrow> registry \<Rightarrow> nat \<times> registry" where
  "SharedRotator out cfg st =
     (case map_of (sharedRotators st) out of
        Some i \<Rightarrow> (i, share i st)
      | None \<Rightarrow>
          let i = length (rotators st);
              r = \<lparr>impl = NewRotator out cfg, shared = 0, for_output = out, closes = 0\<rparr>
          in (i, share i (st\<lparr>rotators := rotators st @ [r], sharedRotators := (out, i) # sharedRotators st\<rparr>)))"

fun remove_first :: "nat \<Rightarrow> (string \<times> nat) list \<Rightarrow> (string \<times> nat) list" where
  "remove_first i [] = []"
| "remove_first i ((k, v) # kvs) = (if v = i then kvs else (k, v) # remove_first i kvs)"

definition removeSharedRotator :: "nat \<Rightarrow> registry \<Rightarrow> registry" where
  "removeSharedRotator i st = st\<lparr>sharedRotators := remove_first i (sharedRotators st)\<rparr>"

text \<open>The three steps of \<open>Close\<close>; the flag of the first says whether it goes on.\<close>

definition close_begin :: "nat \<Rightarrow> registry \<Rightarrow> bool \<times> registry" where
  "close_begin i st =
     (let r = (rotators st ! i)\<lparr>shared := shared (rotators st ! i) - 1\<rparr>
      in (\<not> shared r > 0, st\<lparr>rotators := (rotators st)[i := r]\<rparr>))"

definition close_end :: "nat \<Rightarrow> registry \<Rightarrow> registry" where
  "close_end i st = st\<lparr>rotators := (rotators st)[i := (rotators st ! i)\<lparr>closes := closes (rotators st ! i) + 1\<rparr>]\<rparr>"

text \<open>\<open>closeErr i\<close> is what the underlying rotator's \<open>Close\<close> answers.\<close>

definition Close :: "(nat \<Rightarrow> string option) \<Rightarrow> nat \<Rightarrow> registry \<Rightarrow> string option \<times> registry" where
  "Close closeErr i st =
     (let (last, st1) = close_begin i st
      in if \<not> last then (None, st1)
         else (closeErr i, close_end i (removeSharedRotator i st1)))"

text \<open>\<open>rotErr i\<close> is what rotating rotator \<open>i\<close> answers.\<close>

definition RotateShared :: "(nat \<Rightarrow> string option) \<Rightarrow> registry \<Rightarrow> string list" where
  "RotateShared rotErr st = concat (map (\<lambda>(k, i). case rotErr i of None \<Rightarrow> [] | Some e \<Rightarrow> [e]) (sharedRotators st))"

section \<open>Loggers\<close>

definition Ldate :: int where "Ldate = 1"
definition Ltime :: int where "Ltime = 2"
definition Lmicroseconds :: int where "Lmicroseconds = 4"
definition LUTC :: int where "LUTC = 32"
definition Lmsgprefix :: int where "Lmsgprefix = 64"

fun parse_flags :: "string list \<Rightarrow> int \<Rightarrow> string + int" where
  "parse_flags [] flgs = Inr flgs"
| "parse_flags (f # fs) flgs =
     (if f = ''date'' then parse_flags fs (or flgs Ldate)
      else if f = ''time'' then parse_flags fs (or flgs Ltime)
      else if f = ''microsecond'' then parse_flags fs (or flgs Lmicroseconds)
      else if f = ''utc'' then parse_flags fs (or flgs LUTC)
      else if f = ''msgprefix'' then parse_flags fs (or flgs Lmsgprefix)
      else Inl (''unknown flag: '' @ f))"

text \<open>The \<open>log.Logger\<close> of the standard library with its writer, prefix and flags; \<open>NilLogLogger\<close> discards.
  A logger is \<open>NilLogger\<close>, or a \<open>log.Logger\<close> with the rotator (nil after \<open>Close\<close>).\<close>

datatype log_logger = NilLogLogger | LogLogger nat string int

datatype logger = NilLogger | Logger log_logger "nat option"

definition newLogger :: "nat \<Rightarrow> LogConfig \<Rightarrow> string + logger" where
  "newLogger out cfg =
     (case parse_flags (log_Flags cfg) 0 of
        Inl err \<Rightarrow> Inl err
      | Inr flgs \<Rightarrow> Inr (Logger (LogLogger out (log_Prefix cfg) flgs) (Some out)))"

definition NewLogger :: "(nat \<Rightarrow> string option) \<Rightarrow> LogConfig \<Rightarrow> registry \<Rightarrow> (string + logger) \<times> registry" where
  "NewLogger closeErr cfg st =
     (if log_Output cfg = [] then (Inr NilLogger, st)
      else
        let (out, st1) = SharedRotator (log_Output cfg) (log_Rotation cfg) st
        in case newLogger out cfg of
             Inl err \<Rightarrow> (Inl err, snd (Close closeErr out st1))
           | Inr l \<Rightarrow> (Inr l, st1))"

definition logger_Close :: "(nat \<Rightarrow> string option) \<Rightarrow> logger \<Rightarrow> registry \<Rightarrow> string option \<times> logger \<times> registry" where
  "logger_Close closeErr l st =
     (case l of
        NilLogger \<Rightarrow> (None, l, st)
      | Logger lg rotator \<Rightarrow>
          (case rotator of
             None \<Rightarrow> (None, l, st)
           | Some i \<Rightarrow>
               (let (err, st1) = Close closeErr i st
                in case err of
                     Some e \<Rightarrow> (Some e, l, st1)
                   | None \<Rightarrow> (None, Logger lg None, st1))))"

definition logger_Rotate :: "(nat \<Rightarrow> string option) \<Rightarrow> logger \<Rightarrow> string option" where
  "logger_Rotate rotErr l =
     (case l of NilLogger \<Rightarrow> None | Logger _ rotator \<Rightarrow> (case rotator of None \<Rightarrow> None | Some i \<Rightarrow> rotErr i))"

section \<open>Reference counting\<close>

definition shared_inv :: "registry \<Rightarrow> nat multiset \<Rightarrow> bool" where
  "shared_inv st h \<longleftrightarrow>
     (\<forall>i < length (rotators st). shared (rotators st ! i) = int (count h i) \<and>
        closes (rotators st ! i) = (if i \<in># h then 0 else 1)) \<and>
     (\<forall>i \<in># h. i < length (rotators st)) \<and>
     distinct (map fst (sharedRotators st)) \<and>
     (\<forall>k i. map_of (sharedRotators st) k = Some i \<longleftrightarrow> i \<in># h \<and> for_output (rotators st ! i) = k)"

lemma shared_inv_empty: "shared_inv empty_registry {#}"
  by (simp add: shared_inv_def empty_registry_def)

lemma shared_inv_unique:
  "shared_inv st h \<Longrightarrow> i \<in># h \<Longrightarrow> j \<in># h \<Longrightarrow> for_output (rotators st ! i) = for_output (rotators st ! j) \<Longrightarrow> i = j"
  unfolding shared_inv_def by (metis option.inject)

lemma shared_inv_SharedRotator:
  assumes inv: "shared_inv st h" and run: "SharedRotator out cfg st = (i, st')"
  shows "shared_inv st' (add_mset i h) \<and> for_output (rotators st' ! i) = out"
proof (cases "map_of (sharedRotators st) out")
  case (Some j)
  then have j: "j \<in># h" "for_output (rotators st ! j) = out" "j < length (rotators st)" "i = j" "st' = share j st"
    using inv run by (auto simp: shared_inv_def SharedRotator_def)
  then show ?thesis
    using inv by (auto simp: shared_inv_def share_def nth_list_update)
next
  case None
  let ?n = "length (rotators st)"
  have n: "i = ?n" "?n \<notin># h" "count h ?n = 0"
    using inv run None by (auto simp: shared_inv_def SharedRotator_def Let_def not_in_iff)
  have st': "st' = \<lparr>rotators = rotators st @ [\<lparr>impl = NewRotator out cfg, shared = 1, for_output = out, closes = 0\<rparr>],
      sharedRotators = (out, ?n) # sharedRotators st\<rparr>"
    using run None by (cases st) (auto simp: SharedRotator_def share_def Let_def)
  have "map_of (sharedRotators st) out = None \<Longrightarrow> out \<notin> fst ` set (sharedRotators st)"
    by (simp add: map_of_eq_None_iff)
  then show ?thesis
    using inv n None by (auto simp: shared_inv_def st' nth_append less_Suc_eq)
qed

lemma map_of_remove_first:
  assumes "distinct (map fst kvs)" "\<And>k k'. map_of kvs k = Some i \<Longrightarrow> map_of kvs k' = Some i \<Longrightarrow> k = k'"
  shows "map_of (remove_first i kvs) k = (if map_of kvs k = Some i then None else map_of kvs k)"
  using assms
proof (induction kvs)
  case (Cons x kvs)
  obtain a v where x: "x = (a, v)" by (cases x)
  have a: "map_of kvs a = None"
    using Cons.prems(1) x by (simp add: map_of_eq_None_iff)
  have uniq: "\<And>k k'. map_of kvs k = Some i \<Longrightarrow> map_of kvs k' = Some i \<Longrightarrow> k = k'"
    using Cons.prems(2) a x by (metis map_of_Cons_code(2) option.distinct(1))
  show ?case
  proof (cases "v = i")
    case True
    have "map_of kvs k \<noteq> Some i" for k
      using Cons.prems(2) [of a k] a x True by (cases "k = a") auto
    then show ?thesis using True x a by simp
  next
    case False
    then show ?thesis using Cons.IH [OF _ uniq] Cons.prems(1) x by auto
  qed
qed simp

lemma distinct_remove_first: "distinct (map fst kvs) \<Longrightarrow> distinct (map fst (remove_first i kvs))"
proof -
  have "set (remove_first i kvs) \<subseteq> set kvs"
    by (induction kvs rule: remove_first.induct) auto
  then show "distinct (map fst kvs) \<Longrightarrow> distinct (map fst (remove_first i kvs))"
  proof (induction kvs rule: remove_first.induct)
    case (2 i k v kvs)
    have "set (remove_first i kvs) \<subseteq> set kvs"
      by (induction kvs rule: remove_first.induct) auto
    with 2 show ?case by auto
  qed simp
qed

lemma shared_inv_Close:
  assumes inv: "shared_inv st h" and i: "i \<in># h"
  shows "shared_inv (snd (Close closeErr i st)) (h - {#i#})"
proof -
  have len: "i < length (rotators st)" and sh: "shared (rotators st ! i) = int (count h i)"
    and cl: "closes (rotators st ! i) = 0"
    using inv i by (auto simp: shared_inv_def)
  have pos: "count h i > 0" using i by simp
  show ?thesis
  proof (cases "count h i = 1")
    case False
    then have gt: "1 < count h i" using pos by linarith
    then have "i \<in># h - {#i#}" by (simp add: in_diff_count)
    moreover have "snd (Close closeErr i st) = st\<lparr>rotators := (rotators st)[i := (rotators st ! i)\<lparr>shared := shared (rotators st ! i) - 1\<rparr>]\<rparr>"
      using gt sh by (simp add: Close_def close_begin_def Let_def)
    moreover have mem: "j \<in># h - {#i#} \<longleftrightarrow> j \<in># h" for j
      using gt i by (auto simp: in_diff_count)
    ultimately show ?thesis
      using inv len by (auto simp: shared_inv_def nth_list_update mem count_eq_zero_iff)
  next
    case True
    then have gone: "i \<notin># h - {#i#}" by (simp add: in_diff_count)
    have others: "j \<in># h - {#i#} \<longleftrightarrow> j \<in># h \<and> j \<noteq> i" for j
      using True by (auto simp: in_diff_count)
    let ?r = "(rotators st ! i)\<lparr>shared := shared (rotators st ! i) - 1, closes := 1\<rparr>"
    have st': "snd (Close closeErr i st) =
        st\<lparr>rotators := (rotators st)[i := ?r], sharedRotators := remove_first i (sharedRotators st)\<rparr>"
      using True sh cl len by (simp add: Close_def close_begin_def close_end_def removeSharedRotator_def Let_def)
    have uniq: "map_of (sharedRotators st) k = Some i \<Longrightarrow> map_of (sharedRotators st) k' = Some i \<Longrightarrow> k = k'" for k k'
      using inv by (auto simp: shared_inv_def)
    have dist: "distinct (map fst (sharedRotators st))"
      using inv by (simp add: shared_inv_def)
    have un: "j \<in># h \<Longrightarrow> for_output (rotators st ! j) = for_output (rotators st ! i) \<Longrightarrow> j = i" for j
      using shared_inv_unique [OF inv _ i] by blast
    show ?thesis
      unfolding st' using inv len gone sh True dist
      by (auto dest: un simp: shared_inv_def nth_list_update others map_of_remove_first [OF dist uniq] distinct_remove_first)
  qed
qed

section \<open>The interface\<close>

text \<open>
  What the loggers and access logs may assume of the shared rotators, \<open>held\<close> being what the clients
  hold: acquiring adds a rotator for the output, releasing takes one away, and at any time there is at
  most one rotator per output among those held.
\<close>

locale shared_outputs =
  fixes acquire :: "string \<Rightarrow> 's \<Rightarrow> nat \<times> 's"
    and release :: "nat \<Rightarrow> 's \<Rightarrow> 's"
    and output_of :: "'s \<Rightarrow> nat \<Rightarrow> string"
    and good :: "'s \<Rightarrow> nat multiset \<Rightarrow> bool"
  assumes acquire_good: "good s h \<Longrightarrow> acquire out s = (i, s') \<Longrightarrow> good s' (add_mset i h) \<and> output_of s' i = out"
    and release_good: "good s h \<Longrightarrow> i \<in># h \<Longrightarrow> good (release i s) (h - {#i#})"
    and one_per_output: "good s h \<Longrightarrow> i \<in># h \<Longrightarrow> j \<in># h \<Longrightarrow> output_of s i = output_of s j \<Longrightarrow> i = j"
begin

lemma acquire_release: "good s h \<Longrightarrow> acquire out s = (i, s') \<Longrightarrow> good (release i s') h"
  using release_good [of s' "add_mset i h" i] acquire_good [of s h out i s'] by simp

lemma acquire_same:
  assumes "good s h" "acquire out s = (i, s')" "acquire out s' = (j, s'')" "output_of s'' i = output_of s' i"
  shows "j = i"
proof -
  have "good s'' (add_mset j (add_mset i h))" "output_of s'' j = out" "output_of s' i = out"
    using acquire_good [OF assms(1,2)] acquire_good [of s' "add_mset i h" out j s''] assms(3) by simp_all
  then show ?thesis
    using one_per_output [of s'' "add_mset j (add_mset i h)" j i] assms(4) by simp
qed

end

interpretation outputs: shared_outputs "\<lambda>out. SharedRotator out cfg" "\<lambda>i st. snd (Close closeErr i st)"
    "\<lambda>st i. for_output (rotators st ! i)" shared_inv for cfg closeErr
proof unfold_locales
  fix s s' :: registry and h i j out
  show "shared_inv s h \<Longrightarrow> SharedRotator out cfg s = (i, s') \<Longrightarrow>
      shared_inv s' (add_mset i h) \<and> for_output (rotators s' ! i) = out"
    by (rule shared_inv_SharedRotator)
  show "shared_inv s h \<Longrightarrow> i \<in># h \<Longrightarrow> shared_inv (snd (Close closeErr i s)) (h - {#i#})"
    by (rule shared_inv_Close)
  show "shared_inv s h \<Longrightarrow> i \<in># h \<Longrightarrow> j \<in># h \<Longrightarrow>
      for_output (rotators s ! i) = for_output (rotators s ! j) \<Longrightarrow> i = j"
    by (rule shared_inv_unique)
qed

section \<open>Runs\<close>

text \<open>Clients one at a time: each shares a rotator and later closes one it holds.\<close>

inductive shared_reach :: "registry \<Rightarrow> nat multiset \<Rightarrow> bool" where
  start: "shared_reach empty_registry {#}"
| share: "shared_reach st h \<Longrightarrow> SharedRotator out cfg st = (i, st') \<Longrightarrow> shared_reach st' (add_mset i h)"
| close: "shared_reach st h \<Longrightarrow> i \<in># h \<Longrightarrow> shared_reach (snd (Close closeErr i st)) (h - {#i#})"

lemma shared_reach_inv: "shared_reach st h \<Longrightarrow> shared_inv st h"
proof (induction rule: shared_reach.induct)
  case start
  show ?case by (rule shared_inv_empty)
next
  case (share st h out cfg i st')
  from outputs.acquire_good [OF share.IH share.hyps(2)] show ?case by simp
next
  case (close st h i closeErr)
  from outputs.release_good [OF close.IH close.hyps(2)] show ?case .
qed

text \<open>
  Clients that run concurrently: between the steps of one client's \<open>Close\<close> others run. \<open>removing\<close> and
  \<open>closing\<close> are the rotators whose \<open>Close\<close> is before the removal and before the underlying close.
\<close>

inductive race_reach :: "registry \<Rightarrow> nat multiset \<Rightarrow> nat multiset \<Rightarrow> nat multiset \<Rightarrow> bool" where
  race_start: "race_reach empty_registry {#} {#} {#}"
| race_share: "race_reach st h r c \<Longrightarrow> SharedRotator out cfg st = (i, st') \<Longrightarrow> race_reach st' (add_mset i h) r c"
| race_begin: "race_reach st h r c \<Longrightarrow> i \<in># h \<Longrightarrow> close_begin i st = (final, st') \<Longrightarrow>
    race_reach st' (h - {#i#}) (if final then add_mset i r else r) c"
| race_remove: "race_reach st h r c \<Longrightarrow> i \<in># r \<Longrightarrow>
    race_reach (removeSharedRotator i st) h (r - {#i#}) (add_mset i c)"
| race_end: "race_reach st h r c \<Longrightarrow> i \<in># c \<Longrightarrow> race_reach (close_end i st) h r (c - {#i#})"

inductive_simps race_start_simps: "race_reach empty_registry {#} {#} {#}"

section \<open>Properties\<close>

text \<open>C19. Reference counting, for clients that run one at a time: in every run there is at most one
  rotator per output among those in use; the map holds exactly the rotators in use, under their output;
  and a rotator is closed exactly once, when its last user closes it, and never while in use.\<close>

theorem rotators_counted:
  assumes "shared_reach st h"
  shows "(\<forall>i \<in># h. \<forall>j \<in># h. for_output (rotators st ! i) = for_output (rotators st ! j) \<longrightarrow> i = j) \<and>
    (\<forall>k i. map_of (sharedRotators st) k = Some i \<longleftrightarrow> i \<in># h \<and> for_output (rotators st ! i) = k) \<and>
    (\<forall>i < length (rotators st). closes (rotators st ! i) = (if i \<in># h then 0 else 1))"
  using shared_reach_inv [OF assms] outputs.one_per_output [OF shared_reach_inv [OF assms]]
  by (simp add: shared_inv_def)

definition demo_rotation :: Rotation where
  "demo_rotation = \<lparr>MaxSize = 1, MaxBackups = 1, MaxAge = 1, Compress = False, LocalTime = False\<rparr>"

theorem rotators_counted_witness:
  "let st = snd (SharedRotator ''a.log'' demo_rotation (snd (SharedRotator ''a.log'' demo_rotation empty_registry)));
       st' = snd (Close (\<lambda>_. None) 0 (snd (Close (\<lambda>_. None) 0 st)))
   in closes (rotators st ! 0) = 0 \<and> closes (rotators st' ! 0) = 1 \<and> map_of (sharedRotators st') ''a.log'' = None"
proof -
  let ?s1 = "snd (SharedRotator ''a.log'' demo_rotation empty_registry)"
  let ?st = "snd (SharedRotator ''a.log'' demo_rotation ?s1)"
  let ?c1 = "snd (Close (\<lambda>_. None) 0 ?st)"
  have r1: "shared_reach ?s1 {#0#}"
    by (rule shared_reach.share [OF shared_reach.start]) (simp add: SharedRotator_def empty_registry_def Let_def)
  have r2: "shared_reach ?st {#0, 0#}"
    by (rule shared_reach.share [OF r1]) (simp add: SharedRotator_def empty_registry_def share_def Let_def)
  have r3: "shared_reach ?c1 {#0#}"
    using shared_reach.close [OF r2, of 0] by simp
  have r4: "shared_reach (snd (Close (\<lambda>_. None) 0 ?c1)) {#}"
    using shared_reach.close [OF r3, of 0] by simp
  have len: "length (rotators ?st) = 1" "length (rotators (snd (Close (\<lambda>_. None) 0 ?c1))) = 1"
    by (simp_all add: SharedRotator_def empty_registry_def share_def Close_def close_begin_def close_end_def
        removeSharedRotator_def Let_def)
  have none: "map_of (sharedRotators (snd (Close (\<lambda>_. None) 0 ?c1))) ''a.log'' = None"
    using rotators_counted [OF r4] by (metis empty_iff not_None_eq set_mset_empty)
  show ?thesis
    unfolding Let_def using rotators_counted [OF r2] rotators_counted [OF r4] len none by simp
qed

text \<open>C20. The steps of \<open>Close\<close> race with \<open>SharedRotator\<close>: for every output there is an interleaving of
  three clients after which two different rotators for it are in use at once, one of them already
  closed and no longer in the map (so \<open>RotateShared\<close> does not reach it).\<close>

theorem close_race:
  "\<exists>st i j. race_reach st {#i, j#} {#} {#} \<and> i \<noteq> j \<and>
     for_output (rotators st ! i) = out \<and> for_output (rotators st ! j) = out \<and>
     closes (rotators st ! i) = 1 \<and> map_of (sharedRotators st) out = Some j \<and> i \<notin> snd ` set (sharedRotators st)"
proof -
  define r where "r = (\<lambda>n m. \<lparr>impl = NewRotator out demo_rotation, shared = n, for_output = out, closes = m\<rparr>)"
  have A: "race_reach \<lparr>rotators = [r 1 0], sharedRotators = [(out, 0)]\<rparr> {#0#} {#} {#}"
    by (rule race_share [OF race_start, where cfg = demo_rotation and out = out])
       (simp add: SharedRotator_def empty_registry_def share_def r_def Let_def)
  have begun: "race_reach \<lparr>rotators = [r 0 0], sharedRotators = [(out, 0)]\<rparr> {#} {#0#} {#}"
    using race_begin [OF A, of 0 True "\<lparr>rotators = [r 0 0], sharedRotators = [(out, 0)]\<rparr>"]
    by (simp add: close_begin_def r_def Let_def)
  have B: "race_reach \<lparr>rotators = [r 1 0], sharedRotators = [(out, 0)]\<rparr> {#0#} {#0#} {#}"
    by (rule race_share [OF begun, where cfg = demo_rotation and out = out])
       (simp add: SharedRotator_def share_def r_def)
  have removed: "race_reach \<lparr>rotators = [r 1 0], sharedRotators = []\<rparr> {#0#} {#} {#0#}"
    using race_remove [OF B, of 0] by (simp add: removeSharedRotator_def)
  have ended: "race_reach \<lparr>rotators = [r 1 1], sharedRotators = []\<rparr> {#0#} {#} {#}"
    using race_end [OF removed, of 0] by (simp add: close_end_def r_def)
  have C: "race_reach \<lparr>rotators = [r 1 1, r 1 0], sharedRotators = [(out, 1)]\<rparr> {#1, 0#} {#} {#}"
    by (rule race_share [OF ended, where cfg = demo_rotation and out = out])
       (simp add: SharedRotator_def share_def r_def Let_def)
  have "{#1, 0#} = {#0, 1 :: nat#}" by simp
  with C have "race_reach \<lparr>rotators = [r 1 1, r 1 0], sharedRotators = [(out, 1)]\<rparr> {#0, 1#} {#} {#}" by metis
  then show ?thesis
    by (intro exI conjI) (assumption, simp_all add: r_def)
qed

lemma parse_flags_known:
  "(\<exists>flgs. parse_flags fs n = Inr flgs) \<longleftrightarrow> set fs \<subseteq> {''date'', ''time'', ''microsecond'', ''utc'', ''msgprefix''}"
  by (induction fs n rule: parse_flags.induct) auto

text \<open>Loggers hold and give back their rotator: \<open>NewLogger\<close> succeeds exactly if it logs nowhere or all
  its flags are known (\<open>microsecond\<close> is, \<open>microseconds\<close> is not); when it fails the rotators in use are
  those from before; and after a successful \<open>NewLogger\<close>, \<open>Close\<close> (if the underlying close succeeds)
  gives exactly the acquired rotator back, and a second \<open>Close\<close> does nothing.\<close>

lemma logger_open_close:
  assumes "shared_reach st h" "NewLogger closeErr cfg st = (res, st1)" "\<forall>i. closeErr i = None"
  shows "((\<exists>l. res = Inr l) \<longleftrightarrow> log_Output cfg = [] \<or>
      set (log_Flags cfg) \<subseteq> {''date'', ''time'', ''microsecond'', ''utc'', ''msgprefix''}) \<and>
    (case res of
       Inl err \<Rightarrow> shared_reach st1 h
     | Inr l \<Rightarrow> (\<exists>u. shared_reach st1 (u + h) \<and> size u \<le> 1) \<and>
         (\<exists>l2 st2. logger_Close closeErr l st1 = (None, l2, st2) \<and> shared_reach st2 h \<and>
            logger_Close closeErr l2 st2 = (None, l2, st2)))"
proof (cases "log_Output cfg = []")
  case True
  have "\<exists>u. shared_reach st (u + h) \<and> size u \<le> 1"
    using assms(1) by (intro exI [of _ "{#}"]) simp
  with True show ?thesis
    using assms(1,2) by (auto simp: NewLogger_def logger_Close_def)
next
  case False
  obtain i s where sh: "SharedRotator (log_Output cfg) (log_Rotation cfg) st = (i, s)"
    by (cases "SharedRotator (log_Output cfg) (log_Rotation cfg) st")
  have s: "shared_reach s (add_mset i h)"
    by (rule shared_reach.share [OF assms(1) sh])
  have returned: "shared_reach (snd (Close closeErr i s)) h"
    using shared_reach.close [OF s, of i closeErr] by simp
  have none: "fst (Close closeErr i s) = None"
    using assms(3) by (simp add: Close_def split_def Let_def)
  show ?thesis
  proof (cases "parse_flags (log_Flags cfg) 0")
    case (Inl err)
    then have "res = Inl err" "st1 = snd (Close closeErr i s)"
      using assms(2) False sh by (auto simp: NewLogger_def newLogger_def)
    moreover have "\<not> set (log_Flags cfg) \<subseteq> {''date'', ''time'', ''microsecond'', ''utc'', ''msgprefix''}"
      using Inl by (simp flip: parse_flags_known [of _ 0])
    ultimately show ?thesis
      using False returned by simp
  next
    case (Inr flgs)
    then have res: "res = Inr (Logger (LogLogger i (log_Prefix cfg) flgs) (Some i))" "st1 = s"
      using assms(2) False sh by (auto simp: NewLogger_def newLogger_def)
    have "set (log_Flags cfg) \<subseteq> {''date'', ''time'', ''microsecond'', ''utc'', ''msgprefix''}"
      using Inr by (simp flip: parse_flags_known [of _ 0])
    moreover have "logger_Close closeErr (Logger (LogLogger i (log_Prefix cfg) flgs) (Some i)) s =
        (None, Logger (LogLogger i (log_Prefix cfg) flgs) None, snd (Close closeErr i s))"
      using none by (simp add: logger_Close_def split_def Let_def)
    ultimately show ?thesis
      using res s returned by (auto simp: logger_Close_def intro!: exI [of _ "{#i#}"])
  qed
qed

definition demo_log :: LogConfig where
  "demo_log = \<lparr>log_Output = ''a.log'', log_Prefix = [], log_Flags = [''date'', ''microseconds''], log_Rotation = demo_rotation\<rparr>"

lemma logger_open_close_witness:
  "(\<exists>err. fst (NewLogger (\<lambda>_. None) demo_log empty_registry) = Inl err) \<and>
   (\<exists>l. fst (NewLogger (\<lambda>_. None) (demo_log\<lparr>log_Flags := [''date'', ''microsecond'']\<rparr>) empty_registry) = Inr l)"
  using logger_open_close [OF shared_reach.start surjective_pairing, of "\<lambda>_. None" demo_log]
    logger_open_close [OF shared_reach.start surjective_pairing, of "\<lambda>_. None" "demo_log\<lparr>log_Flags := [''date'', ''microsecond'']\<rparr>"]
  by (auto simp: demo_log_def split: sum.splits)

end
