(* ===== verification/GoTime.thy ===== *)
theory GoTime
  imports GoPrelude
begin

text \<open>
  What the sources use of Go's package \<open>time\<close>: a \<open>time.Time\<close> in its zone, its calendar accessors, date
  arithmetic and the elements of \<open>AppendFormat\<close> layouts that occur. A time is its year, the day of that
  year (from 1), the second of that day on the wall clock, the nanosecond, and the zone's offset and
  abbreviation; everything else (month, day, weekday, ISO week, Unix time) is computed from them.
\<close>

section \<open>Times\<close>

record gotime =
  t_year :: int
  t_yday :: int
  t_sec :: int
  t_nsec :: int
  t_offset :: int
  t_abbr :: string

text \<open>Go's integer division and remainder truncate towards zero.\<close>

definition go_div :: "int \<Rightarrow> int \<Rightarrow> int" where
  "go_div a b = sgn a * sgn b * (\<bar>a\<bar> div \<bar>b\<bar>)"

definition go_rem :: "int \<Rightarrow> int \<Rightarrow> int" where
  "go_rem a b = a - b * go_div a b"

lemma go_div_nonneg [simp]: "0 \<le> a \<Longrightarrow> 0 < b \<Longrightarrow> go_div a b = a div b"
  by (cases "a = 0") (simp_all add: go_div_def)

lemma go_rem_nonneg [simp]: "0 \<le> a \<Longrightarrow> 0 < b \<Longrightarrow> go_rem a b = a mod b"
  by (simp add: go_rem_def minus_mult_div_eq_mod)

section \<open>The calendar\<close>

definition is_leap :: "int \<Rightarrow> bool" where
  "is_leap y \<longleftrightarrow> 4 dvd y \<and> (\<not> 100 dvd y \<or> 400 dvd y)"

definition year_length :: "int \<Rightarrow> int" where
  "year_length y = (if is_leap y then 366 else 365)"

definition month_lengths :: "int \<Rightarrow> int list" where
  "month_lengths y = [31, if is_leap y then 29 else 28, 31, 30, 31, 30, 31, 31, 30, 31, 30, 31]"

fun find_month :: "int list \<Rightarrow> int \<Rightarrow> int \<Rightarrow> int \<times> int" where
  "find_month [] m d = (m, d)"
| "find_month (l # ls) m d = (if d \<le> l then (m, d) else find_month ls (m + 1) (d - l))"

definition Month :: "gotime \<Rightarrow> int" where
  "Month t = fst (find_month (month_lengths (t_year t)) 1 (t_yday t))"

definition Day :: "gotime \<Rightarrow> int" where
  "Day t = snd (find_month (month_lengths (t_year t)) 1 (t_yday t))"

definition Hour :: "gotime \<Rightarrow> int" where
  "Hour t = t_sec t div 3600"

definition Minute :: "gotime \<Rightarrow> int" where
  "Minute t = t_sec t mod 3600 div 60"

definition Second :: "gotime \<Rightarrow> int" where
  "Second t = t_sec t mod 60"

text \<open>Days from 1 January of year 1, a Monday. Weekdays count from Sunday, 0.\<close>

definition days_before_year :: "int \<Rightarrow> int" where
  "days_before_year y = 365 * (y - 1) + (y - 1) div 4 - (y - 1) div 100 + (y - 1) div 400"

definition day_number :: "gotime \<Rightarrow> int" where
  "day_number t = days_before_year (t_year t) + (t_yday t - 1)"

definition Weekday :: "gotime \<Rightarrow> int" where
  "Weekday t = (day_number t + 1) mod 7"

definition Unix :: "gotime \<Rightarrow> int" where
  "Unix t = (day_number t - 719162) * 86400 + t_sec t - t_offset t"

text \<open>\<open>AddDate(0, 0, d)\<close>: the day of the year is moved and normalised.\<close>

function norm_day :: "int \<Rightarrow> int \<Rightarrow> int \<times> int" where
  "norm_day y d =
     (if d < 1 then norm_day (y - 1) (d + year_length (y - 1))
      else if d > year_length y then norm_day (y + 1) (d - year_length y)
      else (y, d))"
  by pat_completeness auto
termination
proof (relation "measure (\<lambda>(y, d). if d < 1 then nat (1 - d) + 400
    else if d > year_length y then nat d else 0)")
qed (auto simp: year_length_def split: if_splits)

declare norm_day.simps [simp del]

definition AddDays :: "gotime \<Rightarrow> int \<Rightarrow> gotime" where
  "AddDays t d = (let (y, yd) = norm_day (t_year t) (t_yday t + d) in t\<lparr>t_year := y, t_yday := yd\<rparr>)"

text \<open>\<open>ISOWeek\<close>: the week of the Thursday of the same Monday-to-Sunday week.\<close>

definition ISOWeek :: "gotime \<Rightarrow> int \<times> int" where
  "ISOWeek t =
     (let d = 4 - Weekday t;
          d = (if d = 4 then - 3 else d);
          u = AddDays t d
      in (t_year u, (t_yday u - 1) div 7 + 1))"

text \<open>
  \<open>t.Sub(u)\<close> in nanoseconds, which saturates at the range of \<open>Duration\<close>, and its conversions to whole
  microseconds and seconds. (\<open>Seconds()\<close> is a \<open>float64\<close>; its integer part is exact below \<open>2^24\<close> seconds.)
\<close>

definition nanos :: "gotime \<Rightarrow> int" where
  "nanos t = Unix t * 1000000000 + t_nsec t"

definition Sub :: "gotime \<Rightarrow> gotime \<Rightarrow> int" where
  "Sub t u = max (- (2 ^ 63)) (min (2 ^ 63 - 1) (nanos t - nanos u))"

definition Microseconds :: "int \<Rightarrow> int" where
  "Microseconds d = go_div d 1000"

definition Seconds :: "int \<Rightarrow> int" where
  "Seconds d = go_div d 1000000000"

lemma Sub_nonneg: "nanos u \<le> nanos t \<Longrightarrow> 0 \<le> Sub t u"
  by (simp add: Sub_def)

text \<open>What the accessors of every \<open>time.Time\<close> satisfy, for years 0 to 9999.\<close>

definition time_ok :: "gotime \<Rightarrow> bool" where
  "time_ok t \<longleftrightarrow> 0 \<le> t_year t \<and> t_year t \<le> 9999 \<and> 1 \<le> t_yday t \<and> t_yday t \<le> year_length (t_year t) \<and>
     0 \<le> t_sec t \<and> t_sec t < 86400 \<and> 0 \<le> t_nsec t \<and> t_nsec t < 1000000000 \<and>
     - 86400 < t_offset t \<and> t_offset t < 86400"

section \<open>Layouts\<close>

definition month_names :: "string list" where
  "month_names = [''January'', ''February'', ''March'', ''April'', ''May'', ''June'', ''July'', ''August'',
     ''September'', ''October'', ''November'', ''December'']"

definition day_names :: "string list" where
  "day_names = [''Sunday'', ''Monday'', ''Tuesday'', ''Wednesday'', ''Thursday'', ''Friday'', ''Saturday'']"

definition two :: "char \<Rightarrow> int \<Rightarrow> bytes" where
  "two pad n = (if n < 10 then [pad, char_of (48 + n)] else [char_of (48 + n div 10), char_of (48 + n mod 10)])"

definition four :: "int \<Rightarrow> bytes" where
  "four n = two (CHR ''0'') (n div 100) @ two (CHR ''0'') (n mod 100)"

text \<open>\<open>MST\<close>: the abbreviation, or the offset when the zone has none.\<close>

definition zone_text :: "gotime \<Rightarrow> bytes" where
  "zone_text t =
     (if t_abbr t \<noteq> [] then t_abbr t
      else let zone = go_div (t_offset t) 60
           in (if zone < 0 then ''-'' else ''+'') @ two (CHR ''0'') (\<bar>zone\<bar> div 60) @ two (CHR ''0'') (\<bar>zone\<bar> mod 60))"

text \<open>The layout elements that occur, each with what it writes (years 0 to 9999).\<close>

definition layout_elems :: "(string \<times> (gotime \<Rightarrow> bytes)) list" where
  "layout_elems =
    [(''Monday'', \<lambda>t. day_names ! nat (Weekday t)),
     (''Mon'', \<lambda>t. take 3 (day_names ! nat (Weekday t))),
     (''January'', \<lambda>t. month_names ! nat (Month t - 1)),
     (''Jan'', \<lambda>t. take 3 (month_names ! nat (Month t - 1))),
     (''MST'', zone_text),
     (''2006'', \<lambda>t. four (t_year t)),
     (''_2'', \<lambda>t. two (CHR '' '') (Day t)),
     (''01'', \<lambda>t. two (CHR ''0'') (Month t)),
     (''02'', \<lambda>t. two (CHR ''0'') (Day t)),
     (''04'', \<lambda>t. two (CHR ''0'') (Minute t)),
     (''05'', \<lambda>t. two (CHR ''0'') (Second t)),
     (''06'', \<lambda>t. two (CHR ''0'') (t_year t mod 100)),
     (''15'', \<lambda>t. two (CHR ''0'') (Hour t)),
     (''PM'', \<lambda>t. if Hour t \<ge> 12 then ''PM'' else ''AM''),
     (''pm'', \<lambda>t. if Hour t \<ge> 12 then ''pm'' else ''am'')]"

fun find_elem :: "(string \<times> 'a) list \<Rightarrow> bytes \<Rightarrow> (nat \<times> 'a) option" where
  "find_elem [] s = None"
| "find_elem ((p, f) # ps) s = (if HasPrefix s p then Some (length p - 1, f) else find_elem ps s)"

function AppendFormat :: "bytes \<Rightarrow> gotime \<Rightarrow> string \<Rightarrow> bytes" where
  "AppendFormat dst t [] = dst"
| "AppendFormat dst t (c # cs) =
     (case find_elem layout_elems (c # cs) of
        None \<Rightarrow> AppendFormat (dst @ [c]) t cs
      | Some (n, f) \<Rightarrow> AppendFormat (dst @ f t) t (drop n cs))"
  by pat_completeness auto
termination
  by (relation "measure (\<lambda>(dst, t, l). length l)") auto

section \<open>Ranges\<close>

lemma find_month_range:
  "1 \<le> d \<Longrightarrow> d \<le> sum_list ls \<Longrightarrow> list_all (\<lambda>l. l \<le> 31) ls \<Longrightarrow> find_month ls m d = (m', d') \<Longrightarrow>
   m \<le> m' \<and> m' < m + int (length ls) \<and> 1 \<le> d' \<and> d' \<le> 31"
proof (induction ls arbitrary: m d)
  case (Cons l ls)
  show ?case
  proof (cases "d \<le> l")
    case False
    with Cons.prems Cons.IH [of "d - l" "m + 1"] show ?thesis
      by simp
  qed (use Cons.prems in simp)
qed simp

lemma sum_month_lengths: "sum_list (month_lengths y) = year_length y"
  by (simp add: month_lengths_def year_length_def)

lemma month_day_range:
  assumes "1 \<le> t_yday t" "t_yday t \<le> year_length (t_year t)"
  shows "1 \<le> Month t \<and> Month t \<le> 12 \<and> 1 \<le> Day t \<and> Day t \<le> 31"
proof -
  have "list_all (\<lambda>l. l \<le> 31) (month_lengths (t_year t))" "length (month_lengths (t_year t)) = 12"
    by (simp_all add: month_lengths_def)
  then show ?thesis
    using assms find_month_range [of "t_yday t" "month_lengths (t_year t)" 1 "Month t" "Day t"]
    by (simp add: sum_month_lengths Month_def Day_def)
qed

text \<open>Month and day determine the day of the year.\<close>

fun days_before_month :: "int list \<Rightarrow> nat \<Rightarrow> int" where
  "days_before_month ls 0 = 0"
| "days_before_month [] (Suc n) = 0"
| "days_before_month (l # ls) (Suc n) = l + days_before_month ls n"

lemma find_month_sum:
  "d \<le> sum_list ls \<Longrightarrow> find_month ls m d = (m', d') \<Longrightarrow>
   m \<le> m' \<and> d = days_before_month ls (nat (m' - m)) + d'"
proof (induction ls arbitrary: m d)
  case (Cons l ls)
  show ?case
  proof (cases "d \<le> l")
    case False
    with Cons.prems Cons.IH [of "d - l" "m + 1"]
    have IH: "m + 1 \<le> m'" "d - l = days_before_month ls (nat (m' - (m + 1))) + d'"
      by auto
    then have "nat (m' - m) = Suc (nat (m' - (m + 1)))"
      by simp
    with IH show ?thesis
      by simp
  qed (use Cons.prems in simp)
qed simp

lemma yday_of_date:
  assumes "t_yday t \<le> year_length (t_year t)"
  shows "t_yday t = days_before_month (month_lengths (t_year t)) (nat (Month t - 1)) + Day t"
proof -
  have "t_yday t \<le> sum_list (month_lengths (t_year t))"
    using assms by (simp add: sum_month_lengths)
  then show ?thesis
    using find_month_sum [of "t_yday t" "month_lengths (t_year t)" 1 "Month t" "Day t"]
    by (simp add: Month_def Day_def)
qed

lemma clock_range:
  assumes "0 \<le> t_sec t" "t_sec t < 86400"
  shows "0 \<le> Hour t" "Hour t < 24" "0 \<le> Minute t" "Minute t < 60" "0 \<le> Second t" "Second t < 60"
  using assms by (simp_all add: Hour_def Minute_def Second_def)

lemma sec_of_clock: "t_sec t = Hour t * 3600 + Minute t * 60 + Second t"
proof -
  have "t_sec t mod 3600 mod 60 = t_sec t mod 60"
    by (rule mod_mod_cancel) simp
  then have "t_sec t mod 3600 = t_sec t mod 3600 div 60 * 60 + t_sec t mod 60"
    using div_mult_mod_eq [of "t_sec t mod 3600" 60] by simp
  from arg_cong [OF this, of "\<lambda>x. t_sec t div 3600 * 3600 + x"] show ?thesis
    by (simp add: Hour_def Minute_def Second_def)
qed

lemma Weekday_range: "0 \<le> Weekday t" "Weekday t < 7"
  by (simp_all add: Weekday_def)

lemma norm_day_range: "1 \<le> snd (norm_day y d) \<and> snd (norm_day y d) \<le> year_length (fst (norm_day y d))"
proof (induction y d rule: norm_day.induct)
  case (1 y d)
  then show ?case
    by (simp add: norm_day.simps [of y d])
qed

lemma norm_day_id: "1 \<le> d \<Longrightarrow> d \<le> year_length y \<Longrightarrow> norm_day y d = (y, d)"
  by (simp add: norm_day.simps)

lemma year_length_bounds: "365 \<le> year_length y" "year_length y \<le> 366"
  by (simp_all add: year_length_def)

lemma AddDays_range: "1 \<le> t_yday (AddDays t d) \<and> t_yday (AddDays t d) \<le> 366"
  using norm_day_range [of "t_year t" "t_yday t + d"] year_length_bounds
  by (auto simp: AddDays_def split_def Let_def intro: order_trans)

lemma ISOWeek_range: "1 \<le> snd (ISOWeek t) \<and> snd (ISOWeek t) \<le> 53"
proof -
  have *: "1 \<le> (x - 1) div 7 + 1 \<and> (x - 1) div 7 + 1 \<le> 53" if "1 \<le> x" "x \<le> 366" for x :: int
    using that by presburger
  define d where "d = (if 4 - Weekday t = 4 then - 3 else 4 - Weekday t)"
  have "snd (ISOWeek t) = (t_yday (AddDays t d) - 1) div 7 + 1"
    by (simp only: ISOWeek_def Let_def snd_conv d_def)
  then show ?thesis
    using * AddDays_range [of t d] by (simp only:)
qed

text \<open>Normalising a day does not change the day number.\<close>

lemma div_pred:
  assumes "0 < (n::int)"
  shows "y div n = (y - 1) div n + (if n dvd y then 1 else 0)"
proof -
  define q r where "q = (y - 1) div n" and "r = (y - 1) mod n"
  have y: "y = n * q + (r + 1)" and r: "0 \<le> r" "r < n"
    using assms by (simp_all add: q_def r_def)
  show ?thesis
  proof (cases "r + 1 = n")
    case True
    then have "y = n * (q + 1)"
      using y by (simp add: algebra_simps)
    then have "n dvd y" "y div n = q + 1"
      using assms by simp_all
    then show ?thesis
      by (simp add: q_def)
  next
    case False
    then have "y mod n = r + 1" "y div n = q"
      using y r assms by (simp_all add: zmod_trivial_iff)
    then show ?thesis
      using r by (simp add: q_def dvd_eq_mod_eq_0)
  qed
qed

lemma days_before_year_Suc: "days_before_year (y + 1) = days_before_year y + year_length y"
proof -
  have d: "100 dvd y \<Longrightarrow> 4 dvd y" "400 dvd y \<Longrightarrow> 100 dvd y"
    using dvd_trans [of 4 100 y] dvd_trans [of 100 400 y] by simp_all
  have "days_before_year (y + 1) - days_before_year y =
      365 + (y div 4 - (y - 1) div 4) - (y div 100 - (y - 1) div 100) + (y div 400 - (y - 1) div 400)"
    by (simp add: days_before_year_def)
  also have "\<dots> = 365 + (if 4 dvd y then 1 else 0) - (if 100 dvd y then 1 else 0) + (if 400 dvd y then 1 else 0)"
    by (simp only: div_pred [of 4 y] div_pred [of 100 y] div_pred [of 400 y] zero_less_numeral add_diff_cancel_left')
  also have "\<dots> = year_length y"
    using d by (auto simp only: year_length_def is_leap_def split: if_splits)
  finally show ?thesis
    by (simp only: diff_eq_eq add.commute)
qed

lemma norm_day_number:
  "days_before_year (fst (norm_day y d)) + snd (norm_day y d) = days_before_year y + d"
proof (induction y d rule: norm_day.induct)
  case (1 y d)
  then show ?case
    using days_before_year_Suc [of y] days_before_year_Suc [of "y - 1"]
    by (auto simp: norm_day.simps [of y d])
qed

lemma AddDays_number: "day_number (AddDays t d) = day_number t + d"
  using norm_day_number [of "t_year t" "t_yday t + d"]
  by (simp add: day_number_def AddDays_def split_def Let_def)

text \<open>The ISO week's year and number are those of a Thursday.\<close>

lemma ISOWeek_thursday:
  "\<exists>u. Weekday u = 4 \<and> \<bar>day_number u - day_number t\<bar> \<le> 3 \<and> ISOWeek t = (t_year u, (t_yday u - 1) div 7 + 1)"
proof -
  define d where "d = (if 4 - Weekday t = 4 then - 3 else 4 - Weekday t)"
  have "Weekday (AddDays t d) = (day_number t + 1 + d) mod 7"
    by (simp add: Weekday_def AddDays_number add_ac)
  also have "\<dots> = (Weekday t + d) mod 7"
    by (simp only: Weekday_def mod_add_left_eq)
  also have "\<dots> = 4"
    by (cases "Weekday t = 0") (simp_all add: d_def)
  finally have "Weekday (AddDays t d) = 4" .
  moreover have "\<bar>day_number (AddDays t d) - day_number t\<bar> \<le> 3"
    using Weekday_range [of t] by (auto simp: AddDays_number d_def)
  moreover have "ISOWeek t = (t_year (AddDays t d), (t_yday (AddDays t d) - 1) div 7 + 1)"
    by (simp add: ISOWeek_def d_def Let_def)
  ultimately show ?thesis
    by blast
qed

text \<open>A fixed time for the witnesses: Monday 2 January 2006, 15:04:05 UTC.\<close>

definition demo_time :: gotime where
  "demo_time = \<lparr>t_year = 2006, t_yday = 2, t_sec = 54245, t_nsec = 0, t_offset = 0, t_abbr = ''UTC''\<rparr>"

lemma demo_time_ok: "time_ok demo_time"
  by (simp add: time_ok_def demo_time_def year_length_def is_leap_def)

lemma demo_time_fields:
  "t_year demo_time = 2006" "Month demo_time = 1" "Day demo_time = 2" "Hour demo_time = 15"
  "Minute demo_time = 4" "Second demo_time = 5" "Weekday demo_time = 1" "Unix demo_time = 1136214245"
  "t_offset demo_time = 0" "ISOWeek demo_time = (2006, 1)"
  by code_simp+

end
