(* ===== verification/Strftime.thy ===== *)
theory Strftime
  imports GoTime UtilBytes
begin

text \<open>
  The time formatter of \<open>pkg/util/strftime.go\<close>: the compilation of a format into a list of append
  functions, the functions of the directives, and their run. \<open>au\<close> is \<open>fasthttp.AppendUint\<close>, whose
  documented result (the decimal digits, for a number that is not negative) is \<open>append_uint_ok au\<close>.
\<close>

section \<open>Model\<close>

type_synonym append_uint = "bytes \<Rightarrow> int \<Rightarrow> bytes"

type_synonym strftimeFunc = "bytes \<Rightarrow> gotime \<Rightarrow> bytes go"

definition strftimeBytes :: "bytes \<Rightarrow> strftimeFunc" where
  "strftimeBytes b = (\<lambda>dst t. Inr (dst @ b))"

definition strftimeGo :: "string \<Rightarrow> strftimeFunc" where
  "strftimeGo layout = (\<lambda>dst t. Inr (AppendFormat dst t layout))"

text \<open>One directive after another, with fixed text between: \<open>dst = f(dst, t); dst = append(dst, c)\<close>.\<close>

definition then_text :: "strftimeFunc \<Rightarrow> bytes \<Rightarrow> strftimeFunc" where
  "then_text f b = (\<lambda>dst t. go_bind (f dst t) (\<lambda>dst. Inr (dst @ b)))"

definition then_fn :: "strftimeFunc \<Rightarrow> strftimeFunc \<Rightarrow> strftimeFunc" where
  "then_fn f g = (\<lambda>dst t. go_bind (f dst t) (\<lambda>dst. g dst t))"

definition strftimeC :: strftimeFunc where
  "strftimeC dst t = AppendZeroPaddingUint dst (go_div (t_year t) 100) 2"

definition strftimeLd :: strftimeFunc where
  "strftimeLd dst t = AppendZeroPaddingUint dst (Day t) 2"

definition strftimeLe :: strftimeFunc where
  "strftimeLe dst t = AppendSpacePaddingUint dst (Day t) 2"

definition strftimeH :: strftimeFunc where
  "strftimeH dst t = AppendZeroPaddingUint dst (Hour t) 2"

definition strftimeI :: strftimeFunc where
  "strftimeI dst t =
     (let h = Hour t; h = (if h > 12 then h - 12 else h) in AppendZeroPaddingUint dst h 2)"

definition strftimeLj :: strftimeFunc where
  "strftimeLj dst t = AppendZeroPaddingUint dst (t_yday t) 3"

definition strftimeLk :: strftimeFunc where
  "strftimeLk dst t = AppendSpacePaddingUint dst (Hour t) 2"

definition strftimeLl :: strftimeFunc where
  "strftimeLl dst t =
     (let h = Hour t; h = (if h > 12 then h - 12 else h) in AppendSpacePaddingUint dst h 2)"

definition strftimeLu :: "append_uint \<Rightarrow> strftimeFunc" where
  "strftimeLu au dst t =
     (let w = Weekday t; w = (if w = 0 then 7 else w) in Inr (au dst w))"

definition strftimeLm :: strftimeFunc where
  "strftimeLm dst t = AppendZeroPaddingUint dst (Month t) 2"

definition strftimeM :: strftimeFunc where
  "strftimeM dst t = AppendZeroPaddingUint dst (Minute t) 2"

definition strftimeS :: strftimeFunc where
  "strftimeS dst t = AppendZeroPaddingUint dst (Second t) 2"

definition strftimeLy :: strftimeFunc where
  "strftimeLy dst t = AppendZeroPaddingUint dst (go_rem (t_year t) 100) 2"

definition strftimeY :: strftimeFunc where
  "strftimeY dst t = AppendZeroPaddingUint dst (t_year t) 4"

definition strftimeD :: strftimeFunc where
  "strftimeD = then_fn (then_text strftimeLm ''/'') (then_fn (then_text strftimeLd ''/'') strftimeLy)"

definition strftimeF :: strftimeFunc where
  "strftimeF = then_fn (then_text strftimeY ''-'') (then_fn (then_text strftimeLm ''-'') strftimeLd)"

definition strftimeLr :: strftimeFunc where
  "strftimeLr = then_fn (then_text strftimeI '':'') (then_fn (then_text strftimeM '':'')
     (then_fn (then_text strftimeS '' '') (strftimeGo ''pm'')))"

definition strftimeR :: strftimeFunc where
  "strftimeR = then_fn (then_text strftimeH '':'') strftimeM"

definition strftimeT :: strftimeFunc where
  "strftimeT = then_fn (then_text strftimeH '':'') (then_fn (then_text strftimeM '':'') strftimeS)"

definition strftimeLs :: "append_uint \<Rightarrow> strftimeFunc" where
  "strftimeLs au dst t = Inr (au dst (Unix t))"

text \<open>The week counted from the day of the year \<open>d\<close>; a \<open>d\<close> below 0 is taken in the year before.\<close>

definition append_week :: "int \<Rightarrow> strftimeFunc" where
  "append_week d dst t =
     (if d \<ge> 0 then AppendZeroPaddingUint dst (go_div d 7 + 1) 2
      else let lt = AddDays t d; ld = t_yday lt
           in AppendZeroPaddingUint dst (go_div ld 7 + 1) 2)"

definition strftimeU :: strftimeFunc where
  "strftimeU dst t = append_week (t_yday t - Weekday t) dst t"

definition strftimeV :: strftimeFunc where
  "strftimeV dst t = AppendZeroPaddingUint dst (snd (ISOWeek t)) 2"

definition strftimeLw :: "append_uint \<Rightarrow> strftimeFunc" where
  "strftimeLw au dst t = Inr (au dst (Weekday t))"

definition strftimeW :: strftimeFunc where
  "strftimeW dst t =
     (let w = Weekday t - 1; w = (if w = - 1 then 6 else w) in append_week (t_yday t - w) dst t)"

definition strftimeLz :: strftimeFunc where
  "strftimeLz dst t =
     (let zo = t_offset t;
          (dst, zo) = (if zo < 0 then (dst @ ''-'', - zo) else (dst @ ''+'', zo))
      in go_bind (AppendZeroPaddingUint dst (go_div zo (60 * 60)) 2) (\<lambda>dst. Inr (dst @ ''00'')))"

definition strftimeFuncs :: "append_uint \<Rightarrow> (char \<times> strftimeFunc) list" where
  "strftimeFuncs au =
    [(CHR ''a'', strftimeGo ''Mon''), (CHR ''A'', strftimeGo ''Monday''),
     (CHR ''b'', strftimeGo ''Jan''), (CHR ''B'', strftimeGo ''January''),
     (CHR ''c'', strftimeGo ''Mon Jan _2 15:04:05 2006''), (CHR ''C'', strftimeC),
     (CHR ''d'', strftimeLd), (CHR ''D'', strftimeD), (CHR ''e'', strftimeLe), (CHR ''F'', strftimeF),
     (CHR ''g'', strftimeLy), (CHR ''G'', strftimeY), (CHR ''h'', strftimeGo ''Jan''),
     (CHR ''H'', strftimeH), (CHR ''I'', strftimeI), (CHR ''j'', strftimeLj), (CHR ''k'', strftimeLk),
     (CHR ''l'', strftimeLl), (CHR ''m'', strftimeLm), (CHR ''M'', strftimeM),
     (CHR ''n'', strftimeBytes [CHR 0x0A]), (CHR ''p'', strftimeGo ''pm''), (CHR ''P'', strftimeGo ''PM''),
     (CHR ''r'', strftimeLr), (CHR ''R'', strftimeR), (CHR ''s'', strftimeLs au), (CHR ''S'', strftimeS),
     (CHR ''t'', strftimeBytes [CHR 0x09]), (CHR ''T'', strftimeT), (CHR ''u'', strftimeLu au),
     (CHR ''U'', strftimeU), (CHR ''V'', strftimeV), (CHR ''w'', strftimeLw au), (CHR ''W'', strftimeW),
     (CHR ''x'', strftimeGo ''01/02/06''), (CHR ''X'', strftimeGo ''15:04:05''),
     (CHR ''y'', strftimeLy), (CHR ''Y'', strftimeY), (CHR ''z'', strftimeLz), (CHR ''Z'', strftimeGo ''MST'')]"

text \<open>The loop of \<open>NewStrftimeBytes\<close>, on what is left of the format (\<open>format[off:]\<close>).\<close>

function NewStrftimeBytes :: "append_uint \<Rightarrow> bytes \<Rightarrow> strftimeFunc list" where
  "NewStrftimeBytes au format =
     (let i = IndexByte format (CHR ''%'')
      in if i = - 1 then [strftimeBytes format]
         else
           let fns = (if i > 0 then [strftimeBytes (take (nat i) format)] else [])
           in case drop (nat i + 1) format of
                [] \<Rightarrow> fns
              | c # rest \<Rightarrow>
                  fns @ (case map_of (strftimeFuncs au) c of Some fn \<Rightarrow> fn | None \<Rightarrow> strftimeBytes [c])
                      # NewStrftimeBytes au rest)"
  by pat_completeness auto
termination
proof (relation "measure (\<lambda>(au, f). length f)")
  fix format :: bytes and i c rest
  assume "drop (nat i + 1) format = c # rest"
  then have "length (drop (nat i + 1) format) = Suc (length rest)"
    by simp
  then show "((au, rest), au, format) \<in> measure (\<lambda>(au, f). length f)" for au :: append_uint
    by simp
qed simp

declare NewStrftimeBytes.simps [simp del]

fun AppendBytes :: "strftimeFunc list \<Rightarrow> bytes \<Rightarrow> gotime \<Rightarrow> bytes go" where
  "AppendBytes [] dst t = Inr dst"
| "AppendBytes (fn # fns) dst t = go_bind (fn dst t) (\<lambda>dst. AppendBytes fns dst t)"

definition FormatBytes :: "strftimeFunc list \<Rightarrow> gotime \<Rightarrow> bytes go" where
  "FormatBytes fns t = AppendBytes fns [] t"

section \<open>What a directive writes\<close>

definition append_uint_ok :: "append_uint \<Rightarrow> bool" where
  "append_uint_ok au \<longleftrightarrow> (\<forall>dst n. 0 \<le> n \<longrightarrow> au dst n = dst @ digits n)"

text \<open>\<open>writes f t out\<close>: at \<open>t\<close> the function appends \<open>out\<close>, whatever is in the buffer.\<close>

definition writes :: "strftimeFunc \<Rightarrow> gotime \<Rightarrow> bytes \<Rightarrow> bool" where
  "writes f t out \<longleftrightarrow> (\<forall>dst. f dst t = Inr (dst @ out))"

definition zero_padded :: "nat \<Rightarrow> int \<Rightarrow> bytes" where
  "zero_padded p n = replicate (p - length (digits n)) (CHR ''0'') @ digits n"

definition space_padded :: "nat \<Rightarrow> int \<Rightarrow> bytes" where
  "space_padded p n = replicate (p - length (digits n)) (CHR '' '') @ digits n"

named_theorems strf_writes \<open>what the functions of the directives write\<close>

lemma writes_det: "writes f t a \<Longrightarrow> writes f t b \<Longrightarrow> a = b"
  by (metis Inr_inject append_Nil writes_def)

lemma zero_padding_writes:
  assumes "0 \<le> n" "n < 2 ^ 63" "p \<le> 20"
  shows "AppendZeroPaddingUint dst n (int p) = Inr (dst @ zero_padded p n)"
  using assms by (simp add: AppendZeroPaddingUint_ok zero_padded_def)

lemma space_padding_writes:
  assumes "0 \<le> n" "n < 2 ^ 63" "p \<le> 20"
  shows "AppendSpacePaddingUint dst n (int p) = Inr (dst @ space_padded p n)"
  using assms by (simp add: AppendSpacePaddingUint_ok space_padded_def)

lemmas padding_writes =
  zero_padding_writes [of _ 2, simplified] zero_padding_writes [of _ 3, simplified]
  zero_padding_writes [of _ 4, simplified] space_padding_writes [of _ 2, simplified]

lemma writes_bytes [strf_writes]: "writes (strftimeBytes b) t b"
  by (simp add: writes_def strftimeBytes_def)

lemma AppendFormat_append: "AppendFormat dst t l = dst @ AppendFormat [] t l"
proof (induction l arbitrary: dst rule: length_induct)
  case (1 l)
  show ?case
  proof (cases l)
    case (Cons c cs)
    have IH: "AppendFormat d t k = d @ AppendFormat [] t k" if "length k \<le> length cs" for d k
    proof -
      have "length k < length l"
        using that Cons by simp
      with "1.IH" show ?thesis
        by blast
    qed
    show ?thesis
    proof (cases "find_elem layout_elems (c # cs)")
      case None
      then show ?thesis
        using IH [OF order_refl, of "dst @ [c]"] IH [OF order_refl, of "[c]"] by (simp add: Cons)
    next
      case (Some x)
      then obtain n f where f: "find_elem layout_elems (c # cs) = Some (n, f)"
        by (cases x) auto
      have k: "length (drop n cs) \<le> length cs"
        by simp
      show ?thesis
        using IH [OF k, of "dst @ f t"] IH [OF k, of "f t"] f by (simp add: Cons)
    qed
  qed simp
qed

lemma writes_go [strf_writes]: "writes (strftimeGo l) t (AppendFormat [] t l)"
  unfolding writes_def strftimeGo_def by (intro allI arg_cong [where f = Inr] AppendFormat_append)

lemma writes_then_text [strf_writes]: "writes f t a \<Longrightarrow> writes (then_text f b) t (a @ b)"
  by (simp add: writes_def then_text_def)

lemma writes_then_fn [strf_writes]: "writes f t a \<Longrightarrow> writes g t b \<Longrightarrow> writes (then_fn f g) t (a @ b)"
  by (simp add: writes_def then_fn_def)

text \<open>The ranges of the fields, as the padding functions need them.\<close>

lemma time_fields:
  assumes "time_ok t"
  shows "0 \<le> t_year t" "t_year t \<le> 9999" "1 \<le> t_yday t" "t_yday t \<le> 366"
    "0 \<le> Hour t" "Hour t < 24" "0 \<le> Minute t" "Minute t < 60" "0 \<le> Second t" "Second t < 60"
    "1 \<le> Month t" "Month t \<le> 12" "1 \<le> Day t" "Day t \<le> 31"
  using assms clock_range [of t] month_day_range [of t] year_length_bounds [of "t_year t"]
  by (auto simp: time_ok_def)

lemma writes_fields [strf_writes]:
  assumes "time_ok t"
  shows "writes strftimeC t (zero_padded 2 (t_year t div 100))" "writes strftimeLd t (zero_padded 2 (Day t))"
    "writes strftimeLe t (space_padded 2 (Day t))" "writes strftimeH t (zero_padded 2 (Hour t))"
    "writes strftimeI t (zero_padded 2 (if Hour t > 12 then Hour t - 12 else Hour t))"
    "writes strftimeLj t (zero_padded 3 (t_yday t))" "writes strftimeLk t (space_padded 2 (Hour t))"
    "writes strftimeLl t (space_padded 2 (if Hour t > 12 then Hour t - 12 else Hour t))"
    "writes strftimeLm t (zero_padded 2 (Month t))" "writes strftimeM t (zero_padded 2 (Minute t))"
    "writes strftimeS t (zero_padded 2 (Second t))" "writes strftimeLy t (zero_padded 2 (t_year t mod 100))"
    "writes strftimeY t (zero_padded 4 (t_year t))"
    "writes strftimeV t (zero_padded 2 (snd (ISOWeek t)))"
  using time_fields [OF assms] ISOWeek_range [of t]
  by (simp_all add: writes_def padding_writes Let_def strftimeC_def strftimeLd_def strftimeLe_def strftimeH_def
      strftimeI_def strftimeLj_def strftimeLk_def strftimeLl_def strftimeLm_def strftimeM_def strftimeS_def
      strftimeLy_def strftimeY_def strftimeV_def)

lemma writes_numbers [strf_writes]:
  assumes "append_uint_ok au"
  shows "writes (strftimeLu au) t (digits (if Weekday t = 0 then 7 else Weekday t))"
    "writes (strftimeLw au) t (digits (Weekday t))"
    "0 \<le> Unix t \<Longrightarrow> writes (strftimeLs au) t (digits (Unix t))"
  using assms Weekday_range [of t]
  by (simp_all add: writes_def append_uint_ok_def strftimeLu_def strftimeLw_def strftimeLs_def Let_def)

definition shown_week :: "int \<Rightarrow> gotime \<Rightarrow> int" where
  "shown_week d t = (if d \<ge> 0 then d div 7 + 1 else t_yday (AddDays t d) div 7 + 1)"

lemma writes_week:
  assumes "d \<le> 366"
  shows "writes (append_week d) t (zero_padded 2 (shown_week d t))"
proof -
  have "0 \<le> t_yday (AddDays t d) div 7 + 1" "t_yday (AddDays t d) div 7 + 1 \<le> 53" "1 \<le> t_yday (AddDays t d)"
    using AddDays_range [of t d] by auto
  then show ?thesis
    using assms by (simp add: writes_def append_week_def shown_week_def padding_writes Let_def)
qed

lemma writes_weeks [strf_writes]:
  assumes "time_ok t"
  shows "writes strftimeU t (zero_padded 2 (shown_week (t_yday t - Weekday t) t))"
    "writes strftimeW t (zero_padded 2 (shown_week (t_yday t - (Weekday t - 1) mod 7) t))"
proof -
  have "t_yday t \<le> 366" "0 \<le> (Weekday t - 1) mod 7"
    using time_fields [OF assms] by simp_all
  moreover have "(Weekday t - 1) mod 7 = (if Weekday t - 1 = - 1 then 6 else Weekday t - 1)"
    using Weekday_range [of t] by auto
  ultimately show "writes strftimeU t (zero_padded 2 (shown_week (t_yday t - Weekday t) t))"
    "writes strftimeW t (zero_padded 2 (shown_week (t_yday t - (Weekday t - 1) mod 7) t))"
    using writes_week [of "t_yday t - Weekday t" t] writes_week [of "t_yday t - (Weekday t - 1) mod 7" t]
      Weekday_range [of t]
    by (simp_all add: writes_def strftimeU_def strftimeW_def Let_def)
qed

lemma writes_zone [strf_writes]:
  assumes "time_ok t"
  shows "writes strftimeLz t
    ((if t_offset t < 0 then ''-'' else ''+'') @ zero_padded 2 (\<bar>t_offset t\<bar> div 3600) @ ''00'')"
proof -
  have "\<bar>t_offset t\<bar> div 3600 \<le> 24"
    using assms by (auto simp: time_ok_def)
  then show ?thesis
    by (simp add: writes_def strftimeLz_def padding_writes Let_def)
qed

section \<open>The reference: what each directive stands for\<close>

definition day_name :: "gotime \<Rightarrow> bytes" where
  "day_name t = day_names ! nat (Weekday t)"

definition month_name :: "gotime \<Rightarrow> bytes" where
  "month_name t = month_names ! nat (Month t - 1)"

definition hour12 :: "gotime \<Rightarrow> int" where
  "hour12 t = (if Hour t > 12 then Hour t - 12 else Hour t)"

definition clock :: "gotime \<Rightarrow> bytes" where
  "clock t = zero_padded 2 (Hour t) @ '':'' @ zero_padded 2 (Minute t) @ '':'' @ zero_padded 2 (Second t)"

definition us_date :: "gotime \<Rightarrow> bytes" where
  "us_date t = zero_padded 2 (Month t) @ ''/'' @ zero_padded 2 (Day t) @ ''/'' @ zero_padded 2 (t_year t mod 100)"

definition am_pm :: "gotime \<Rightarrow> bytes" where
  "am_pm t = (if Hour t \<ge> 12 then ''pm'' else ''am'')"

definition directive_texts :: "(char \<times> (gotime \<Rightarrow> bytes)) list" where
  "directive_texts =
    [(CHR ''a'', \<lambda>t. take 3 (day_name t)), (CHR ''A'', day_name),
     (CHR ''b'', \<lambda>t. take 3 (month_name t)), (CHR ''B'', month_name),
     (CHR ''c'', \<lambda>t. take 3 (day_name t) @ '' '' @ take 3 (month_name t) @ '' '' @ space_padded 2 (Day t) @ '' '' @
        clock t @ '' '' @ zero_padded 4 (t_year t)),
     (CHR ''C'', \<lambda>t. zero_padded 2 (t_year t div 100)), (CHR ''d'', \<lambda>t. zero_padded 2 (Day t)),
     (CHR ''D'', us_date), (CHR ''e'', \<lambda>t. space_padded 2 (Day t)),
     (CHR ''F'', \<lambda>t. zero_padded 4 (t_year t) @ ''-'' @ zero_padded 2 (Month t) @ ''-'' @ zero_padded 2 (Day t)),
     (CHR ''g'', \<lambda>t. zero_padded 2 (t_year t mod 100)), (CHR ''G'', \<lambda>t. zero_padded 4 (t_year t)),
     (CHR ''h'', \<lambda>t. take 3 (month_name t)), (CHR ''H'', \<lambda>t. zero_padded 2 (Hour t)),
     (CHR ''I'', \<lambda>t. zero_padded 2 (hour12 t)), (CHR ''j'', \<lambda>t. zero_padded 3 (t_yday t)),
     (CHR ''k'', \<lambda>t. space_padded 2 (Hour t)), (CHR ''l'', \<lambda>t. space_padded 2 (hour12 t)),
     (CHR ''m'', \<lambda>t. zero_padded 2 (Month t)), (CHR ''M'', \<lambda>t. zero_padded 2 (Minute t)),
     (CHR ''n'', \<lambda>t. [CHR 0x0A]), (CHR ''p'', am_pm),
     (CHR ''P'', \<lambda>t. if Hour t \<ge> 12 then ''PM'' else ''AM''),
     (CHR ''r'', \<lambda>t. zero_padded 2 (hour12 t) @ '':'' @ zero_padded 2 (Minute t) @ '':'' @ zero_padded 2 (Second t) @
        '' '' @ am_pm t),
     (CHR ''R'', \<lambda>t. zero_padded 2 (Hour t) @ '':'' @ zero_padded 2 (Minute t)),
     (CHR ''s'', \<lambda>t. digits (Unix t)), (CHR ''S'', \<lambda>t. zero_padded 2 (Second t)),
     (CHR ''t'', \<lambda>t. [CHR 0x09]), (CHR ''T'', clock),
     (CHR ''u'', \<lambda>t. digits (if Weekday t = 0 then 7 else Weekday t)),
     (CHR ''U'', \<lambda>t. zero_padded 2 (shown_week (t_yday t - Weekday t) t)),
     (CHR ''V'', \<lambda>t. zero_padded 2 (snd (ISOWeek t))), (CHR ''w'', \<lambda>t. digits (Weekday t)),
     (CHR ''W'', \<lambda>t. zero_padded 2 (shown_week (t_yday t - (Weekday t - 1) mod 7) t)),
     (CHR ''x'', us_date), (CHR ''X'', clock),
     (CHR ''y'', \<lambda>t. zero_padded 2 (t_year t mod 100)), (CHR ''Y'', \<lambda>t. zero_padded 4 (t_year t)),
     (CHR ''z'', \<lambda>t. (if t_offset t < 0 then ''-'' else ''+'') @ zero_padded 2 (\<bar>t_offset t\<bar> div 3600) @ ''00''),
     (CHR ''Z'', zone_text)]"

text \<open>A format, read left to right: a directive, an unknown character after a percent sign (itself), a
  percent sign at the end (nothing), any other character (itself).\<close>

fun render :: "gotime \<Rightarrow> bytes \<Rightarrow> bytes" where
  "render t [] = []"
| "render t [x] = (if x = CHR ''%'' then [] else [x])"
| "render t (x # c # rest) =
     (if x \<noteq> CHR ''%'' then x # render t (c # rest)
      else (case map_of directive_texts c of None \<Rightarrow> [c] | Some f \<Rightarrow> f t) @ render t rest)"

lemma two_padded: "0 \<le> n \<Longrightarrow> n < 100 \<Longrightarrow> two (CHR ''0'') n = zero_padded 2 n"
  "0 \<le> n \<Longrightarrow> n < 100 \<Longrightarrow> two (CHR '' '') n = space_padded 2 n"
  by (auto simp: two_def zero_padded_def space_padded_def digits_small digits_step digit_def numeral_2_eq_2)

lemma digit_0: "digit 0 = CHR ''0''" "char_of (48 :: int) = CHR ''0''"
  by (simp_all add: digit_def char_of_def)

lemma padded2_eq:
  assumes "0 \<le> n" "n < 100"
  shows "zero_padded 2 n = [digit (n div 10), digit (n mod 10)]"
proof (cases "n < 10")
  case True
  then show ?thesis
    using assms by (simp add: zero_padded_def digits_small digit_0 numeral_2_eq_2)
next
  case False
  then show ?thesis
    using assms by (simp add: zero_padded_def digits_small digits_step numeral_2_eq_2)
qed

lemma digits_hundreds:
  assumes "100 \<le> n"
  shows "digits n = digits (n div 100) @ zero_padded 2 (n mod 100)"
proof -
  have "n mod 100 = 10 * (n div 10 mod 10) + n mod 10"
    using zmod_zmult2_eq [of 10 n 10] by simp
  then have parts: "n mod 100 div 10 = n div 10 mod 10" "n mod 100 mod 10 = n mod 10"
    by simp_all
  have ge: "10 \<le> n" "10 \<le> n div 10" and q: "n div 10 div 10 = n div 100"
    using assms by (simp_all add: zdiv_zmult2_eq [symmetric])
  have "zero_padded 2 (n mod 100) = [digit (n mod 100 div 10), digit (n mod 100 mod 10)]"
    by (rule padded2_eq) simp_all
  then show ?thesis
    by (simp only: digits_step [OF ge(1)] digits_step [OF ge(2)] q parts append_assoc append.simps)
qed

lemma four_padded:
  assumes "0 \<le> n" "n \<le> 9999"
  shows "four n = zero_padded 4 n"
proof -
  have f: "four n = zero_padded 2 (n div 100) @ zero_padded 2 (n mod 100)"
    using assms by (simp add: four_def two_padded)
  show ?thesis
  proof (cases "n < 100")
    case True
    then have "length (digits n) \<le> 2"
      using length_digits_le [of n 2] assms by simp
    then have "zero_padded 4 n = ''00'' @ zero_padded 2 n"
      by (simp add: zero_padded_def replicate_add [symmetric] numeral_eq_Suc Suc_diff_le)
    with True assms f show ?thesis
      by (simp add: padded2_eq digit_0)
  next
    case False
    then show ?thesis
      using assms by (simp add: f digits_hundreds [of n] zero_padded_def [of 4] zero_padded_def [of 2 "n div 100"])
         (simp add: padded2_eq)
  qed
qed

section \<open>The table writes the reference texts\<close>

lemma layout_texts:
  assumes "time_ok t"
  shows "AppendFormat [] t ''Mon'' = take 3 (day_name t)" "AppendFormat [] t ''Monday'' = day_name t"
    "AppendFormat [] t ''Jan'' = take 3 (month_name t)" "AppendFormat [] t ''January'' = month_name t"
    "AppendFormat [] t ''pm'' = am_pm t" "AppendFormat [] t ''PM'' = (if Hour t \<ge> 12 then ''PM'' else ''AM'')"
    "AppendFormat [] t ''MST'' = zone_text t"
    "AppendFormat [] t ''01/02/06'' = us_date t" "AppendFormat [] t ''15:04:05'' = clock t"
    "AppendFormat [] t ''Mon Jan _2 15:04:05 2006'' = take 3 (day_name t) @ '' '' @ take 3 (month_name t) @ '' '' @
        space_padded 2 (Day t) @ '' '' @ clock t @ '' '' @ zero_padded 4 (t_year t)"
  using time_fields [OF assms]
  by (simp_all add: layout_elems_def HasPrefix_def day_name_def month_name_def am_pm_def clock_def us_date_def
      two_padded four_padded)

definition writes_text :: "gotime \<Rightarrow> char \<times> strftimeFunc \<Rightarrow> char \<times> (gotime \<Rightarrow> bytes) \<Rightarrow> bool" where
  "writes_text t = (\<lambda>(c, f) (d, g). c = d \<and> writes f t (g t))"

lemma writes_as: "writes f t a \<Longrightarrow> a = b \<Longrightarrow> writes f t b"
  by simp

lemma strftimeFuncs_texts:
  assumes "time_ok t" "0 \<le> Unix t" "append_uint_ok au"
  shows "list_all2 (writes_text t) (strftimeFuncs au) directive_texts"
proof -
  note fields = writes_fields [OF assms(1)] writes_weeks [OF assms(1)] writes_zone [OF assms(1)]
    writes_numbers(1,2) [OF assms(3)] writes_numbers(3) [OF assms(3,2)] writes_bytes
  have composed: "writes strftimeD t (us_date t)"
    "writes strftimeF t (zero_padded 4 (t_year t) @ ''-'' @ zero_padded 2 (Month t) @ ''-'' @ zero_padded 2 (Day t))"
    "writes strftimeLr t (zero_padded 2 (hour12 t) @ '':'' @ zero_padded 2 (Minute t) @ '':'' @
       zero_padded 2 (Second t) @ '' '' @ am_pm t)"
    "writes strftimeR t (zero_padded 2 (Hour t) @ '':'' @ zero_padded 2 (Minute t))"
    "writes strftimeT t (clock t)"
    unfolding strftimeD_def strftimeF_def strftimeLr_def strftimeR_def strftimeT_def
    by (rule writes_as,
        (rule writes_then_text writes_then_fn fields writes_go [THEN writes_as, OF layout_texts(5) [OF assms(1)]])+,
        simp add: us_date_def clock_def hour12_def)+
  have h12: "writes strftimeI t (zero_padded 2 (hour12 t))" "writes strftimeLl t (space_padded 2 (hour12 t))"
    using fields by (simp_all add: hour12_def)
  note layouts = writes_go [THEN writes_as, OF layout_texts(1) [OF assms(1)]]
    writes_go [THEN writes_as, OF layout_texts(2) [OF assms(1)]] writes_go [THEN writes_as, OF layout_texts(3) [OF assms(1)]]
    writes_go [THEN writes_as, OF layout_texts(4) [OF assms(1)]] writes_go [THEN writes_as, OF layout_texts(5) [OF assms(1)]]
    writes_go [THEN writes_as, OF layout_texts(6) [OF assms(1)]] writes_go [THEN writes_as, OF layout_texts(7) [OF assms(1)]]
    writes_go [THEN writes_as, OF layout_texts(8) [OF assms(1)]] writes_go [THEN writes_as, OF layout_texts(9) [OF assms(1)]]
    writes_go [THEN writes_as, OF layout_texts(10) [OF assms(1)]]
  show ?thesis
    unfolding strftimeFuncs_def directive_texts_def list_all2_Cons writes_text_def prod.case
    by (intro conjI refl list_all2_Nil [THEN iffD2] composed h12 layouts fields)
qed

lemma map_of_related:
  assumes "list_all2 (writes_text t) fs gs"
  shows "(case map_of fs c of
            None \<Rightarrow> map_of gs c = None
          | Some f \<Rightarrow> \<exists>g. map_of gs c = Some g \<and> writes f t (g t))"
  using assms by (induction fs gs rule: list_all2_induct) (auto simp: writes_text_def split: option.splits)

definition directive :: "append_uint \<Rightarrow> char \<Rightarrow> strftimeFunc" where
  "directive au c = (case map_of (strftimeFuncs au) c of Some fn \<Rightarrow> fn | None \<Rightarrow> strftimeBytes [c])"

lemma directive_text:
  assumes "time_ok t" "0 \<le> Unix t" "append_uint_ok au"
  shows "directive au c dst t = Inr (dst @ (case map_of directive_texts c of None \<Rightarrow> [c] | Some f \<Rightarrow> f t))"
  using map_of_related [OF strftimeFuncs_texts [OF assms], of c]
  by (auto simp: directive_def writes_def strftimeBytes_def split: option.splits)

section \<open>The loop over the format\<close>

lemma NewStrftimeBytes_plain: "CHR ''%'' \<notin> set a \<Longrightarrow> NewStrftimeBytes au a = [strftimeBytes a]"
  by (simp add: NewStrftimeBytes.simps [of au a] IndexByte_absent)

lemma NewStrftimeBytes_percent:
  assumes "CHR ''%'' \<notin> set a"
  shows "NewStrftimeBytes au (a @ ''%'') = (if a = [] then [] else [strftimeBytes a])"
    "NewStrftimeBytes au (a @ CHR ''%'' # c # b) =
       (if a = [] then [] else [strftimeBytes a]) @ directive au c # NewStrftimeBytes au b"
  using assms IndexByte_split [OF assms, of "[]"] IndexByte_split [OF assms, of "c # b"]
  by (simp_all add: NewStrftimeBytes.simps [of au "a @ _"] directive_def)

lemma AppendBytes_append:
  "AppendBytes (fs @ gs) dst t = go_bind (AppendBytes fs dst t) (\<lambda>dst. AppendBytes gs dst t)"
  by (induction fs arbitrary: dst) (simp_all add: go_bind_def split: sum.split)

lemma render_plain: "CHR ''%'' \<notin> set a \<Longrightarrow> render t (a @ b) = a @ render t b"
proof (induction a)
  case (Cons x a)
  then show ?case
    by (cases "a @ b") auto
qed simp

lemma strftime_render:
  assumes "time_ok t" "0 \<le> Unix t" "append_uint_ok au"
  shows "AppendBytes (NewStrftimeBytes au fmt) dst t = Inr (dst @ render t fmt)"
proof (induction fmt arbitrary: dst rule: length_induct)
  case (1 fmt)
  show ?case
  proof (cases "CHR ''%'' \<in> set fmt")
    case False
    then show ?thesis
      using render_plain [of fmt t "[]"] by (simp add: NewStrftimeBytes_plain strftimeBytes_def)
  next
    case True
    then obtain a b where ab: "fmt = a @ CHR ''%'' # b" "CHR ''%'' \<notin> set a"
      by (metis split_list_first)
    have head: "AppendBytes (if a = [] then [] else [strftimeBytes a]) dst t = Inr (dst @ a)"
      by (simp add: strftimeBytes_def)
    show ?thesis
    proof (cases b)
      case Nil
      with ab head show ?thesis
        using NewStrftimeBytes_percent(1) [OF ab(2)] render_plain [OF ab(2), of t "''%''"] by simp
    next
      case (Cons c d)
      with "1.IH" ab have "AppendBytes (NewStrftimeBytes au d) e t = Inr (e @ render t d)" for e
        by simp
      with ab head Cons show ?thesis
        using NewStrftimeBytes_percent(2) [OF ab(2)] render_plain [OF ab(2), of t "CHR ''%'' # b"]
        by (simp add: AppendBytes_append directive_text [OF assms])
    qed
  qed
qed

lemma writes_format:
  assumes "time_ok t" "0 \<le> Unix t" "append_uint_ok au"
  shows "FormatBytes (NewStrftimeBytes au fmt) t = Inr (render t fmt)"
  by (simp add: FormatBytes_def strftime_render [OF assms])

text \<open>Within a year the weekday moves with the day of the year.\<close>

lemma Weekday_in_year: "(t_yday t - Weekday t) mod 7 = (1 - Weekday (t\<lparr>t_yday := 1\<rparr>)) mod 7"
proof -
  define a where "a = days_before_year (t_year t)"
  have "(t_yday t - (a + (t_yday t - 1) + 1) mod 7) mod 7 = (t_yday t - (a + (t_yday t - 1) + 1)) mod 7"
    by (simp only: mod_diff_right_eq)
  also have "\<dots> = (1 - (a + 1)) mod 7"
    by simp
  also have "\<dots> = (1 - (a + 1) mod 7) mod 7"
    by (simp only: mod_diff_right_eq)
  finally show ?thesis
    by (simp add: Weekday_def day_number_def a_def)
qed

lemma first_week_rule: "7 dvd (t_yday t - Weekday t) \<longleftrightarrow> Weekday (t\<lparr>t_yday := 1\<rparr>) = 1"
proof -
  let ?w = "Weekday (t\<lparr>t_yday := 1\<rparr>)"
  have "7 dvd (t_yday t - Weekday t) \<longleftrightarrow> (1 - ?w) mod 7 = 0"
    by (simp only: dvd_eq_mod_eq_0 Weekday_in_year)
  also have "\<dots> \<longleftrightarrow> ?w = 1"
    using Weekday_range [of "t\<lparr>t_yday := 1\<rparr>"] by presburger
  finally show ?thesis .
qed

definition demo_append :: append_uint where
  "demo_append dst n = dst @ digits n"

lemma demo_append_ok: "append_uint_ok demo_append"
  by (simp add: append_uint_ok_def demo_append_def)

section \<open>Properties\<close>

text \<open>C22. A compiled format, run at any time of the years 0 to 9999 (from 1970 on, for \<open>%s\<close>), never panics and
  appends, whatever is in the buffer, exactly the reference text of the format: every known directive
  its text in terms of the fields of the time, an unknown one its own character, a percent sign at the
  end nothing. (The texts show where the code is not strftime: hour 0 is 00 and not 12 for \<open>%I\<close>, \<open>%l\<close>
  and \<open>%r\<close>, \<open>%p\<close> and \<open>%P\<close> are swapped, \<open>%z\<close> has no minutes, \<open>%g\<close> and \<open>%G\<close> are not ISO years.)\<close>

theorem strftime_renders:
  assumes "time_ok t" "0 \<le> Unix t" "append_uint_ok au"
  shows "AppendBytes (NewStrftimeBytes au fmt) dst t = Inr (dst @ render t fmt)"
  using assms by (rule strftime_render)

theorem strftime_renders_witness:
  "AppendBytes (NewStrftimeBytes demo_append ''%H:%M%q %'') ''at '' demo_time = Inr ''at 15:04q ''"
  using strftime_renders [of demo_time demo_append "''%H:%M%q %''" "''at ''"]
  by (simp add: demo_time_ok demo_append_ok demo_time_fields directive_texts_def zero_padded_def digits_small
      digits_step digit_def char_of_def numeral_eq_Suc del: NewStrftimeBytes.simps)

text \<open>\<open>%U\<close> from the first Sunday on is the POSIX week of the year, except in the years that begin on
  a Monday: there every week is numbered one too high.\<close>

lemma strftime_week_of_year:
  assumes "time_ok t" "0 \<le> Unix t" "append_uint_ok au" "Weekday t \<le> t_yday t"
  shows "FormatBytes (NewStrftimeBytes au ''%U'') t =
    Inr (zero_padded 2 ((t_yday t + 6 - Weekday t) div 7 + (if Weekday (t\<lparr>t_yday := 1\<rparr>) = 1 then 1 else 0)))"
proof -
  define d where "d = t_yday t - Weekday t"
  have posix: "d div 7 + 1 = (d + 6) div 7 + (if 7 dvd d then 1 else 0)"
    by presburger
  have "0 \<le> d" "t_yday t + 6 - Weekday t = d + 6"
    using assms by (simp_all add: d_def)
  then have "shown_week d t = (t_yday t + 6 - Weekday t) div 7 + (if Weekday (t\<lparr>t_yday := 1\<rparr>) = 1 then 1 else 0)"
    using first_week_rule [of t] posix by (simp add: shown_week_def d_def)
  moreover have "render t ''%U'' = zero_padded 2 (shown_week d t)"
    by (simp add: directive_texts_def d_def)
  ultimately show ?thesis
    using writes_format [OF assms(1-3), of "''%U''"] by (simp only:)
qed

text \<open>8 January 2024, the second Monday of a year that began on one.\<close>

lemma strftime_week_of_year_witness:
  "FormatBytes (NewStrftimeBytes demo_append ''%U'') (demo_time\<lparr>t_year := 2024, t_yday := 8\<rparr>) = Inr ''02'' \<and>
   (8 + 6 - Weekday (demo_time\<lparr>t_year := 2024, t_yday := 8\<rparr>)) div 7 = 1"
proof -
  let ?t = "demo_time\<lparr>t_year := 2024, t_yday := 8\<rparr>"
  have t: "time_ok ?t" "Unix ?t = 1704726245" "Weekday ?t = 1" "Weekday (?t\<lparr>t_yday := 1\<rparr>) = 1" "t_yday ?t = 8"
    by code_simp+
  then have jan1: "Weekday (demo_time\<lparr>t_year := 2024, t_yday := 1\<rparr>) = 1"
    by simp
  show ?thesis
    using strftime_week_of_year [of ?t demo_append]
    by (simp add: t jan1 demo_append_ok zero_padded_def digits_small digit_def char_of_def numeral_eq_Suc del: NewStrftimeBytes.simps)
qed

end
