(* ===== verification/LogCtx.thy ===== *)
theory LogCtx
  imports CtxApi Strftime
begin

text \<open>
  What the access-log formats of \<open>pkg/logger/accesslog\<close> read: the further methods of the request context
  (an extension of the record of \<open>CtxApi\<close>), the network addresses of package \<open>net\<close>, the clock and the
  environment; and the helpers the three formats share (\<open>appendISOTime\<close>, \<open>appendNetAddr\<close>,
  \<open>appendHostIP\<close>, \<open>portFromAddr\<close>).
\<close>

section \<open>Addresses (package net)\<close>

type_synonym net_ip = "8 word list"

datatype net_addr = TCPAddr net_ip int | OtherAddr string

definition To4 :: "net_ip \<Rightarrow> net_ip option" where
  "To4 ip =
     (if length ip = 4 then Some ip
      else if length ip = 16 \<and> take 12 ip = replicate 10 0 @ [255, 255] then Some (drop 12 ip)
      else None)"

definition hex_digit :: "nat \<Rightarrow> char" where
  "hex_digit n = ''0123456789abcdef'' ! n"

fun hex_number :: "nat \<Rightarrow> bytes" where
  "hex_number n = (if n < 16 then [hex_digit n] else hex_number (n div 16) @ [hex_digit (n mod 16)])"

declare hex_number.simps [simp del]

fun groups16 :: "net_ip \<Rightarrow> nat list" where
  "groups16 (a # b # rest) = (256 * unat a + unat b) # groups16 rest"
| "groups16 _ = []"

fun join_bytes :: "bytes \<Rightarrow> bytes list \<Rightarrow> bytes" where
  "join_bytes sep [] = []"
| "join_bytes sep [x] = x"
| "join_bytes sep (x # xs) = x @ sep @ join_bytes sep xs"

definition dotted :: "net_ip \<Rightarrow> bytes" where
  "dotted ip = join_bytes ''.'' (map (\<lambda>b. digits (uint b)) ip)"

text \<open>The longest run of zero groups (the first of that length) as its start and length.\<close>

definition zero_run :: "nat list \<Rightarrow> nat" where
  "zero_run gs = length (takeWhile (\<lambda>g. g = 0) gs)"

definition longest_zeros :: "nat list \<Rightarrow> nat \<times> nat" where
  "longest_zeros gs =
     foldl (\<lambda>(s, l) i. let r = zero_run (drop i gs) in if r > l then (i, r) else (s, l)) (0, 0) [0..<length gs]"

definition ip6_text :: "nat list \<Rightarrow> bytes" where
  "ip6_text gs =
     (let (s, l) = longest_zeros gs;
          txt = (\<lambda>xs. join_bytes '':'' (map hex_number xs))
      in if l \<ge> 2 then txt (take s gs) @ ''::'' @ txt (drop (s + l) gs) else txt gs)"

definition IP_String :: "net_ip \<Rightarrow> string" where
  "IP_String ip =
     (if length ip = 0 then ''<nil>''
      else case To4 ip of
             Some ip4 \<Rightarrow> dotted ip4
           | None \<Rightarrow>
               if length ip \<noteq> 16
               then ''?'' @ concat (map (\<lambda>b. [hex_digit (unat b div 16), hex_digit (unat b mod 16)]) ip)
               else ip6_text (groups16 ip))"

section \<open>The context, the clock, the environment\<close>

record 'c log_api = "'c fasthttp" +
  req_Time :: "'c \<Rightarrow> gotime"
  ctx_RemoteAddr :: "'c \<Rightarrow> net_addr"
  ctx_LocalAddr :: "'c \<Rightarrow> net_addr"
  ctx_RemoteIP :: "'c \<Rightarrow> net_ip"
  ctx_ConnRequestNum :: "'c \<Rightarrow> int"
  ctx_ID :: "'c \<Rightarrow> int"
  uri_Username :: "'c \<Rightarrow> bytes"
  uri_Scheme :: "'c \<Rightarrow> bytes"
  req_Protocol :: "'c \<Rightarrow> bytes"
  req_Referer :: "'c \<Rightarrow> bytes"
  req_UserAgent :: "'c \<Rightarrow> bytes"
  req_RawHeaders :: "'c \<Rightarrow> bytes"
  req_Body :: "'c \<Rightarrow> bytes"
  req_Cookie :: "bytes \<Rightarrow> 'c \<Rightarrow> bytes"
  resp_ContentLength :: "'c \<Rightarrow> int"
  resp_ConnectionClose :: "'c \<Rightarrow> bool"
  resp_HeaderBytes :: "'c \<Rightarrow> bytes"
  resp_PeekBytes :: "bytes \<Rightarrow> 'c \<Rightarrow> bytes"
  fh_AppendIPv4 :: "bytes \<Rightarrow> net_ip \<Rightarrow> bytes"

record log_env =
  timeNow :: gotime
  LookupEnv :: "string \<Rightarrow> string option"
  Getegid :: int

text \<open>Documented behaviour of the two append functions of fasthttp.\<close>

definition log_api_ok :: "'c log_api \<Rightarrow> bool" where
  "log_api_ok G \<longleftrightarrow> (\<forall>dst n. 0 \<le> n \<longrightarrow> fh_AppendUint G dst n = dst @ digits n) \<and>
     (\<forall>dst ip ip4. To4 ip = Some ip4 \<longrightarrow> fh_AppendIPv4 G dst ip = dst @ dotted ip4)"

type_synonym 'c appendFunc = "log_env \<Rightarrow> bytes \<Rightarrow> 'c \<Rightarrow> bytes"

section \<open>Shared helpers\<close>

definition appendUint2 :: "bytes \<Rightarrow> int \<Rightarrow> bytes" where
  "appendUint2 dst n = dst @ [char_of (48 + go_div n 10), char_of (48 + go_rem n 10)]"

definition appendUint4 :: "bytes \<Rightarrow> int \<Rightarrow> bytes" where
  "appendUint4 dst n = dst @ [char_of (48 + go_div n 1000), char_of (48 + go_rem (go_div n 100) 10),
     char_of (48 + go_rem (go_div n 10) 10), char_of (48 + go_rem n 10)]"

definition appendISOTime :: "bytes \<Rightarrow> gotime \<Rightarrow> bytes" where
  "appendISOTime dst t =
     (let dst = appendUint4 dst (t_year t); dst = dst @ ''-'';
          dst = appendUint2 dst (Month t); dst = dst @ ''-'';
          dst = appendUint2 dst (Day t); dst = dst @ ''T'';
          dst = appendUint2 dst (Hour t); dst = dst @ '':'';
          dst = appendUint2 dst (Minute t); dst = dst @ '':'';
          dst = appendUint2 dst (Second t);
          offsetSec = t_offset t
      in if offsetSec = 0 then dst @ ''Z''
         else let (dst, offsetSec) = (if offsetSec < 0 then (dst @ ''-'', - offsetSec) else (dst @ ''+'', offsetSec));
                  dst = appendUint2 dst (go_div offsetSec 3600); dst = dst @ '':''
              in appendUint2 dst (go_div (go_rem offsetSec 3600) 60))"

definition appendNetAddr :: "'c log_api \<Rightarrow> bytes \<Rightarrow> net_addr \<Rightarrow> bytes" where
  "appendNetAddr G dst addr =
     (case addr of
        TCPAddr ip port \<Rightarrow>
          let dst = (case To4 ip of
                       Some ip4 \<Rightarrow> fh_AppendIPv4 G dst ip4
                     | None \<Rightarrow> dst @ ''['' @ IP_String ip @ '']'');
              dst = dst @ '':''
          in fh_AppendUint G dst port
      | OtherAddr s \<Rightarrow> dst @ s)"

definition portFromAddr :: "net_addr \<Rightarrow> int" where
  "portFromAddr addr = (case addr of TCPAddr ip port \<Rightarrow> port | OtherAddr s \<Rightarrow> 0)"

definition appendHostIP :: "'c log_api \<Rightarrow> bytes \<Rightarrow> net_addr \<Rightarrow> bytes" where
  "appendHostIP G dst addr =
     (case addr of
        TCPAddr ip port \<Rightarrow>
          (case To4 ip of Some ip4 \<Rightarrow> fh_AppendIPv4 G dst ip4 | None \<Rightarrow> dst @ IP_String ip)
      | OtherAddr s \<Rightarrow> dst)"

section \<open>What the helpers append\<close>

definition iso_zone :: "gotime \<Rightarrow> bytes" where
  "iso_zone t =
     (if t_offset t = 0 then ''Z''
      else (if t_offset t < 0 then ''-'' else ''+'') @ zero_padded 2 (\<bar>t_offset t\<bar> div 3600) @ '':'' @
        zero_padded 2 (\<bar>t_offset t\<bar> mod 3600 div 60))"

definition iso_text :: "gotime \<Rightarrow> bytes" where
  "iso_text t = zero_padded 4 (t_year t) @ ''-'' @ zero_padded 2 (Month t) @ ''-'' @ zero_padded 2 (Day t) @ ''T'' @
     zero_padded 2 (Hour t) @ '':'' @ zero_padded 2 (Minute t) @ '':'' @ zero_padded 2 (Second t) @ iso_zone t"

definition host_text :: "net_addr \<Rightarrow> bytes" where
  "host_text addr = (case addr of
     TCPAddr ip port \<Rightarrow> (case To4 ip of Some ip4 \<Rightarrow> dotted ip4 | None \<Rightarrow> IP_String ip) | OtherAddr s \<Rightarrow> [])"

definition addr_text :: "net_addr \<Rightarrow> bytes" where
  "addr_text addr = (case addr of
     TCPAddr ip port \<Rightarrow> (case To4 ip of Some ip4 \<Rightarrow> dotted ip4 | None \<Rightarrow> ''['' @ IP_String ip @ '']'') @ '':'' @ digits port
   | OtherAddr s \<Rightarrow> s)"

definition addr_ok :: "net_addr \<Rightarrow> bool" where
  "addr_ok addr \<longleftrightarrow> (case addr of TCPAddr ip port \<Rightarrow> 0 \<le> port | OtherAddr s \<Rightarrow> True)"

lemma To4_To4: "To4 ip = Some ip4 \<Longrightarrow> To4 ip4 = Some ip4"
  by (auto simp: To4_def split: if_splits)

lemma appendUint2_text: "0 \<le> n \<Longrightarrow> n < 100 \<Longrightarrow> appendUint2 dst n = dst @ zero_padded 2 n"
  by (simp add: appendUint2_def padded2_eq digit_def)

lemma appendUint4_text:
  assumes "0 \<le> n" "n \<le> 9999"
  shows "appendUint4 dst n = dst @ zero_padded 4 n"
proof -
  have q: "n div 100 div 10 = n div 1000"
    using zdiv_zmult2_eq [of 10 n 100] by simp
  have "n mod 100 = 10 * (n div 10 mod 10) + n mod 10"
    using zmod_zmult2_eq [of 10 n 10] by simp
  then have r: "n mod 100 div 10 = n div 10 mod 10" "n mod 100 mod 10 = n mod 10"
    by simp_all
  have hi: "zero_padded 2 (n div 100) = [digit (n div 1000), digit (n div 100 mod 10)]"
    using assms q by (subst padded2_eq) simp_all
  have lo: "zero_padded 2 (n mod 100) = [digit (n div 10 mod 10), digit (n mod 10)]"
    by (subst padded2_eq) (simp_all add: r)
  have "zero_padded 4 n = zero_padded 2 (n div 100) @ zero_padded 2 (n mod 100)"
    using assms by (simp add: four_padded [symmetric] four_def two_padded)
  then show ?thesis
    using assms by (simp add: hi lo appendUint4_def digit_def)
qed

lemma appendISOTime_text:
  assumes "time_ok t"
  shows "appendISOTime dst t = dst @ iso_text t"
proof -
  have "\<bar>t_offset t\<bar> div 3600 < 100" "\<bar>t_offset t\<bar> mod 3600 div 60 < 100" "0 \<le> \<bar>t_offset t\<bar> mod 3600"
    using assms by (auto simp: time_ok_def)
  then show ?thesis
    using time_fields [OF assms]
    by (simp add: appendISOTime_def iso_text_def iso_zone_def appendUint2_text appendUint4_text Let_def)
qed

lemma appendHostIP_text: "log_api_ok G \<Longrightarrow> appendHostIP G dst addr = dst @ host_text addr"
  by (auto simp: appendHostIP_def host_text_def log_api_ok_def To4_To4 split: net_addr.split option.split)

lemma appendNetAddr_text: "log_api_ok G \<Longrightarrow> addr_ok addr \<Longrightarrow> appendNetAddr G dst addr = dst @ addr_text addr"
  by (auto simp: appendNetAddr_def addr_text_def addr_ok_def log_api_ok_def To4_To4 Let_def
      split: net_addr.split option.split)

section \<open>Bytes that need no escaping\<close>

text \<open>No control character, no quote, no backslash.\<close>

definition safe_byte :: "char \<Rightarrow> bool" where
  "safe_byte c \<longleftrightarrow> 32 \<le> (of_char c :: nat) \<and> c \<noteq> CHR 0x22 \<and> c \<noteq> CHR 0x5C"

definition safe :: "bytes \<Rightarrow> bool" where
  "safe s \<longleftrightarrow> list_all safe_byte s"

lemma safe_simps [simp]:
  "safe []" "safe (c # s) \<longleftrightarrow> safe_byte c \<and> safe s" "safe (s @ t) \<longleftrightarrow> safe s \<and> safe t"
  by (simp_all add: safe_def)

lemma safe_literals [simp]:
  "safe_byte (CHR '':'')" "safe_byte (CHR ''.'')" "safe_byte (CHR ''-'')" "safe_byte (CHR ''+'')"
  "safe_byte (CHR ''T'')" "safe_byte (CHR ''Z'')" "safe_byte (CHR ''0'')" "safe_byte (CHR ''['')"
  "safe_byte (CHR '']'')" "safe_byte (CHR ''?'')" "safe_byte (CHR ''<'')" "safe_byte (CHR ''>'')"
  "safe_byte (CHR ''n'')" "safe_byte (CHR ''i'')" "safe_byte (CHR ''l'')"
  by (simp_all add: safe_byte_def)

lemma digit_cases:
  assumes "0 \<le> d" "d < 10" "list_all P ''0123456789''"
  shows "P (digit d)"
proof -
  have "d = 0 \<or> d = 1 \<or> d = 2 \<or> d = 3 \<or> d = 4 \<or> d = 5 \<or> d = 6 \<or> d = 7 \<or> d = 8 \<or> d = 9"
    using assms by presburger
  then show ?thesis
    using assms(3) by (auto simp: digit_def char_of_def)
qed

lemma safe_digit: "0 \<le> d \<Longrightarrow> d < 10 \<Longrightarrow> safe_byte (digit d)"
  by (erule (1) digit_cases) (simp add: safe_byte_def)

lemma safe_digits: "0 \<le> n \<Longrightarrow> safe (digits n)"
  using digits_are_digits safe_digit by (force simp: safe_def list_all_iff)

lemma safe_zero_padded: "0 \<le> n \<Longrightarrow> safe (zero_padded p n)"
  using safe_digits [of n] by (auto simp: zero_padded_def safe_def list_all_iff)

lemma safe_hex_digit: "n < 16 \<Longrightarrow> safe_byte (hex_digit n)"
proof -
  have "list_all safe_byte ''0123456789abcdef''"
    by (simp add: safe_byte_def)
  then show "n < 16 \<Longrightarrow> safe_byte (hex_digit n)"
    unfolding hex_digit_def by (simp only: list_all_length) simp
qed

lemma safe_hex_number: "safe (hex_number n)"
proof (induction n rule: hex_number.induct)
  case (1 n)
  then show ?case
    by (subst hex_number.simps) (simp add: safe_hex_digit)
qed

lemma safe_join: "safe sep \<Longrightarrow> list_all safe xs \<Longrightarrow> safe (join_bytes sep xs)"
  by (induction sep xs rule: join_bytes.induct) simp_all

lemma safe_dotted: "safe (dotted ip)"
  unfolding dotted_def by (rule safe_join) (simp_all add: list_all_iff safe_digits)

lemma safe_ip6_text: "safe (ip6_text gs)"
proof -
  have "safe (join_bytes '':'' (map hex_number xs))" for xs
    by (rule safe_join) (simp_all add: list_all_iff safe_hex_number)
  then show ?thesis
    by (simp add: ip6_text_def split: prod.split)
qed

lemma safe_IP_String: "safe (IP_String ip)"
proof -
  have "unat b div 16 < 16" for b :: "8 word"
    using unsigned_less [where 'a = nat, of b] by (simp add: less_mult_imp_div_less)
  then have "safe (concat (map (\<lambda>b. [hex_digit (unat b div 16), hex_digit (unat b mod 16)]) ip))"
    by (induction ip) (simp_all add: safe_hex_digit)
  then show ?thesis
    by (simp add: IP_String_def safe_dotted safe_ip6_text split: option.split)
qed

lemma safe_host_text: "safe (host_text addr)"
  by (auto simp: host_text_def safe_dotted safe_IP_String split: net_addr.split option.split)

lemma safe_addr_text: "addr_ok addr \<Longrightarrow> (\<And>s. addr = OtherAddr s \<Longrightarrow> safe s) \<Longrightarrow> safe (addr_text addr)"
  by (auto simp: addr_text_def addr_ok_def safe_dotted safe_IP_String safe_digits split: net_addr.splits option.split)

lemma safe_iso_text:
  assumes "time_ok t"
  shows "safe (iso_text t)"
proof -
  have "0 \<le> \<bar>t_offset t\<bar> div 3600" "0 \<le> \<bar>t_offset t\<bar> mod 3600 div 60"
    by simp_all
  then show ?thesis
    using time_fields [OF assms] by (simp add: iso_text_def iso_zone_def safe_zero_padded)
qed

section \<open>Requests that can be logged\<close>

text \<open>
  What the formats need of a request: its time and addresses make sense, its sizes are not negative (the
  content length of a response sent in chunks is) and the clock did not go back.
\<close>

definition request_ok :: "'c log_api \<Rightarrow> log_env \<Rightarrow> 'c \<Rightarrow> bool" where
  "request_ok G env ctx \<longleftrightarrow> time_ok (req_Time G ctx) \<and> addr_ok (ctx_RemoteAddr G ctx) \<and>
     (\<forall>s. ctx_RemoteAddr G ctx = OtherAddr s \<longrightarrow> safe s) \<and> 0 \<le> resp_StatusCode G ctx \<and>
     0 \<le> resp_ContentLength G ctx \<and> nanos (req_Time G ctx) \<le> nanos (timeNow env)"

section \<open>A reference context for the witnesses\<close>

definition ref_log :: "refctx log_api" where
  "ref_log = fasthttp.extend ref_fasthttp
     (log_api.fields (\<lambda>c. demo_time) (\<lambda>c. TCPAddr [10, 1, 2, 3] 51002) (\<lambda>c. TCPAddr [10, 0, 0, 1] 80)
       (\<lambda>c. [10, 1, 2, 3]) (\<lambda>c. 1) (\<lambda>c. 1) rx_user (\<lambda>c. ''http'') (\<lambda>c. ''HTTP/1.1'')
       (\<lambda>c. hdr_first ''Referer'' (rx_reqh c)) (\<lambda>c. hdr_first ''User-Agent'' (rx_reqh c))
       (\<lambda>c. []) (\<lambda>c. []) (\<lambda>k c. []) (\<lambda>c. int (length (rx_body c))) (\<lambda>c. False) (\<lambda>c. [])
       (\<lambda>k c. hdr_first k (rx_resph c))
       (\<lambda>dst ip. dst @ (case To4 ip of Some ip4 \<Rightarrow> dotted ip4 | None \<Rightarrow> [])))"

definition ref_env :: log_env where
  "ref_env = \<lparr>timeNow = demo_time, LookupEnv = (\<lambda>k. None), Getegid = 0\<rparr>"

lemmas ref_log_simps = ref_log_def ref_fasthttp_def ref_request_def fasthttp.defs log_api.defs ref_env_def
  hdr_first_def

lemma ref_log_ok: "log_api_ok ref_log"
  by (simp add: log_api_ok_def ref_log_simps)

lemma ref_log_fields [simp]:
  "req_Time ref_log c = demo_time" "ctx_RemoteAddr ref_log c = TCPAddr [10, 1, 2, 3] 51002"
  "ctx_Method ref_log c = rx_method c" "req_RequestURI ref_log c = rx_uri c" "ctx_Host ref_log c = rx_host c"
  "req_Peek ref_log k c = hdr_first k (rx_reqh c)" "uri_Username ref_log c = rx_user c"
  "uri_Scheme ref_log c = ''http''" "req_Protocol ref_log c = ''HTTP/1.1''"
  "req_Referer ref_log c = hdr_first ''Referer'' (rx_reqh c)"
  "req_UserAgent ref_log c = hdr_first ''User-Agent'' (rx_reqh c)"
  "req_RawHeaders ref_log c = []" "req_Body ref_log c = []"
  "resp_ContentLength ref_log c = int (length (rx_body c))"
  "resp_StatusCode ref_log c = (if rx_status c = 0 then 200 else rx_status c)"
  "ctx_RemoteIP ref_log c = [10, 1, 2, 3]" "timeNow ref_env = demo_time"
  by (simp_all add: ref_log_simps)

end
