(* ===== verification/JsonLog.thy ===== *)
theory JsonLog
  imports LogCtx
begin

text \<open>
  The JSON access-log format of \<open>pkg/logger/accesslog/json.go\<close>: the escaping of strings, the client
  address, the 15-field record; a parser for flat JSON objects in UTF-8 as the reader of the records, and when
  it reads back the fields that were logged.
\<close>

section \<open>Model\<close>

definition FormatJSON :: string where
  "FormatJSON = ''json''"

definition xForwardedForKey :: bytes where
  "xForwardedForKey = ''X-Forwarded-For''"

abbreviation quote_byte :: char where
  "quote_byte \<equiv> CHR 0x22"

abbreviation backslash :: char where
  "backslash \<equiv> CHR 0x5C"

definition json_escape :: "char \<Rightarrow> bytes" where
  "json_escape c =
     (if c = quote_byte then [backslash, quote_byte]
      else if c = backslash then [backslash, backslash]
      else if c = CHR 0x08 then [backslash, CHR ''b'']
      else if c = CHR 0x09 then [backslash, CHR ''t'']
      else if c = CHR 0x0A then [backslash, CHR ''n'']
      else if c = CHR 0x0C then [backslash, CHR ''f'']
      else if c = CHR 0x0D then [backslash, CHR ''r'']
      else if (of_char c :: nat) < 0x20
      then backslash # ''u00'' @ [hex_digit (of_char c div 16), hex_digit (of_char c mod 16)]
      else [c])"

fun json_string_loop :: "bytes \<Rightarrow> bytes \<Rightarrow> bytes" where
  "json_string_loop dst [] = dst"
| "json_string_loop dst (c # s) = json_string_loop (dst @ json_escape c) s"

definition appendJSONString :: "bytes \<Rightarrow> bytes \<Rightarrow> bytes" where
  "appendJSONString dst s = json_string_loop (dst @ [quote_byte]) s @ [quote_byte]"

definition blank :: "char \<Rightarrow> bool" where
  "blank c \<longleftrightarrow> c = CHR '' '' \<or> c = CHR 0x09"

text \<open>The loops over the indices: the first comma, the blanks at both ends.\<close>

fun first_comma :: "bytes \<Rightarrow> nat \<Rightarrow> nat \<Rightarrow> nat" where
  "first_comma [] i l = l"
| "first_comma (c # s) i l = (if c = CHR '','' then i else first_comma s (i + 1) l)"

function skip_start :: "bytes \<Rightarrow> nat \<Rightarrow> nat \<Rightarrow> nat" where
  "skip_start xff s e = (if s < e \<and> blank (xff ! s) then skip_start xff (s + 1) e else s)"
  by pat_completeness auto
termination
  by (relation "measure (\<lambda>(xff, s, e). e - s)") auto

function skip_end :: "bytes \<Rightarrow> nat \<Rightarrow> nat \<Rightarrow> nat" where
  "skip_end xff s e = (if e > s \<and> blank (xff ! (e - 1)) then skip_end xff s (e - 1) else e)"
  by pat_completeness auto
termination
  by (relation "measure (\<lambda>(xff, s, e). e)") auto

declare skip_start.simps [simp del] skip_end.simps [simp del]

definition appendJSONClientIP :: "'c log_api \<Rightarrow> bytes \<Rightarrow> 'c \<Rightarrow> bytes" where
  "appendJSONClientIP G dst ctx =
     (let dst = dst @ [quote_byte];
          xff = req_Peek G xForwardedForKey ctx;
          dst = (if length xff > 0 then
                   let e = first_comma xff 0 (length xff);
                       s = skip_start xff 0 e;
                       e = skip_end xff s e
                   in dst @ take (e - s) (drop s xff)
                 else case ctx_RemoteAddr G ctx of
                   TCPAddr ip port \<Rightarrow>
                     (case To4 ip of Some ip4 \<Rightarrow> fh_AppendIPv4 G dst ip4 | None \<Rightarrow> dst @ IP_String ip)
                 | OtherAddr s \<Rightarrow> dst)
      in dst @ [quote_byte])"

definition appendJSONLog :: "'c log_api \<Rightarrow> 'c appendFunc" where
  "appendJSONLog G env dst ctx =
     (let q = [quote_byte];
          key = (\<lambda>k. q @ k @ q @ '':'');
          dst = dst @ ''{'' @ key ''time'' @ q;
          dst = appendISOTime dst (req_Time G ctx);
          dst = dst @ q @ '','' @ key ''remote_addr'' @ q;
          dst = appendNetAddr G dst (ctx_RemoteAddr G ctx);
          dst = dst @ q;
          dst = dst @ '','' @ key ''client_ip'';
          dst = appendJSONClientIP G dst ctx;
          dst = dst @ '','' @ key ''remote_user'';
          dst = appendJSONString dst (uri_Username G ctx);
          dst = dst @ '','' @ key ''method'';
          dst = appendJSONString dst (ctx_Method G ctx);
          dst = dst @ '','' @ key ''uri'';
          dst = appendJSONString dst (req_RequestURI G ctx);
          dst = dst @ '','' @ key ''proto'';
          dst = appendJSONString dst (req_Protocol G ctx);
          dst = dst @ '','' @ key ''scheme'';
          dst = appendJSONString dst (uri_Scheme G ctx);
          dst = dst @ '','' @ key ''host'';
          dst = appendJSONString dst (ctx_Host G ctx);
          dst = dst @ '','' @ key ''status'';
          dst = fh_AppendUint G dst (resp_StatusCode G ctx);
          dst = dst @ '','' @ key ''size'';
          dst = fh_AppendUint G dst (resp_ContentLength G ctx);
          dst = dst @ '','' @ key ''bytes_received'';
          bytesIn = int (length (req_RawHeaders G ctx)) + int (length (req_Body G ctx));
          dst = fh_AppendUint G dst bytesIn;
          dst = dst @ '','' @ key ''duration_us'';
          durationUs = Microseconds (Sub (timeNow env) (req_Time G ctx));
          dst = fh_AppendUint G dst durationUs;
          dst = dst @ '','' @ key ''referer'';
          dst = appendJSONString dst (req_Referer G ctx);
          dst = dst @ '','' @ key ''user_agent'';
          dst = appendJSONString dst (req_UserAgent G ctx)
      in dst @ ''}'')"

section \<open>Reading a record: a parser of flat JSON objects\<close>

datatype json_value = JStr bytes | JNum int

definition hex_value :: "char \<Rightarrow> nat option" where
  "hex_value c =
     (let n = of_char c :: nat
      in if 48 \<le> n \<and> n \<le> 57 then Some (n - 48)
         else if 97 \<le> n \<and> n \<le> 102 then Some (n - 87)
         else if 65 \<le> n \<and> n \<le> 70 then Some (n - 55)
         else None)"

definition simple_escapes :: "(char \<times> char) list" where
  "simple_escapes = [(quote_byte, quote_byte), (backslash, backslash), (CHR ''/'', CHR ''/''),
     (CHR ''b'', CHR 0x08), (CHR ''t'', CHR 0x09), (CHR ''n'', CHR 0x0A), (CHR ''f'', CHR 0x0C), (CHR ''r'', CHR 0x0D)]"

text \<open>
  The rest of a string after its opening quote: the contents, and what follows the closing quote. Bytes
  from 0x80 on (UTF-8) stand for themselves; of the \<open>u\<close> escapes the ASCII ones are read.
\<close>

fun parse_string :: "bytes \<Rightarrow> (bytes \<times> bytes) option" where
  "parse_string [] = None"
| "parse_string (c # s) =
     (if c = quote_byte then Some ([], s)
      else if c = backslash then
        (case s of
           [] \<Rightarrow> None
         | e # s' \<Rightarrow>
             if e = CHR ''u'' then
               (case s' of
                  h1 # h2 # h3 # h4 # s'' \<Rightarrow>
                    (case (hex_value h1, hex_value h2, hex_value h3, hex_value h4) of
                       (Some 0, Some 0, Some a, Some b) \<Rightarrow>
                         if a < 8 then map_option (\<lambda>(x, r). (char_of (16 * a + b) # x, r)) (parse_string s'')
                         else None
                     | _ \<Rightarrow> None)
                | _ \<Rightarrow> None)
             else (case map_of simple_escapes e of
                     None \<Rightarrow> None
                   | Some d \<Rightarrow> map_option (\<lambda>(x, r). (d # x, r)) (parse_string s')))
      else if (of_char c :: nat) < 32 then None
      else map_option (\<lambda>(x, r). (c # x, r)) (parse_string s))"

definition is_digit :: "char \<Rightarrow> bool" where
  "is_digit c \<longleftrightarrow> 48 \<le> (of_char c :: nat) \<and> (of_char c :: nat) \<le> 57"

definition parse_number :: "bytes \<Rightarrow> (json_value \<times> bytes) option" where
  "parse_number s =
     (let ds = takeWhile is_digit s
      in if ds = [] then None else Some (JNum (decimal_value ds), dropWhile is_digit s))"

definition parse_value :: "bytes \<Rightarrow> (json_value \<times> bytes) option" where
  "parse_value s =
     (case s of
        c # s' \<Rightarrow> if c = quote_byte then map_option (\<lambda>(x, r). (JStr x, r)) (parse_string s') else parse_number s
      | [] \<Rightarrow> None)"

definition parse_key :: "bytes \<Rightarrow> (bytes \<times> bytes) option" where
  "parse_key s =
     (case s of
        c # s' \<Rightarrow> if c = quote_byte then
           (case parse_string s' of
              Some (k, d # r) \<Rightarrow> if d = CHR '':'' then Some (k, r) else None
            | _ \<Rightarrow> None)
          else None
      | [] \<Rightarrow> None)"

text \<open>The members up to the closing brace, which must end the input; at most \<open>fuel\<close> of them.\<close>

fun parse_members :: "nat \<Rightarrow> bytes \<Rightarrow> (bytes \<times> json_value) list option" where
  "parse_members 0 s = None"
| "parse_members (Suc fuel) s =
     (case parse_key s of
        None \<Rightarrow> None
      | Some (k, s) \<Rightarrow>
          (case parse_value s of
             None \<Rightarrow> None
           | Some (v, s) \<Rightarrow>
               if s = ''}'' then Some [(k, v)]
               else (case s of
                       c # s' \<Rightarrow> if c = CHR '','' then map_option (Cons (k, v)) (parse_members fuel s') else None
                     | [] \<Rightarrow> None)))"

definition parse_json :: "bytes \<Rightarrow> (bytes \<times> json_value) list option" where
  "parse_json s = (case s of c # s' \<Rightarrow> if c = CHR ''{'' then parse_members (length s') s' else None | [] \<Rightarrow> None)"

declare parse_string.simps [simp del] parse_members.simps [simp del]

text \<open>
  A JSON text is UTF-8 (RFC 8259, section 8.1). The table of RFC 3629, section 4: the ranges of the bytes that
  follow a first byte (no overlong forms, no surrogates, nothing beyond 10FFFF).
\<close>

definition utf8_tail :: "nat \<times> nat" where
  "utf8_tail = (0x80, 0xBF)"

definition utf8_follow :: "nat \<Rightarrow> (nat \<times> nat) list option" where
  "utf8_follow n =
     (if n < 0x80 then Some []
      else if 0xC2 \<le> n \<and> n \<le> 0xDF then Some [utf8_tail]
      else if n = 0xE0 then Some [(0xA0, 0xBF), utf8_tail]
      else if n = 0xED then Some [(0x80, 0x9F), utf8_tail]
      else if 0xE1 \<le> n \<and> n \<le> 0xEF then Some [utf8_tail, utf8_tail]
      else if n = 0xF0 then Some [(0x90, 0xBF), utf8_tail, utf8_tail]
      else if 0xF1 \<le> n \<and> n \<le> 0xF3 then Some [utf8_tail, utf8_tail, utf8_tail]
      else if n = 0xF4 then Some [(0x80, 0x8F), utf8_tail, utf8_tail]
      else None)"

text \<open>The bytes \<open>s\<close> when the next ones must lie in the ranges \<open>rs\<close>.\<close>

fun utf8_rest :: "(nat \<times> nat) list \<Rightarrow> bytes \<Rightarrow> bool" where
  "utf8_rest rs [] = (rs = [])"
| "utf8_rest ((lo, hi) # rs) (c # s) = (lo \<le> of_char c \<and> of_char c \<le> hi \<and> utf8_rest rs s)"
| "utf8_rest [] (c # s) = (case utf8_follow (of_char c) of None \<Rightarrow> False | Some rs \<Rightarrow> utf8_rest rs s)"

definition valid_utf8 :: "bytes \<Rightarrow> bool" where
  "valid_utf8 s = utf8_rest [] s"

text \<open>What a conforming reader does with a line.\<close>

definition read_json :: "bytes \<Rightarrow> (bytes \<times> json_value) list option" where
  "read_json s = (if valid_utf8 s then parse_json s else None)"

section \<open>Strings\<close>

definition escaped :: "bytes \<Rightarrow> bytes" where
  "escaped s = concat (map json_escape s)"

lemma escaped_simps [simp]: "escaped [] = []" "escaped (c # s) = json_escape c @ escaped s"
  "escaped (s @ t) = escaped s @ escaped t"
  by (simp_all add: escaped_def)

lemma json_string_loop_escaped: "json_string_loop dst s = dst @ escaped s"
  by (induction dst s rule: json_string_loop.induct) simp_all

lemma appendJSONString_text: "appendJSONString dst s = dst @ quote_byte # escaped s @ [quote_byte]"
  by (simp add: appendJSONString_def json_string_loop_escaped)

lemma hex_value_digit:
  assumes "n < 16"
  shows "hex_value (hex_digit n) = Some n"
proof -
  have "list_all (\<lambda>k. hex_value (hex_digit k) = Some k) [0..<16]"
    by code_simp
  with assms show ?thesis
    by (simp add: list_all_iff)
qed

lemma parse_string_quote: "parse_string (quote_byte # r) = Some ([], r)"
  by (simp add: parse_string.simps)

lemma parse_string_plain: "safe_byte c \<Longrightarrow> parse_string (c # s) = map_option (\<lambda>(x, r). (c # x, r)) (parse_string s)"
  by (simp add: parse_string.simps(2) [of c] safe_byte_def)

lemma parse_string_simple:
  "map_of simple_escapes e = Some d \<Longrightarrow>
   parse_string (backslash # e # s) = map_option (\<lambda>(x, r). (d # x, r)) (parse_string s)"
  by (auto simp: parse_string.simps(2) [of backslash] simple_escapes_def)

lemma parse_string_hex:
  assumes "a < 8" "b < 16"
  shows "parse_string (backslash # CHR ''u'' # CHR ''0'' # CHR ''0'' # hex_digit a # hex_digit b # s) =
    map_option (\<lambda>(x, r). (char_of (16 * a + b) # x, r)) (parse_string s)"
proof -
  have "hex_value (CHR ''0'') = Some 0"
    by (simp add: hex_value_def)
  then show ?thesis
    using assms by (simp add: parse_string.simps(2) [of backslash] hex_value_digit)
qed

lemma parse_string_escape: "parse_string (json_escape c @ s) = map_option (\<lambda>(x, r). (c # x, r)) (parse_string s)"
proof -
  have hex: "char_of (16 * (n div 16) + n mod 16) = c" if "n = of_char c" for n :: nat
    using that by simp
  show ?thesis
    using parse_string_simple [of _ _ s] parse_string_hex [of "of_char c div 16" "of_char c mod 16" s] hex [OF refl]
    by (auto simp: json_escape_def simple_escapes_def parse_string_plain safe_byte_def)
qed

lemma parse_string_escaped: "parse_string (escaped s @ quote_byte # r) = Some (s, r)"
  by (induction s) (simp_all add: parse_string_quote parse_string_escape)

lemma json_escape_safe: "safe_byte c \<Longrightarrow> json_escape c = [c]"
  by (auto simp: json_escape_def safe_byte_def)

lemma escaped_safe: "safe s \<Longrightarrow> escaped s = s"
  by (induction s) (simp_all add: json_escape_safe)

section \<open>Records\<close>

fun value_text :: "json_value \<Rightarrow> bytes" where
  "value_text (JStr s) = quote_byte # escaped s @ [quote_byte]"
| "value_text (JNum n) = digits n"

fun value_ok :: "json_value \<Rightarrow> bool" where
  "value_ok (JStr s) = True"
| "value_ok (JNum n) = (0 \<le> n)"

definition member_text :: "bytes \<times> json_value \<Rightarrow> bytes" where
  "member_text = (\<lambda>(k, v). quote_byte # k @ [quote_byte] @ '':'' @ value_text v)"

definition json_text :: "(bytes \<times> json_value) list \<Rightarrow> bytes" where
  "json_text ms = ''{'' @ join_bytes '','' (map member_text ms) @ ''}''"

lemma parse_key_text: "safe k \<Longrightarrow> parse_key (quote_byte # k @ quote_byte # CHR '':'' # r) = Some (k, r)"
  using parse_string_escaped [of k "CHR '':'' # r"] by (simp add: parse_key_def escaped_safe)

lemma is_digit_digits: "0 \<le> n \<Longrightarrow> c \<in> set (digits n) \<Longrightarrow> is_digit c"
  using digits_are_digits [of n c] digit_cases [of _ is_digit] by (auto simp: is_digit_def)

lemma digits_hd: "0 \<le> n \<Longrightarrow> \<exists>c cs. digits n = c # cs \<and> is_digit c"
  using is_digit_digits [of n] digits_nonempty [of n] by (cases "digits n") auto

lemma parse_value_text:
  assumes "value_ok v" "r \<noteq> []" "\<not> is_digit (hd r)"
  shows "parse_value (value_text v @ r) = Some (v, r)"
proof (cases v)
  case (JStr s)
  then show ?thesis
    using parse_string_escaped [of s r] by (simp add: parse_value_def)
next
  case (JNum n)
  then have n: "0 \<le> n"
    using assms(1) by simp
  obtain d r' where r: "r = d # r'" "\<not> is_digit d"
    using assms(2,3) by (cases r) auto
  have "takeWhile is_digit (digits n @ r) = digits n" "dropWhile is_digit (digits n @ r) = r"
    using is_digit_digits [OF n] r by (simp_all add: takeWhile_append dropWhile_append)
  moreover obtain c cs where c: "digits n = c # cs" "is_digit c"
    using digits_hd [OF n] by blast
  moreover have "c \<noteq> quote_byte"
    using c(2) by (auto simp: is_digit_def)
  ultimately have "parse_value (digits n @ r) = parse_number (digits n @ r)"
    by (simp add: parse_value_def)
  also have "\<dots> = Some (JNum n, r)"
    using \<open>takeWhile _ _ = _\<close> \<open>dropWhile _ _ = _\<close>
    by (simp add: parse_number_def decimal_value_digits [OF n])
  finally show ?thesis
    by (simp add: JNum)
qed

lemma parse_members_text:
  assumes "ms \<noteq> []" "list_all (\<lambda>(k, v). safe k \<and> value_ok v) ms" "length ms \<le> fuel"
  shows "parse_members fuel (join_bytes '','' (map member_text ms) @ ''}'') = Some ms"
  using assms
proof (induction ms arbitrary: fuel)
  case (Cons m ms)
  obtain k v where m: "m = (k, v)" by (cases m)
  obtain f where f: "fuel = Suc f" "length ms \<le> f"
    using Cons.prems(3) by (cases fuel) auto
  have ok: "safe k" "value_ok v"
    using Cons.prems(2) m by simp_all
  have nd: "\<not> is_digit (CHR '','')" "\<not> is_digit (CHR ''}'')"
    by (simp_all add: is_digit_def)
  show ?case
  proof (cases ms)
    case Nil
    then show ?thesis
      using parse_key_text [OF ok(1), of "value_text v @ ''}''"] parse_value_text [OF ok(2), of "''}''"] nd
      by (simp add: f m member_text_def parse_members.simps)
  next
    case (Cons m' ms')
    let ?rest = "join_bytes '','' (map member_text ms) @ ''}''"
    have "parse_members f ?rest = Some ms"
      using Cons.IH Cons Cons.prems(2) f(2) by simp
    then show ?thesis
      using parse_key_text [OF ok(1), of "value_text v @ CHR '','' # ?rest"]
        parse_value_text [OF ok(2), of "CHR '','' # ?rest"] nd Cons
      by (simp add: f m member_text_def parse_members.simps)
  qed
qed simp

lemma parse_json_text:
  assumes "ms \<noteq> []" "list_all (\<lambda>(k, v). safe k \<and> value_ok v) ms"
  shows "parse_json (json_text ms) = Some ms"
proof -
  have "length ms \<le> length (join_bytes '','' (map member_text ms) @ ''}'')"
  proof (induction ms)
    case (Cons m ms)
    then show ?case
      by (cases ms) (auto simp: member_text_def)
  qed simp
  then show ?thesis
    using parse_members_text [OF assms] by (simp add: parse_json_def json_text_def)
qed

section \<open>The client address\<close>

definition trim :: "bytes \<Rightarrow> bytes" where
  "trim s = rev (dropWhile blank (rev (dropWhile blank s)))"

definition leftmost :: "bytes \<Rightarrow> bytes" where
  "leftmost xff = trim (takeWhile (\<lambda>c. c \<noteq> CHR '','') xff)"

definition client_text :: "'c log_api \<Rightarrow> 'c \<Rightarrow> bytes" where
  "client_text G ctx =
     (let xff = req_Peek G xForwardedForKey ctx
      in if xff \<noteq> [] then leftmost xff else host_text (ctx_RemoteAddr G ctx))"

lemma first_comma_length: "first_comma s i (i + length s) = i + length (takeWhile (\<lambda>c. c \<noteq> CHR '','') s)"
proof (induction s arbitrary: i)
  case (Cons c s)
  show ?case
    using Cons [of "i + 1"] by simp
qed simp

lemma skip_start_drop:
  "s \<le> e \<Longrightarrow> e \<le> length xff \<Longrightarrow>
   skip_start xff s e \<le> e \<and> drop (skip_start xff s e) (take e xff) = dropWhile blank (drop s (take e xff))"
proof (induction xff s e rule: skip_start.induct)
  case (1 xff s e)
  show ?case
  proof (cases "s < e")
    case True
    then have "drop s (take e xff) = xff ! s # drop (s + 1) (take e xff)"
      using "1.prems" Cons_nth_drop_Suc [of s "take e xff"] by simp
    then show ?thesis
      using 1 True by (simp add: skip_start.simps [of xff s e])
  next
    case False
    then have "skip_start xff s e = s"
      by (subst skip_start.simps) simp
    moreover have "s = e"
      using False "1.prems" by simp
    ultimately show ?thesis
      by simp
  qed
qed

lemma skip_end_take:
  "s \<le> e \<Longrightarrow> e \<le> length xff \<Longrightarrow>
   take (skip_end xff s e - s) (drop s xff) = rev (dropWhile blank (rev (drop s (take e xff))))"
proof (induction xff s e rule: skip_end.induct)
  case (1 xff s e)
  show ?case
  proof (cases "s < e")
    case True
    then obtain k where k: "e = Suc k" "s \<le> k"
      by (cases e) auto
    then have "drop s (take e xff) = drop s (take k xff) @ [xff ! k]"
      using "1.prems" by (simp add: take_Suc_conv_app_nth)
    moreover have "skip_end xff s e = (if blank (xff ! k) then skip_end xff s k else e)"
      using k skip_end.simps [of xff s e] by simp
    ultimately show ?thesis
      using 1 k by (simp add: drop_take)
  next
    case False
    then have "skip_end xff s e = e"
      by (subst skip_end.simps) simp
    moreover have "s = e"
      using False "1.prems" by simp
    ultimately show ?thesis
      by simp
  qed
qed

lemma appendJSONClientIP_text:
  assumes "log_api_ok G"
  shows "appendJSONClientIP G dst ctx = dst @ quote_byte # client_text G ctx @ [quote_byte]"
proof -
  define xff where "xff = req_Peek G xForwardedForKey ctx"
  define e where "e = first_comma xff 0 (length xff)"
  have e: "e = length (takeWhile (\<lambda>c. c \<noteq> CHR '','') xff)" "take e xff = takeWhile (\<lambda>c. c \<noteq> CHR '','') xff"
    using first_comma_length [of xff 0] takeWhile_eq_take [of "\<lambda>c. c \<noteq> CHR '',''" xff]
    by (simp_all add: e_def)
  then have le: "e \<le> length xff"
    by (simp add: length_takeWhile_le)
  have "take (skip_end xff (skip_start xff 0 e) e - skip_start xff 0 e) (drop (skip_start xff 0 e) xff) = leftmost xff"
    using skip_start_drop [OF _ le, of 0] skip_end_take [OF _ le, of "skip_start xff 0 e"] e(2)
    by (simp add: leftmost_def trim_def)
  then show ?thesis
    using appendHostIP_text [OF assms, of "dst @ [quote_byte]" "ctx_RemoteAddr G ctx"]
    by (auto simp: appendJSONClientIP_def client_text_def Let_def xff_def e_def appendHostIP_def
        split: net_addr.split)
qed

section \<open>The record of a request\<close>

definition json_fields :: "'c log_api \<Rightarrow> log_env \<Rightarrow> 'c \<Rightarrow> (bytes \<times> json_value) list" where
  "json_fields G env ctx =
    [(''time'', JStr (iso_text (req_Time G ctx))),
     (''remote_addr'', JStr (addr_text (ctx_RemoteAddr G ctx))),
     (''client_ip'', JStr (client_text G ctx)),
     (''remote_user'', JStr (uri_Username G ctx)),
     (''method'', JStr (ctx_Method G ctx)),
     (''uri'', JStr (req_RequestURI G ctx)),
     (''proto'', JStr (req_Protocol G ctx)),
     (''scheme'', JStr (uri_Scheme G ctx)),
     (''host'', JStr (ctx_Host G ctx)),
     (''status'', JNum (resp_StatusCode G ctx)),
     (''size'', JNum (resp_ContentLength G ctx)),
     (''bytes_received'', JNum (int (length (req_RawHeaders G ctx)) + int (length (req_Body G ctx)))),
     (''duration_us'', JNum (Microseconds (Sub (timeNow env) (req_Time G ctx)))),
     (''referer'', JStr (req_Referer G ctx)),
     (''user_agent'', JStr (req_UserAgent G ctx))]"

text \<open>The members as they are written: as their JSON text, but the client address as it is.\<close>

definition raw_members :: "'c log_api \<Rightarrow> log_env \<Rightarrow> 'c \<Rightarrow> bytes list" where
  "raw_members G env ctx =
     (let ms = map member_text (json_fields G env ctx)
      in ms[2 := quote_byte # ''client_ip'' @ [quote_byte] @ '':'' @ quote_byte # client_text G ctx @ [quote_byte]])"

lemma duration_nonneg: "nanos t \<le> nanos u \<Longrightarrow> 0 \<le> Microseconds (Sub u t)" "nanos t \<le> nanos u \<Longrightarrow> 0 \<le> Seconds (Sub u t)"
  using Sub_nonneg [of t u] by (simp_all add: Microseconds_def Seconds_def)

lemma appendJSONLog_text:
  assumes "log_api_ok G" "request_ok G env ctx"
  shows "appendJSONLog G env dst ctx = dst @ ''{'' @ join_bytes '','' (raw_members G env ctx) @ ''}''"
proof -
  have au: "fh_AppendUint G d n = d @ digits n" if "0 \<le> n" for d n
    using assms(1) that by (simp add: log_api_ok_def)
  have n: "0 \<le> resp_StatusCode G ctx" "0 \<le> resp_ContentLength G ctx"
    "0 \<le> Microseconds (Sub (timeNow env) (req_Time G ctx))"
    "0 \<le> int (length (req_RawHeaders G ctx)) + int (length (req_Body G ctx))"
    using assms(2) duration_nonneg by (simp_all add: request_ok_def)
  have t: "time_ok (req_Time G ctx)" and a: "addr_ok (ctx_RemoteAddr G ctx)"
    "\<And>s. ctx_RemoteAddr G ctx = OtherAddr s \<Longrightarrow> safe s"
    using assms(2) by (auto simp: request_ok_def)
  have esc: "escaped (iso_text (req_Time G ctx)) = iso_text (req_Time G ctx)"
    "escaped (addr_text (ctx_RemoteAddr G ctx)) = addr_text (ctx_RemoteAddr G ctx)"
    by (rule escaped_safe, rule safe_iso_text, rule t) (rule escaped_safe, rule safe_addr_text, (fact a)+)
  show ?thesis
    unfolding appendJSONLog_def Let_def appendJSONString_text appendISOTime_text [OF t]
      appendNetAddr_text [OF assms(1) a(1)] appendJSONClientIP_text [OF assms(1)] au [OF n(1)] au [OF n(2)] au [OF n(3)]
      au [OF n(4)]
    by (simp add: raw_members_def json_fields_def member_text_def esc)
qed

lemma raw_members_safe:
  "safe (client_text G ctx) \<Longrightarrow> raw_members G env ctx = map member_text (json_fields G env ctx)"
  by (simp add: raw_members_def json_fields_def member_text_def escaped_safe)

lemma safe_literal: "list_all safe_byte s \<Longrightarrow> safe s"
  by (simp add: safe_def)

lemma json_fields_ok:
  assumes "request_ok G env ctx"
  shows "list_all (\<lambda>(k, v). safe k \<and> value_ok v) (json_fields G env ctx)"
proof -
  have "list_all (\<lambda>(k, v). safe k) (json_fields G env ctx)"
    by (simp add: json_fields_def safe_byte_def)
  moreover have "list_all (\<lambda>(k, v). value_ok v) (json_fields G env ctx)"
    using assms duration_nonneg by (simp add: json_fields_def request_ok_def)
  ultimately show ?thesis
    by (auto simp: list_all_iff)
qed

lemma json_log_read:
  assumes "log_api_ok G" "request_ok G env ctx" "safe (client_text G ctx)"
  shows "parse_json (appendJSONLog G env [] ctx) = Some (json_fields G env ctx)"
proof -
  have "appendJSONLog G env [] ctx = json_text (json_fields G env ctx)"
    by (simp add: appendJSONLog_text [OF assms(1,2)] raw_members_safe [OF assms(3)] json_text_def)
  then show ?thesis
    using parse_json_text [OF _ json_fields_ok [OF assms(2)]] by (simp add: json_fields_def)
qed

text \<open>One member, then a comma.\<close>

lemma parse_members_step:
  assumes "safe k" "value_ok v"
  shows "parse_members (Suc f) (member_text (k, v) @ CHR '','' # r) = map_option (Cons (k, v)) (parse_members f r)"
proof -
  have nd: "\<not> is_digit (CHR '','')"
    by (simp add: is_digit_def)
  show ?thesis
    using parse_key_text [OF assms(1), of "value_text v @ CHR '','' # r"]
      parse_value_text [OF assms(2), of "CHR '','' # r"] nd
    by (simp add: member_text_def parse_members.simps)
qed

lemma parse_members_broken:
  assumes "safe k" "safe a" "d \<noteq> CHR '',''" "d # r \<noteq> ''}''"
  shows "parse_members f (quote_byte # k @ quote_byte # CHR '':'' # quote_byte # a @ quote_byte # d # r) = None"
proof (cases f)
  case (Suc n)
  have "parse_value (quote_byte # a @ quote_byte # d # r) = Some (JStr a, d # r)"
    using parse_string_escaped [of a "d # r"] by (simp add: parse_value_def escaped_safe [OF assms(2)])
  then show ?thesis
    using parse_key_text [OF assms(1), of "quote_byte # a @ quote_byte # d # r"] assms(3,4)
    by (simp add: Suc parse_members.simps)
qed (simp add: parse_members.simps)

lemma leftmost_no_comma: "CHR '','' \<notin> set (leftmost xff)"
  by (auto simp: leftmost_def trim_def dest!: set_dropWhileD set_takeWhileD)

lemma json_log_broken:
  assumes "log_api_ok G" "request_ok G env ctx" "req_Peek G xForwardedForKey ctx = xff" "xff \<noteq> []"
    and entry: "leftmost xff = a @ quote_byte # b" "safe a"
  shows "parse_json (appendJSONLog G env [] ctx) = None"
proof -
  define m1 m2 where "m1 = (''time'', JStr (iso_text (req_Time G ctx)))"
    and "m2 = (''remote_addr'', JStr (addr_text (ctx_RemoteAddr G ctx)))"
  have "client_text G ctx = a @ quote_byte # b"
    using assms(3,4) entry by (simp add: client_text_def)
  then obtain r where raw: "join_bytes '','' (raw_members G env ctx) @ ''}'' =
      member_text m1 @ CHR '','' # member_text m2 @ CHR '','' #
      quote_byte # ''client_ip'' @ quote_byte # CHR '':'' # quote_byte # a @ quote_byte # (b @ [quote_byte]) @ CHR '','' # r"
    by (simp add: raw_members_def json_fields_def m1_def m2_def)
  obtain d b' where d: "b @ [quote_byte] = d # b'" "d \<noteq> CHR '',''"
    using leftmost_no_comma [of xff] entry(1) by (cases b) auto
  have "parse_members f (member_text m1 @ CHR '','' # member_text m2 @ CHR '','' #
      quote_byte # ''client_ip'' @ quote_byte # CHR '':'' # quote_byte # a @ quote_byte # d # b' @ CHR '','' # r) = None" for f
  proof (cases f)
    case (Suc f1)
    have "safe ''time''" "safe ''remote_addr''" "safe ''client_ip''"
      by (simp_all add: safe_byte_def)
    then show ?thesis
      using parse_members_broken [of "''client_ip''" a d "b' @ CHR '','' # r"] entry(2) d(2)
      by (cases f1) (simp_all add: Suc m1_def m2_def parse_members_step parse_members.simps(1))
  qed (simp add: parse_members.simps)
  then show ?thesis
    using raw d(1) by (simp add: appendJSONLog_text [OF assms(1,2)] parse_json_def)
qed

section \<open>Records in UTF-8\<close>

abbreviation ascii_byte :: "char \<Rightarrow> bool" where
  "ascii_byte c \<equiv> (of_char c :: nat) < 0x80"

abbreviation high_ranges :: "(nat \<times> nat) list \<Rightarrow> bool" where
  "high_ranges rs \<equiv> list_all (\<lambda>r. 0x80 \<le> fst r) rs"

lemma utf8_follow_ascii: "n < 0x80 \<Longrightarrow> utf8_follow n = Some []"
  by (simp add: utf8_follow_def)

lemma utf8_follow_high: "utf8_follow n = Some rs \<Longrightarrow> high_ranges rs"
  by (auto simp: utf8_follow_def utf8_tail_def split: if_splits)

text \<open>An ASCII byte is never part of a longer sequence.\<close>

lemma utf8_rest_ascii: "high_ranges rs \<Longrightarrow> ascii_byte c \<Longrightarrow> utf8_rest rs (c # s) \<longleftrightarrow> rs = [] \<and> utf8_rest [] s"
  by (cases rs) (auto simp: utf8_follow_ascii)

lemma utf8_rest_split:
  "high_ranges rs \<Longrightarrow> ascii_byte c \<Longrightarrow> utf8_rest rs (s @ c # t) \<longleftrightarrow> utf8_rest rs s \<and> utf8_rest [] t"
  by (induction rs s rule: utf8_rest.induct)
     (auto simp: utf8_rest_ascii utf8_follow_high split: option.split)

lemma valid_utf8_split: "ascii_byte c \<Longrightarrow> valid_utf8 (s @ c # t) \<longleftrightarrow> valid_utf8 s \<and> valid_utf8 t"
  by (simp add: valid_utf8_def utf8_rest_split)

lemma valid_utf8_ascii: "list_all ascii_byte s \<Longrightarrow> valid_utf8 s"
  unfolding valid_utf8_def by (induction s) (simp_all add: utf8_follow_ascii)

lemma valid_utf8_ascii_append: "list_all ascii_byte s \<Longrightarrow> valid_utf8 (s @ t) = valid_utf8 t"
  unfolding valid_utf8_def by (induction s) (simp_all add: utf8_follow_ascii)

lemma ascii_hex_digit:
  assumes "n < 16"
  shows "ascii_byte (hex_digit n)"
proof -
  have "list_all (\<lambda>k. ascii_byte (hex_digit k)) [0..<16]"
    by code_simp
  with assms show ?thesis
    by (simp add: list_all_iff)
qed

lemma json_escape_ascii:
  assumes "ascii_byte c"
  shows "\<exists>x xs. json_escape c = x # xs \<and> ascii_byte x \<and> list_all ascii_byte xs"
  using assms ascii_hex_digit [of "of_char c div 16"] ascii_hex_digit [of "of_char c mod 16"]
  by (auto simp: json_escape_def)

lemma json_escape_high:
  assumes "\<not> ascii_byte c"
  shows "json_escape c = [c]"
proof (rule json_escape_safe)
  have "c \<noteq> quote_byte" "c \<noteq> backslash"
    using assms by fastforce+
  with assms show "safe_byte c"
    by (simp add: safe_byte_def)
qed

text \<open>Escaping neither makes nor mends a byte that is not UTF-8.\<close>

lemma utf8_rest_escaped: "high_ranges rs \<Longrightarrow> utf8_rest rs (escaped s) = utf8_rest rs s"
proof (induction rs s rule: utf8_rest.induct)
  case (2 lo hi rs c s)
  show ?case
  proof (cases "ascii_byte c")
    case True
    then obtain x xs where "json_escape c = x # xs" "ascii_byte x"
      using json_escape_ascii by blast
    with 2 True show ?thesis
      by simp
  next
    case False
    with 2 show ?thesis
      by (simp add: json_escape_high)
  qed
next
  case (3 c s)
  show ?case
  proof (cases "ascii_byte c")
    case True
    then obtain x xs where x: "json_escape c = x # xs" "ascii_byte x" "list_all ascii_byte xs"
      using json_escape_ascii by blast
    then show ?thesis
      using 3 True valid_utf8_ascii_append [of "x # xs" "escaped s"] by (simp add: valid_utf8_def utf8_follow_ascii)
  next
    case False
    then show ?thesis
      using 3 by (simp add: json_escape_high utf8_follow_high split: option.split)
  qed
qed simp

lemma valid_utf8_escaped: "valid_utf8 (escaped s) = valid_utf8 s"
  by (simp add: valid_utf8_def utf8_rest_escaped)

fun value_utf8 :: "json_value \<Rightarrow> bool" where
  "value_utf8 (JStr s) = valid_utf8 s"
| "value_utf8 (JNum n) = True"

lemma ascii_digits: "0 \<le> n \<Longrightarrow> list_all ascii_byte (digits n)"
  using is_digit_digits [of n] by (force simp: list_all_iff is_digit_def)

lemma valid_utf8_member:
  assumes "list_all ascii_byte k" "value_ok v"
  shows "valid_utf8 (member_text (k, v)) = value_utf8 v"
proof (cases v)
  case (JStr s)
  have "member_text (k, v) = (quote_byte # k @ [quote_byte, CHR '':'', quote_byte]) @ escaped s @ quote_byte # []"
    by (simp add: member_text_def JStr)
  moreover have "valid_utf8 ((quote_byte # k @ [quote_byte, CHR '':'', quote_byte]) @ escaped s @ quote_byte # []) =
      valid_utf8 (escaped s @ quote_byte # [])"
    using assms(1) by (intro valid_utf8_ascii_append) simp
  ultimately show ?thesis
    using valid_utf8_ascii [of "[]"] by (simp add: valid_utf8_split valid_utf8_escaped JStr)
next
  case (JNum n)
  then show ?thesis
    using assms ascii_digits [of n] by (intro iffI) (simp_all add: member_text_def valid_utf8_ascii)
qed

lemma valid_utf8_members:
  "list_all (\<lambda>(k, v). list_all ascii_byte k \<and> value_ok v) ms \<Longrightarrow>
   valid_utf8 (join_bytes '','' (map member_text ms)) = list_all (\<lambda>(k, v). value_utf8 v) ms"
proof (induction ms)
  case Nil
  then show ?case
    using valid_utf8_ascii [of "[]"] by simp
next
  case (Cons m ms)
  obtain k v where m: "m = (k, v)" by (cases m)
  then have "valid_utf8 (member_text m) = value_utf8 v"
    using Cons.prems by (simp add: valid_utf8_member)
  then show ?case
    using Cons m by (cases ms) (simp_all add: valid_utf8_split)
qed

lemma valid_utf8_json_text:
  assumes "list_all (\<lambda>(k, v). list_all ascii_byte k \<and> value_ok v) ms"
  shows "valid_utf8 (json_text ms) = list_all (\<lambda>(k, v). value_utf8 v) ms"
  using valid_utf8_ascii_append [of "''{''"] valid_utf8_ascii [of "[]"] valid_utf8_members [OF assms]
  by (simp add: json_text_def valid_utf8_split)

section \<open>Properties\<close>

text \<open>C26. When a JSON record can be read, and what it says. Let the client address (the left-most entry of
  X-Forwarded-For, or else the peer's) have no quote, backslash or control character (C27), and let sizes and
  times make sense (no negative content length, a clock that did not go back). Then, whatever bytes the user,
  method, URI, protocol, scheme, host, referer and user agent consist of, a reader that insists on UTF-8 reads
  the record as exactly the 15 fields of the request if they all are UTF-8; if one is not, the record is not a
  JSON text: bytes from 0x80 on are copied unchecked.\<close>

theorem json_log_parses:
  assumes "log_api_ok G" "request_ok G env ctx" "safe (client_text G ctx)"
  shows "read_json (appendJSONLog G env [] ctx) =
    (if list_all (\<lambda>(k, v). value_utf8 v) (json_fields G env ctx) then Some (json_fields G env ctx) else None)"
proof -
  have line: "appendJSONLog G env [] ctx = json_text (json_fields G env ctx)"
    by (simp add: appendJSONLog_text [OF assms(1,2)] raw_members_safe [OF assms(3)] json_text_def)
  have "list_all (\<lambda>(k, v). list_all ascii_byte k) (json_fields G env ctx)"
    by (simp add: json_fields_def)
  then have "valid_utf8 (json_text (json_fields G env ctx)) = list_all (\<lambda>(k, v). value_utf8 v) (json_fields G env ctx)"
    using json_fields_ok [OF assms(2)] by (intro valid_utf8_json_text) (auto simp: list_all_iff)
  then show ?thesis
    using json_log_read [OF assms] by (simp add: read_json_def line)
qed

text \<open>A URI of a quote, a line feed and an \<open>e\<close> with an acute accent is read back; one with the lone first
  byte of that letter is not.\<close>

theorem json_log_parses_witness:
  "read_json (appendJSONLog ref_log ref_env [] (ref_request ''GET'' [CHR 0x22, CHR 0x0A, CHR 0xC3, CHR 0xA9])) \<noteq> None \<and>
   read_json (appendJSONLog ref_log ref_env [] (ref_request ''GET'' [CHR 0xC3])) = None"
proof -
  let ?r = "\<lambda>u. ref_request ''GET'' u"
  have ok: "request_ok ref_log ref_env (?r u)" "safe (client_text ref_log (?r u))" for u
    by (simp_all add: request_ok_def demo_time_ok addr_ok_def ref_request_def client_text_def hdr_first_def safe_host_text)
  have ascii: "valid_utf8 (iso_text demo_time)" "valid_utf8 (host_text (TCPAddr [10, 1, 2, 3] 51002))"
    "valid_utf8 (addr_text (TCPAddr [10, 1, 2, 3] 51002))"
    by code_simp+
  have "list_all (\<lambda>(k, v). value_utf8 v) (json_fields ref_log ref_env (?r u)) = valid_utf8 u" for u
    using ascii by (simp add: json_fields_def client_text_def ref_request_def hdr_first_def)
      (simp add: valid_utf8_def utf8_follow_def)
  moreover have "valid_utf8 [CHR 0x22, CHR 0x0A, CHR 0xC3, CHR 0xA9]" "\<not> valid_utf8 [CHR 0xC3]"
    by code_simp+
  ultimately show ?thesis
    using json_log_parses [OF ref_log_ok ok, of "[CHR 0x22, CHR 0x0A, CHR 0xC3, CHR 0xA9]"]
      json_log_parses [OF ref_log_ok ok, of "[CHR 0xC3]"] by simp
qed

text \<open>C27. The proviso is needed, and a client controls it: a quote in the left-most entry of its
  X-Forwarded-For header, which is copied without escaping, makes the whole record unreadable.\<close>

theorem json_log_breakable:
  assumes "log_api_ok G" "request_ok G env ctx" "req_Peek G xForwardedForKey ctx = xff" "xff \<noteq> []"
    and "leftmost xff = a @ quote_byte # b" "safe a"
  shows "parse_json (appendJSONLog G env [] ctx) = None"
  using assms by (rule json_log_broken)

theorem json_log_breakable_witness:
  "parse_json (appendJSONLog ref_log ref_env []
     ((ref_request ''GET'' ''/'')\<lparr>rx_reqh := [(''X-Forwarded-For'', [quote_byte])]\<rparr>)) = None"
proof (rule json_log_breakable [OF ref_log_ok, where a = "[]" and b = "[]" and xff = "[quote_byte]"])
  show "leftmost [quote_byte] = [] @ [quote_byte]"
    by (simp add: leftmost_def trim_def blank_def)
qed (simp_all add: request_ok_def demo_time_ok addr_ok_def ref_request_def hdr_first_def xForwardedForKey_def)

end
