(* ===== verification/LtsvLog.thy ===== *)
theory LtsvLog
  imports LogCtx JsonLog
begin

text \<open>
  The LTSV access-log format of \<open>pkg/logger/accesslog/ltsv.go\<close>: values with their separators blanked, the
  13-field record; a reader that splits a record at its tabs and every field at its first colon.
\<close>

section \<open>Model\<close>

definition FormatLTSV :: string where
  "FormatLTSV = ''ltsv''"

abbreviation tab_byte :: char where
  "tab_byte \<equiv> CHR 0x09"

fun appendLTSVValue :: "bytes \<Rightarrow> bytes \<Rightarrow> bytes" where
  "appendLTSVValue dst [] = dst"
| "appendLTSVValue dst (c # s) =
     (if c = tab_byte \<or> c = CHR 0x0A \<or> c = CHR 0x0D then appendLTSVValue (dst @ '' '') s
      else appendLTSVValue (dst @ [c]) s)"

definition appendLTSVLog :: "'c log_api \<Rightarrow> 'c appendFunc" where
  "appendLTSVLog G env dst ctx =
     (let key = (\<lambda>k. tab_byte # k @ '':'');
          dst = dst @ ''time:'';
          dst = appendISOTime dst (req_Time G ctx);
          dst = dst @ key ''host'';
          dst = appendHostIP G dst (ctx_RemoteAddr G ctx);
          dst = dst @ key ''forwardedfor'';
          dst = appendLTSVValue dst (req_Peek G xForwardedForKey ctx);
          dst = dst @ key ''user'';
          dst = appendLTSVValue dst (uri_Username G ctx);
          dst = dst @ key ''req'';
          dst = appendLTSVValue dst (ctx_Method G ctx);
          dst = dst @ '' '';
          dst = appendLTSVValue dst (req_RequestURI G ctx);
          dst = dst @ '' '';
          dst = appendLTSVValue dst (req_Protocol G ctx);
          dst = dst @ key ''scheme'';
          dst = appendLTSVValue dst (uri_Scheme G ctx);
          dst = dst @ key ''vhost'';
          dst = appendLTSVValue dst (ctx_Host G ctx);
          dst = dst @ key ''status'';
          dst = fh_AppendUint G dst (resp_StatusCode G ctx);
          dst = dst @ key ''size'';
          dst = fh_AppendUint G dst (resp_ContentLength G ctx);
          dst = dst @ key ''reqsize'';
          bytesIn = int (length (req_RawHeaders G ctx)) + int (length (req_Body G ctx));
          dst = fh_AppendUint G dst bytesIn;
          dst = dst @ key ''reqtime_microsec'';
          durationUs = Microseconds (Sub (timeNow env) (req_Time G ctx));
          dst = fh_AppendUint G dst durationUs;
          dst = dst @ key ''referer'';
          dst = appendLTSVValue dst (req_Referer G ctx);
          dst = dst @ key ''ua'';
          dst = appendLTSVValue dst (req_UserAgent G ctx)
      in dst)"

section \<open>Reading a record\<close>

fun split_at :: "char \<Rightarrow> bytes \<Rightarrow> bytes list" where
  "split_at sep [] = [[]]"
| "split_at sep (c # s) =
     (if c = sep then [] # split_at sep s
      else case split_at sep s of f # fs \<Rightarrow> (c # f) # fs | [] \<Rightarrow> [[c]])"

definition label_value :: "bytes \<Rightarrow> bytes \<times> bytes" where
  "label_value f = (takeWhile (\<lambda>c. c \<noteq> CHR '':'') f, drop 1 (dropWhile (\<lambda>c. c \<noteq> CHR '':'') f))"

definition parse_ltsv :: "bytes \<Rightarrow> (bytes \<times> bytes) list" where
  "parse_ltsv s = map label_value (split_at tab_byte s)"

section \<open>Values\<close>

definition blanked :: "bytes \<Rightarrow> bytes" where
  "blanked s = map (\<lambda>c. if c = tab_byte \<or> c = CHR 0x0A \<or> c = CHR 0x0D then CHR '' '' else c) s"

lemma appendLTSVValue_text: "appendLTSVValue dst s = dst @ blanked s"
  by (induction dst s rule: appendLTSVValue.induct) (simp_all add: blanked_def)

text \<open>One line, one field.\<close>

definition line_byte :: "char \<Rightarrow> bool" where
  "line_byte c \<longleftrightarrow> c \<noteq> tab_byte \<and> c \<noteq> CHR 0x0A \<and> c \<noteq> CHR 0x0D"

lemma blanked_line: "list_all line_byte (blanked s)"
  by (auto simp: blanked_def line_byte_def list_all_iff)

lemma safe_byte_line: "safe_byte c \<Longrightarrow> line_byte c"
proof -
  have "\<not> safe_byte tab_byte" "\<not> safe_byte (CHR 0x0A)" "\<not> safe_byte (CHR 0x0D)"
    by (simp_all add: safe_byte_def)
  then show "safe_byte c \<Longrightarrow> line_byte c"
    unfolding line_byte_def by blast
qed

lemma safe_line: "safe s \<Longrightarrow> list_all line_byte s"
  by (simp add: safe_def list_all_iff safe_byte_line)

lemma split_at_plain: "sep \<notin> set f \<Longrightarrow> split_at sep f = [f]"
  by (induction f) auto

lemma split_at_sep: "sep \<notin> set f \<Longrightarrow> split_at sep (f @ sep # r) = f # split_at sep r"
  by (induction f) auto

definition ltsv_field :: "bytes \<times> bytes \<Rightarrow> bytes" where
  "ltsv_field = (\<lambda>(k, v). k @ '':'' @ v)"

lemma parse_ltsv_fields:
  assumes "fs \<noteq> []" "list_all (\<lambda>(k, v). CHR '':'' \<notin> set k \<and> list_all line_byte k \<and> list_all line_byte v) fs"
  shows "parse_ltsv (join_bytes [tab_byte] (map ltsv_field fs)) = fs"
  using assms
proof (induction fs)
  case (Cons f fs)
  obtain k v where f: "f = (k, v)" by (cases f)
  have lv: "label_value (ltsv_field f) = f"
    using Cons.prems(2) by (simp add: f label_value_def ltsv_field_def takeWhile_append dropWhile_append)
  have nt: "tab_byte \<notin> set (ltsv_field f)"
    using Cons.prems(2) by (auto simp: f ltsv_field_def line_byte_def list_all_iff)
  show ?case
  proof (cases fs)
    case Nil
    then show ?thesis
      by (simp add: parse_ltsv_def split_at_plain [OF nt] lv)
  next
    case (Cons g gs)
    then show ?thesis
      using Cons.IH Cons.prems(2) lv split_at_sep [OF nt] by (simp add: parse_ltsv_def)
  qed
qed simp

lemma join_line:
  assumes "\<And>f. f \<in> set fs \<Longrightarrow> c \<notin> set f" "c \<notin> set sep"
  shows "c \<notin> set (join_bytes sep fs)"
  using assms by (induction sep fs rule: join_bytes.induct) simp_all

section \<open>The record of a request\<close>

definition ltsv_fields :: "'c log_api \<Rightarrow> log_env \<Rightarrow> 'c \<Rightarrow> (bytes \<times> bytes) list" where
  "ltsv_fields G env ctx =
    [(''time'', iso_text (req_Time G ctx)),
     (''host'', host_text (ctx_RemoteAddr G ctx)),
     (''forwardedfor'', blanked (req_Peek G xForwardedForKey ctx)),
     (''user'', blanked (uri_Username G ctx)),
     (''req'', blanked (ctx_Method G ctx) @ '' '' @ blanked (req_RequestURI G ctx) @ '' '' @ blanked (req_Protocol G ctx)),
     (''scheme'', blanked (uri_Scheme G ctx)),
     (''vhost'', blanked (ctx_Host G ctx)),
     (''status'', digits (resp_StatusCode G ctx)),
     (''size'', digits (resp_ContentLength G ctx)),
     (''reqsize'', digits (int (length (req_RawHeaders G ctx)) + int (length (req_Body G ctx)))),
     (''reqtime_microsec'', digits (Microseconds (Sub (timeNow env) (req_Time G ctx)))),
     (''referer'', blanked (req_Referer G ctx)),
     (''ua'', blanked (req_UserAgent G ctx))]"

lemma appendLTSVLog_text:
  assumes "log_api_ok G" "request_ok G env ctx"
  shows "appendLTSVLog G env dst ctx = dst @ join_bytes [tab_byte] (map ltsv_field (ltsv_fields G env ctx))"
proof -
  have au: "fh_AppendUint G d n = d @ digits n" if "0 \<le> n" for d n
    using assms(1) that by (simp add: log_api_ok_def)
  have n: "0 \<le> resp_StatusCode G ctx" "0 \<le> resp_ContentLength G ctx"
    "0 \<le> Microseconds (Sub (timeNow env) (req_Time G ctx))"
    "0 \<le> int (length (req_RawHeaders G ctx)) + int (length (req_Body G ctx))"
    using assms(2) duration_nonneg by (simp_all add: request_ok_def)
  have t: "time_ok (req_Time G ctx)"
    using assms(2) by (simp add: request_ok_def)
  show ?thesis
    unfolding appendLTSVLog_def Let_def appendLTSVValue_text appendISOTime_text [OF t]
      appendHostIP_text [OF assms(1)] au [OF n(1)] au [OF n(2)] au [OF n(3)] au [OF n(4)]
    by (simp add: ltsv_fields_def ltsv_field_def)
qed

lemma ltsv_fields_ok:
  assumes "request_ok G env ctx"
  shows "list_all (\<lambda>(k, v). CHR '':'' \<notin> set k \<and> list_all line_byte k \<and> list_all line_byte v) (ltsv_fields G env ctx)"
proof -
  have "list_all (\<lambda>(k, v). CHR '':'' \<notin> set k \<and> list_all line_byte k) (ltsv_fields G env ctx)"
    by (simp add: ltsv_fields_def line_byte_def)
  moreover have "list_all (\<lambda>(k, v). list_all line_byte v) (ltsv_fields G env ctx)"
    using assms duration_nonneg
    by (simp add: ltsv_fields_def request_ok_def blanked_line safe_line safe_iso_text safe_host_text safe_digits)
       (simp add: line_byte_def)
  ultimately show ?thesis
    by (auto simp: list_all_iff)
qed

section \<open>Property\<close>

text \<open>C28. An LTSV record is one line, and splitting it at its tabs gives the 13 labels with their values,
  whatever bytes the client sends: nothing in a header, URI or user name can add, remove or move a field.\<close>

theorem ltsv_log_parses:
  assumes "log_api_ok G" "request_ok G env ctx"
  shows "parse_ltsv (appendLTSVLog G env [] ctx) = ltsv_fields G env ctx \<and>
    CHR 0x0A \<notin> set (appendLTSVLog G env [] ctx)"
proof
  show "parse_ltsv (appendLTSVLog G env [] ctx) = ltsv_fields G env ctx"
    using parse_ltsv_fields [OF _ ltsv_fields_ok [OF assms(2)]] appendLTSVLog_text [OF assms, of "[]"]
    by (simp add: ltsv_fields_def)
  have "CHR 0x0A \<notin> set f" if f: "f \<in> set (map ltsv_field (ltsv_fields G env ctx))" for f
  proof -
    obtain p where p: "p \<in> set (ltsv_fields G env ctx)" "f = ltsv_field p"
      using f unfolding list.set_map by blast
    obtain k v where "p = (k, v)"
      by (cases p)
    with p have kv: "(k, v) \<in> set (ltsv_fields G env ctx)" "f = k @ '':'' @ v"
      by (simp_all add: ltsv_field_def)
    then have "list_all line_byte k" "list_all line_byte v"
      using ltsv_fields_ok [OF assms(2)] by (auto simp: list_all_iff)
    then show ?thesis
      by (auto simp: kv(2) line_byte_def list_all_iff)
  qed
  then have "CHR 0x0A \<notin> set (join_bytes [tab_byte] (map ltsv_field (ltsv_fields G env ctx)))"
    by (rule join_line) simp_all
  then show "CHR 0x0A \<notin> set (appendLTSVLog G env [] ctx)"
    by (simp add: appendLTSVLog_text [OF assms])
qed

theorem ltsv_log_parses_witness:
  "CHR 0x0A \<notin> set (appendLTSVLog ref_log ref_env [] (ref_request ''GET'' [tab_byte, CHR 0x0A]))"
proof -
  have "request_ok ref_log ref_env (ref_request ''GET'' [tab_byte, CHR 0x0A])"
    by (simp add: request_ok_def demo_time_ok addr_ok_def ref_request_def)
  then show ?thesis
    using ltsv_log_parses [OF ref_log_ok] by blast
qed

end
