(* ===== verification/NcsaLog.thy ===== *)
theory NcsaLog
  imports LogCtx ConfigTypes
begin

text \<open>
  The Apache-style access-log formats of \<open>pkg/logger/accesslog/ncsa.go\<close>: the tokens of a format, the
  append function of every directive, the compiled format.

  The format is read with the regular expression \<open>(%(>|{(.+?)})?([a-zA-Z%])|([^%]+))\<close>; \<open>find_all\<close> is what
  \<open>FindAllStringSubmatch\<close> of Go's package \<open>regexp\<close> (leftmost, first alternative preferred) answers for it:
  the submatches 0, 3 and 4 of every match. A percent sign that starts no match is skipped.
\<close>

section \<open>Tokens of a format\<close>

definition FormatCommon :: string where
  "FormatCommon = ''%h %l %u %t '' @ [CHR 0x22] @ ''%r'' @ [CHR 0x22] @ '' %>s %b''"

definition FormatCombined :: string where
  "FormatCombined = FormatCommon @ '' '' @ [CHR 0x22] @ ''%{Referer}i'' @ [CHR 0x22] @ '' '' @
     [CHR 0x22] @ ''%{User-agent}i'' @ [CHR 0x22]"

definition letter :: "char \<Rightarrow> bool" where
  "letter c \<longleftrightarrow> (let n = of_char c :: nat in (97 \<le> n \<and> n \<le> 122) \<or> (65 \<le> n \<and> n \<le> 90) \<or> c = CHR ''%'')"

text \<open>A literal, or a directive with its argument (the braces' contents, or empty) and its letter.\<close>

datatype ncsa_token = is_Literal: Literal bytes | Directive bytes char

text \<open>\<open>{(.+?)}\<close> and the letter: the shortest argument, of at least one byte and without line feeds.\<close>

fun match_braces :: "bytes \<Rightarrow> bytes \<Rightarrow> (bytes \<times> char \<times> bytes) option" where
  "match_braces acc s =
     (case s of
        [] \<Rightarrow> None
      | x # s' \<Rightarrow>
          (case s' of
             c # r \<Rightarrow> if acc \<noteq> [] \<and> x = CHR ''}'' \<and> letter c then Some (rev acc, c, r)
                      else if x = CHR 0x0A then None else match_braces (x # acc) s'
           | [] \<Rightarrow> None))"

declare match_braces.simps [simp del]

definition match_directive :: "bytes \<Rightarrow> (bytes \<times> char \<times> bytes) option" where
  "match_directive s =
     (case s of
        [] \<Rightarrow> None
      | c # r \<Rightarrow>
          if letter c then Some ([], c, r)
          else if c = CHR ''>'' then (case r of d # r' \<Rightarrow> if letter d then Some ([], d, r') else None | [] \<Rightarrow> None)
          else if c = CHR ''{'' then match_braces [] r
          else None)"

lemma match_braces_shorter: "match_braces acc s = Some (arg, c, r) \<Longrightarrow> length r < length s"
proof (induction acc s rule: match_braces.induct)
  case (1 acc s)
  note IH = "1.IH"
  from "1.prems" show ?case
    unfolding match_braces.simps [of acc s] by (auto split: list.splits if_splits dest: IH)
qed

lemma match_directive_shorter: "match_directive s = Some (arg, c, r) \<Longrightarrow> length r < length s"
  by (auto simp: match_directive_def split: list.splits if_splits dest: match_braces_shorter)

function find_all :: "bytes \<Rightarrow> ncsa_token list" where
  "find_all [] = []"
| "find_all (x # s) =
     (if x = CHR ''%'' then
        (case match_directive s of
           Some (arg, c, r) \<Rightarrow> Directive arg c # find_all r
         | None \<Rightarrow> find_all s)
      else Literal (x # takeWhile (\<lambda>c. c \<noteq> CHR ''%'') s) # find_all (dropWhile (\<lambda>c. c \<noteq> CHR ''%'') s))"
  by pat_completeness auto
termination
  by (relation "measure length") (auto dest: match_directive_shorter simp: le_imp_less_Suc length_dropWhile_le)

declare find_all.simps [simp del]

section \<open>The append functions\<close>

definition newAppendBytes :: "bytes \<Rightarrow> 'c appendFunc" where
  "newAppendBytes b env dst ctx = dst @ b"

definition appendNil :: "'c appendFunc" where
  "appendNil = newAppendBytes ''-''"

definition appendPlus :: "'c appendFunc" where
  "appendPlus = newAppendBytes ''+''"

definition appendLp :: "'c log_api \<Rightarrow> 'c appendFunc" where
  "appendLp G env dst ctx =
     (let p = portFromAddr (ctx_LocalAddr G ctx)
      in if p > 0 then fh_AppendUint G dst p else appendNil env dst ctx)"

definition appendLpRemote :: "'c log_api \<Rightarrow> 'c appendFunc" where
  "appendLpRemote G env dst ctx =
     (let p = portFromAddr (ctx_RemoteAddr G ctx)
      in if p > 0 then fh_AppendUint G dst p else appendNil env dst ctx)"

definition ncsaMonths :: bytes where
  "ncsaMonths = ''JanFebMarAprMayJunJulAugSepOctNovDec''"

text \<open>The buffer's slices, each after \<open>util.CopyRightUint\<close> has written its right end.\<close>

definition field2 :: "int \<Rightarrow> bytes" where
  "field2 n = fst (CopyRightUint [CHR ''0'', CHR 0x00] n)"

definition field4 :: "int \<Rightarrow> bytes" where
  "field4 n = fst (CopyRightUint [CHR ''0'', CHR ''0'', CHR ''0'', CHR 0x00] n)"

definition appendNCSADate :: "bytes \<Rightarrow> gotime \<Rightarrow> bytes" where
  "appendNCSADate dst date =
     (let m = nat ((Month date - 1) * 3);
          zo = t_offset date;
          (sign, zo) = (if zo < 0 then (CHR ''-'', - zo) else (CHR ''+'', zo))
      in dst @ ''['' @ field2 (Day date) @ ''/'' @ take 3 (drop m ncsaMonths) @ ''/'' @ field4 (t_year date) @ '':'' @
         field2 (Hour date) @ '':'' @ field2 (Minute date) @ '':'' @ field2 (Second date) @ '' '' @
         [sign] @ field2 (go_div zo (60 * 60)) @ ''00'' @ '']'')"

fun ncsa_uri_loop :: "bytes \<Rightarrow> bytes \<Rightarrow> bytes" where
  "ncsa_uri_loop dst [] = dst"
| "ncsa_uri_loop dst (s # uri) =
     (let dst = (if s = CHR 0x22 \<or> s = CHR 0x5C then dst @ [CHR 0x5C] else dst)
      in ncsa_uri_loop (dst @ [s]) uri)"

definition appendNCSARequest :: "bytes \<Rightarrow> bytes \<Rightarrow> bytes \<Rightarrow> bytes \<Rightarrow> bytes" where
  "appendNCSARequest dst meth uri protocol =
     (let dst = dst @ meth; dst = dst @ '' ''; dst = ncsa_uri_loop dst uri; dst = dst @ '' ''
      in dst @ protocol)"

definition newAppendCookie :: "'c log_api \<Rightarrow> bytes \<Rightarrow> 'c appendFunc" where
  "newAppendCookie G key env dst ctx =
     (let v = req_Cookie G key ctx in if length v > 0 then dst @ v else appendNil env dst ctx)"

definition newAppendEnv :: "bytes \<Rightarrow> 'c appendFunc" where
  "newAppendEnv key env dst ctx =
     (case LookupEnv env key of Some v \<Rightarrow> dst @ v | None \<Rightarrow> appendNil env dst ctx)"

definition newAppendRequestHeader :: "'c log_api \<Rightarrow> bytes \<Rightarrow> 'c appendFunc" where
  "newAppendRequestHeader G key env dst ctx =
     (let v = req_Peek G key ctx in if length v > 0 then dst @ v else appendNil env dst ctx)"

definition newAppendResponseHeader :: "'c log_api \<Rightarrow> bytes \<Rightarrow> 'c appendFunc" where
  "newAppendResponseHeader G key env dst ctx =
     (let v = resp_PeekBytes G key ctx in if length v > 0 then dst @ v else appendNil env dst ctx)"

text \<open>A panic of \<open>AppendBytes\<close> (years before 0) would be one of the log call.\<close>

definition newAppendStrftime :: "'c log_api \<Rightarrow> bytes \<Rightarrow> log_env \<Rightarrow> bytes \<Rightarrow> 'c \<Rightarrow> bytes go" where
  "newAppendStrftime G format env dst ctx =
     AppendBytes (NewStrftimeBytes (fh_AppendUint G) format) dst (req_Time G ctx)"

definition HeaderKeyOriginalRequestURI :: bytes where
  "HeaderKeyOriginalRequestURI = ''Original-Request-URI''"

definition appendLa :: "'c log_api \<Rightarrow> 'c appendFunc" where
  "appendLa G env dst ctx = appendNetAddr G dst (ctx_RemoteAddr G ctx)"

definition appendA :: "'c log_api \<Rightarrow> 'c appendFunc" where
  "appendA G env dst ctx = appendNetAddr G dst (ctx_LocalAddr G ctx)"

definition appendB :: "'c log_api \<Rightarrow> 'c appendFunc" where
  "appendB G env dst ctx = fh_AppendUint G dst (resp_ContentLength G ctx)"

definition appendLb :: "'c log_api \<Rightarrow> 'c appendFunc" where
  "appendLb G env dst ctx =
     (let b = resp_ContentLength G ctx in if b > 0 then fh_AppendUint G dst b else appendNil env dst ctx)"

definition appendD :: "'c log_api \<Rightarrow> 'c appendFunc" where
  "appendD G env dst ctx =
     (let t = Sub (timeNow env) (req_Time G ctx) in fh_AppendUint G dst (Microseconds t))"

definition appendLf :: "'c log_api \<Rightarrow> 'c appendFunc" where
  "appendLf G env dst ctx = dst @ ctx_Path G ctx"

definition appendLh :: "'c log_api \<Rightarrow> 'c appendFunc" where
  "appendLh G env dst ctx = fh_AppendIPv4 G dst (ctx_RemoteIP G ctx)"

definition appendLk :: "'c log_api \<Rightarrow> 'c appendFunc" where
  "appendLk G env dst ctx = fh_AppendUint G dst (i64 (ctx_ConnRequestNum G ctx))"

definition appendH :: "'c log_api \<Rightarrow> 'c appendFunc" where
  "appendH G env dst ctx = dst @ req_Protocol G ctx"

definition appendLm :: "'c log_api \<Rightarrow> 'c appendFunc" where
  "appendLm G env dst ctx = dst @ ctx_Method G ctx"

definition appendP :: "'c log_api \<Rightarrow> 'c appendFunc" where
  "appendP G env dst ctx = fh_AppendUint G dst (Getegid env)"

definition appendLq :: "'c log_api \<Rightarrow> 'c appendFunc" where
  "appendLq G env dst ctx =
     (let qstr = ctx_QueryString G ctx
      in if length qstr > 0 then (dst @ ''?'') @ qstr else appendNil env dst ctx)"

definition appendLr :: "'c log_api \<Rightarrow> 'c appendFunc" where
  "appendLr G env dst ctx =
     (let uri = req_Peek G HeaderKeyOriginalRequestURI ctx
      in if length uri = 0 then appendNil env dst ctx
         else appendNCSARequest dst (ctx_Method G ctx) uri (req_Protocol G ctx))"

definition appendL :: "'c log_api \<Rightarrow> 'c appendFunc" where
  "appendL G env dst ctx = fh_AppendUint G dst (i64 (ctx_ID G ctx))"

definition appendLs :: "'c log_api \<Rightarrow> 'c appendFunc" where
  "appendLs G env dst ctx = fh_AppendUint G dst (resp_StatusCode G ctx)"

definition appendLt :: "'c log_api \<Rightarrow> 'c appendFunc" where
  "appendLt G env dst ctx = appendNCSADate dst (req_Time G ctx)"

definition appendT :: "'c log_api \<Rightarrow> 'c appendFunc" where
  "appendT G env dst ctx =
     (let t = Sub (timeNow env) (req_Time G ctx) in fh_AppendUint G dst (Seconds t))"

definition appendLu :: "'c log_api \<Rightarrow> 'c appendFunc" where
  "appendLu G env dst ctx =
     (let u = uri_Username G ctx in if length u > 0 then dst @ u else appendNil env dst ctx)"

definition appendU :: "'c log_api \<Rightarrow> 'c appendFunc" where
  "appendU G env dst ctx = dst @ ctx_Path G ctx"

definition appendX :: "'c log_api \<Rightarrow> 'c appendFunc" where
  "appendX G env dst ctx =
     (if \<not> resp_ConnectionClose G ctx then appendPlus env dst ctx else appendNil env dst ctx)"

definition appendI :: "'c log_api \<Rightarrow> 'c appendFunc" where
  "appendI G env dst ctx =
     (let h = int (length (req_RawHeaders G ctx)); b = int (length (req_Body G ctx))
      in fh_AppendUint G dst (h + b))"

definition appendO :: "'c log_api \<Rightarrow> 'c appendFunc" where
  "appendO G env dst ctx =
     (let h = int (length (resp_HeaderBytes G ctx)); b = int (length (resp_Body G ctx))
      in fh_AppendUint G dst (h + b))"

definition appendS :: "'c log_api \<Rightarrow> 'c appendFunc" where
  "appendS G env dst ctx =
     (let h = int (length (req_RawHeaders G ctx)); b = int (length (req_Body G ctx));
          h = h + int (length (resp_HeaderBytes G ctx)); b = b + int (length (resp_Body G ctx))
      in fh_AppendUint G dst (h + b))"

definition appendFuncs :: "'c log_api \<Rightarrow> (char \<times> 'c appendFunc) list" where
  "appendFuncs G =
    [(CHR ''%'', newAppendBytes ''%''), (CHR ''a'', appendLa G), (CHR ''A'', appendA G), (CHR ''B'', appendB G),
     (CHR ''b'', appendLb G), (CHR ''D'', appendD G), (CHR ''f'', appendLf G), (CHR ''h'', appendLh G),
     (CHR ''H'', appendH G), (CHR ''k'', appendLk G), (CHR ''l'', appendNil), (CHR ''L'', appendL G),
     (CHR ''m'', appendLm G), (CHR ''P'', appendP G), (CHR ''q'', appendLq G), (CHR ''r'', appendLr G),
     (CHR ''R'', appendNil), (CHR ''s'', appendLs G), (CHR ''t'', appendLt G), (CHR ''T'', appendT G),
     (CHR ''u'', appendLu G), (CHR ''U'', appendU G), (CHR ''X'', appendX G), (CHR ''I'', appendI G),
     (CHR ''O'', appendO G), (CHR ''S'', appendS G)]"

section \<open>Compiling a format\<close>

text \<open>A step of a line: an append function, or a formatted time, which can panic.\<close>

type_synonym 'c line_fn = "log_env \<Rightarrow> bytes \<Rightarrow> 'c \<Rightarrow> bytes go"

definition pure_fn :: "'c appendFunc \<Rightarrow> 'c line_fn" where
  "pure_fn f env dst ctx = Inr (f env dst ctx)"

text \<open>The switch of \<open>parseNCSAFormat\<close> on one match; \<open>hostname\<close> is what \<open>os.Hostname()\<close> answers.\<close>

definition token_fn :: "'c log_api \<Rightarrow> string + string \<Rightarrow> string \<Rightarrow> ncsa_token \<Rightarrow> string + 'c line_fn" where
  "token_fn G hostname host tok =
     (case tok of
        Literal b \<Rightarrow> Inr (pure_fn (newAppendBytes b))
      | Directive arg k \<Rightarrow>
          if k = CHR ''C'' then Inr (pure_fn (newAppendCookie G arg))
          else if k = CHR ''e'' then Inr (pure_fn (newAppendEnv arg))
          else if k = CHR ''i'' then Inr (pure_fn (newAppendRequestHeader G arg))
          else if k = CHR ''o'' then Inr (pure_fn (newAppendResponseHeader G arg))
          else if k = CHR ''p'' then
            (if arg = ''remote'' then Inr (pure_fn (appendLpRemote G)) else Inr (pure_fn (appendLp G)))
          else if k = CHR ''t'' then
            (if arg = [] then Inr (pure_fn (appendLt G)) else Inr (newAppendStrftime G arg))
          else if k = CHR ''v'' then
            (if host \<noteq> [] then Inr (pure_fn (newAppendBytes host)) else Inr (pure_fn appendNil))
          else if k = CHR ''V'' then
            (case hostname of Inl err \<Rightarrow> Inl err | Inr canonicalHost \<Rightarrow> Inr (pure_fn (newAppendBytes canonicalHost)))
          else (case map_of (appendFuncs G) k of
                  Some fn \<Rightarrow> Inr (pure_fn fn)
                | None \<Rightarrow> Inr (pure_fn (newAppendBytes (''%'' @ [k])))))"

definition collects :: "ncsa_token \<Rightarrow> bool" where
  "collects tok = (case tok of Directive arg k \<Rightarrow> k = CHR ''r'' | Literal b \<Rightarrow> False)"

text \<open>The functions of the line, and whether the request URI has to be collected.\<close>

fun parse_tokens :: "'c log_api \<Rightarrow> string + string \<Rightarrow> string \<Rightarrow> ncsa_token list \<Rightarrow> string + ('c line_fn list \<times> bool)" where
  "parse_tokens G hostname host [] = Inr ([], False)"
| "parse_tokens G hostname host (tok # toks) =
     (case token_fn G hostname host tok of
        Inl err \<Rightarrow> Inl err
      | Inr fn \<Rightarrow> (case parse_tokens G hostname host toks of
                     Inl err \<Rightarrow> Inl err
                   | Inr (fns, c) \<Rightarrow> Inr (fn # fns, collects tok \<or> c)))"

definition parseNCSAFormat :: "'c log_api \<Rightarrow> string + string \<Rightarrow> string \<Rightarrow> string \<Rightarrow> string + ('c line_fn list \<times> bool)" where
  "parseNCSAFormat G hostname host format = parse_tokens G hostname host (find_all format)"

text \<open>The closure \<open>newNCSAAccessLog\<close> sets as \<open>appendLine\<close>.\<close>

fun append_line :: "'c line_fn list \<Rightarrow> 'c line_fn" where
  "append_line [] env dst ctx = Inr dst"
| "append_line (fn # fns) env dst ctx = go_bind (fn env dst ctx) (\<lambda>dst. append_line fns env dst ctx)"

definition ncsa_format :: "AccessLogConfig \<Rightarrow> string" where
  "ncsa_format cfg = (if acc_Format cfg = [] then FormatCommon else acc_Format cfg)"

definition ncsa_line :: "'c log_api \<Rightarrow> string + string \<Rightarrow> 't Config \<Rightarrow> string + ('c line_fn \<times> bool)" where
  "ncsa_line G hostname cfg =
     (case parseNCSAFormat G hostname (cfg_Host cfg) (ncsa_format (cfg_AccessLog cfg)) of
        Inl err \<Rightarrow> Inl err
      | Inr (fns, c) \<Rightarrow> Inr (append_line fns, c))"

section \<open>Formats read back\<close>

definition token_text :: "ncsa_token \<Rightarrow> bytes" where
  "token_text tok =
     (case tok of
        Literal b \<Rightarrow> b
      | Directive arg c \<Rightarrow> if arg = [] then ''%'' @ [c] else ''%{'' @ arg @ ''}'' @ [c])"

definition token_ok :: "ncsa_token \<Rightarrow> bool" where
  "token_ok tok =
     (case tok of
        Literal b \<Rightarrow> b \<noteq> [] \<and> CHR ''%'' \<notin> set b
      | Directive arg c \<Rightarrow> letter c \<and> CHR ''}'' \<notin> set arg \<and> CHR 0x0A \<notin> set arg)"

text \<open>Two literals in a row would be read as one.\<close>

fun tokens_ok :: "ncsa_token list \<Rightarrow> bool" where
  "tokens_ok [] = True"
| "tokens_ok [tok] = token_ok tok"
| "tokens_ok (tok # tok' # toks) =
     (token_ok tok \<and> \<not> (is_Literal tok \<and> is_Literal tok') \<and> tokens_ok (tok' # toks))"

lemma match_braces_found:
  assumes "acc \<noteq> [] \<or> arg \<noteq> []" "CHR ''}'' \<notin> set arg" "CHR 0x0A \<notin> set arg" "letter c"
  shows "match_braces acc (arg @ CHR ''}'' # c # r) = Some (rev acc @ arg, c, r)"
  using assms
proof (induction arg arbitrary: acc)
  case Nil
  then show ?case
    by (simp add: match_braces.simps)
next
  case (Cons x arg)
  then show ?case
    using Cons.IH [of "x # acc"] by (cases arg) (auto simp: match_braces.simps [of acc])
qed

lemma match_directive_text:
  assumes "token_ok (Directive arg c)"
  shows "match_directive (tl (token_text (Directive arg c)) @ r) = Some (arg, c, r)"
proof -
  have nl: "\<not> letter (CHR ''{'')" "CHR ''{'' \<noteq> CHR ''>''"
    by (simp_all add: letter_def)
  show ?thesis
    using assms match_braces_found [of "[]" arg c r] nl
    by (auto simp: token_text_def token_ok_def match_directive_def)
qed

lemma find_all_directive:
  assumes "token_ok (Directive arg c)"
  shows "find_all (token_text (Directive arg c) @ r) = Directive arg c # find_all r"
proof -
  have t: "token_text (Directive arg c) @ r = CHR ''%'' # tl (token_text (Directive arg c)) @ r"
    by (simp add: token_text_def)
  show ?thesis
    unfolding t find_all.simps(2) match_directive_text [OF assms] by simp
qed

lemma find_all_literal:
  assumes "b \<noteq> []" "CHR ''%'' \<notin> set b" "r = [] \<or> hd r = CHR ''%''"
  shows "find_all (b @ r) = Literal b # find_all r"
proof -
  obtain x b' where b: "b = x # b'"
    using assms(1) by (cases b) auto
  have "takeWhile (\<lambda>c. c \<noteq> CHR ''%'') (b' @ r) = b'" "dropWhile (\<lambda>c. c \<noteq> CHR ''%'') (b' @ r) = r"
    using assms(2,3) b by (cases r; auto simp: takeWhile_append dropWhile_append)+
  moreover have "x \<noteq> CHR ''%''"
    using assms(2) b by auto
  ultimately show ?thesis
    by (simp add: b find_all.simps(2))
qed

lemma find_all_tokens: "tokens_ok toks \<Longrightarrow> find_all (concat (map token_text toks)) = toks"
proof (induction toks rule: tokens_ok.induct)
  case (2 tok)
  then show ?case
    using find_all_directive [of _ _ "[]"] find_all_literal [of _ "[]"]
    by (cases tok) (auto simp: token_ok_def token_text_def [of "Literal _"] find_all.simps(1))
next
  case (3 tok tok' toks)
  let ?r = "concat (map token_text (tok' # toks))"
  have IH: "find_all ?r = tok' # toks"
    using 3 by simp
  show ?case
  proof (cases tok)
    case (Literal b)
    then have "\<not> is_Literal tok'"
      using "3.prems" by simp
    then have "hd ?r = CHR ''%''"
      by (cases tok') (simp_all add: token_text_def)
    then show ?thesis
      using find_all_literal [of b ?r] IH "3.prems" Literal
      by (simp add: token_ok_def token_text_def [of "Literal b"])
  next
    case (Directive arg c)
    then show ?thesis
      using find_all_directive [of arg c ?r] IH "3.prems" by simp
  qed
qed (simp add: find_all.simps)

section \<open>The common and the combined format\<close>

lemma CopyRightUint_padded:
  assumes "0 \<le> n" "n < 10 ^ Suc p"
  shows "fst (CopyRightUint (replicate p (CHR ''0'') @ [z]) n) = zero_padded (Suc p) n"
proof -
  have le: "length (digits n) \<le> Suc p"
    using length_digits_le [of n "Suc p"] assms by simp
  have "0 < length (digits n)"
    by simp
  then have "Suc p - length (digits n) \<le> p"
    by linarith
  then show ?thesis
    using write_digits_spec [of n "Suc p" "replicate p (CHR ''0'') @ [z]"] assms(1) le
    by (simp add: CopyRightUint_write zero_padded_def min_absorb2)
qed

lemma field_text:
  "0 \<le> n \<Longrightarrow> n < 100 \<Longrightarrow> field2 n = zero_padded 2 n"
  "0 \<le> n \<Longrightarrow> n < 10000 \<Longrightarrow> field4 n = zero_padded 4 n"
  using CopyRightUint_padded [of n 1 "CHR 0x00"] CopyRightUint_padded [of n 3 "CHR 0x00"]
  by (simp_all add: field2_def field4_def numeral_eq_Suc)

definition ncsa_date :: "gotime \<Rightarrow> bytes" where
  "ncsa_date t = ''['' @ zero_padded 2 (Day t) @ ''/'' @ take 3 (month_name t) @ ''/'' @ zero_padded 4 (t_year t) @ '':'' @
     clock t @ '' '' @ (if t_offset t < 0 then ''-'' else ''+'') @ zero_padded 2 (\<bar>t_offset t\<bar> div 3600) @ ''00]''"

lemma ncsaMonths_name:
  assumes "1 \<le> Month t" "Month t \<le> 12"
  shows "take 3 (drop (nat ((Month t - 1) * 3)) ncsaMonths) = take 3 (month_name t)"
proof -
  define k where "k = nat (Month t - 1)"
  have "list_all (\<lambda>k. take 3 (drop (k * 3) ncsaMonths) = take 3 (month_names ! k)) [0..<12]"
    by code_simp
  moreover have "k < 12" "nat ((Month t - 1) * 3) = k * 3"
    using assms by (simp_all add: k_def nat_mult_distrib)
  ultimately show ?thesis
    by (simp add: list_all_iff month_name_def k_def)
qed

lemma appendNCSADate_text:
  assumes "time_ok t"
  shows "appendNCSADate dst t = dst @ ncsa_date t"
proof -
  have z: "\<bar>t_offset t\<bar> div 3600 < 100"
    using assms by (auto simp: time_ok_def)
  note f = time_fields [OF assms]
  show ?thesis
    using f z ncsaMonths_name [OF f(11) f(12)]
    by (simp add: appendNCSADate_def ncsa_date_def clock_def field_text Let_def)
qed

definition ncsa_escaped :: "bytes \<Rightarrow> bytes" where
  "ncsa_escaped uri = concat (map (\<lambda>c. if c = CHR 0x22 \<or> c = CHR 0x5C then [CHR 0x5C, c] else [c]) uri)"

lemma ncsa_uri_loop_text: "ncsa_uri_loop dst uri = dst @ ncsa_escaped uri"
  by (induction dst uri rule: ncsa_uri_loop.induct) (simp_all add: ncsa_escaped_def)

text \<open>What stands between the quotes: the logged request, read up to the first quote without a backslash.\<close>

fun read_quoted :: "bytes \<Rightarrow> (bytes \<times> bytes) option" where
  "read_quoted [] = None"
| "read_quoted (c # s) =
     (if c = CHR 0x22 then Some ([], s)
      else if c = CHR 0x5C then (case s of d # s' \<Rightarrow> map_option (\<lambda>(x, r). (d # x, r)) (read_quoted s') | [] \<Rightarrow> None)
      else map_option (\<lambda>(x, r). (c # x, r)) (read_quoted s))"

definition plain_text :: "bytes \<Rightarrow> bool" where
  "plain_text s \<longleftrightarrow> CHR 0x22 \<notin> set s \<and> CHR 0x5C \<notin> set s"

lemma read_quoted_plain: "plain_text s \<Longrightarrow> read_quoted (s @ r) = map_option (\<lambda>(x, r). (s @ x, r)) (read_quoted r)"
proof (induction s)
  case Nil
  then show ?case
    by (cases "read_quoted r") auto
next
  case (Cons c s)
  then have "c \<noteq> CHR 0x22" "c \<noteq> CHR 0x5C" "plain_text s"
    by (auto simp: plain_text_def)
  then show ?case
    using Cons.IH by (cases "read_quoted r") auto
qed

lemma read_quoted_escaped: "read_quoted (ncsa_escaped uri @ r) = map_option (\<lambda>(x, r). (uri @ x, r)) (read_quoted r)"
proof (induction uri)
  case Nil
  then show ?case
    by (cases "read_quoted r") (auto simp: ncsa_escaped_def)
next
  case (Cons c uri)
  then show ?case
    by (cases "read_quoted r") (auto simp: ncsa_escaped_def)
qed

definition request_text :: "'c log_api \<Rightarrow> 'c \<Rightarrow> bytes" where
  "request_text G ctx =
     (let uri = req_Peek G HeaderKeyOriginalRequestURI ctx
      in if uri = [] then ''-''
         else ctx_Method G ctx @ '' '' @ ncsa_escaped uri @ '' '' @ req_Protocol G ctx)"

definition or_dash :: "bytes \<Rightarrow> bytes" where
  "or_dash s = (if s = [] then ''-'' else s)"

definition common_line :: "'c log_api \<Rightarrow> net_ip \<Rightarrow> 'c \<Rightarrow> bytes" where
  "common_line G ip4 ctx =
     dotted ip4 @ '' - '' @ or_dash (uri_Username G ctx) @ '' '' @ ncsa_date (req_Time G ctx) @ '' '' @
     [CHR 0x22] @ request_text G ctx @ [CHR 0x22] @ '' '' @ digits (resp_StatusCode G ctx) @ '' '' @
     (if resp_ContentLength G ctx > 0 then digits (resp_ContentLength G ctx) else ''-'')"

definition combined_line :: "'c log_api \<Rightarrow> net_ip \<Rightarrow> 'c \<Rightarrow> bytes" where
  "combined_line G ip4 ctx = common_line G ip4 ctx @ '' '' @
     [CHR 0x22] @ or_dash (req_Peek G ''Referer'' ctx) @ [CHR 0x22] @ '' '' @
     [CHR 0x22] @ or_dash (req_Peek G ''User-agent'' ctx) @ [CHR 0x22]"

lemma find_all_common: "find_all FormatCommon =
  [Directive [] (CHR ''h''), Literal '' '', Directive [] (CHR ''l''), Literal '' '', Directive [] (CHR ''u''),
   Literal '' '', Directive [] (CHR ''t''), Literal ('' '' @ [CHR 0x22]), Directive [] (CHR ''r''),
   Literal ([CHR 0x22] @ '' ''), Directive [] (CHR ''s''), Literal '' '', Directive [] (CHR ''b'')]"
  by code_simp

lemma find_all_combined: "find_all FormatCombined = find_all FormatCommon @
  [Literal ('' '' @ [CHR 0x22]), Directive ''Referer'' (CHR ''i''), Literal ([CHR 0x22] @ '' '' @ [CHR 0x22]),
   Directive ''User-agent'' (CHR ''i''), Literal [CHR 0x22]]"
  by code_simp

lemma append_line_append:
  "append_line (fs @ gs) env dst ctx = go_bind (append_line fs env dst ctx) (\<lambda>dst. append_line gs env dst ctx)"
  by (induction fs arbitrary: dst) (simp_all add: go_bind_def split: sum.split)

definition common_fns :: "'c log_api \<Rightarrow> 'c line_fn list" where
  "common_fns G =
    [pure_fn (appendLh G), pure_fn (newAppendBytes '' ''), pure_fn appendNil, pure_fn (newAppendBytes '' ''),
     pure_fn (appendLu G), pure_fn (newAppendBytes '' ''), pure_fn (appendLt G),
     pure_fn (newAppendBytes ('' '' @ [CHR 0x22])), pure_fn (appendLr G),
     pure_fn (newAppendBytes ([CHR 0x22] @ '' '')), pure_fn (appendLs G), pure_fn (newAppendBytes '' ''),
     pure_fn (appendLb G)]"

definition combined_fns :: "'c log_api \<Rightarrow> 'c line_fn list" where
  "combined_fns G = common_fns G @
    [pure_fn (newAppendBytes ('' '' @ [CHR 0x22])), pure_fn (newAppendRequestHeader G ''Referer''),
     pure_fn (newAppendBytes ([CHR 0x22] @ '' '' @ [CHR 0x22])),
     pure_fn (newAppendRequestHeader G ''User-agent''), pure_fn (newAppendBytes [CHR 0x22])]"

lemma parse_common: "parseNCSAFormat G hostname host FormatCommon = Inr (common_fns G, True)"
  by (simp add: parseNCSAFormat_def find_all_common token_fn_def collects_def appendFuncs_def common_fns_def)

lemma parse_combined: "parseNCSAFormat G hostname host FormatCombined = Inr (combined_fns G, True)"
  by (simp add: parseNCSAFormat_def find_all_common find_all_combined token_fn_def collects_def appendFuncs_def
      common_fns_def combined_fns_def)

lemma common_fns_line:
  assumes "log_api_ok G" "request_ok G env ctx" "To4 (ctx_RemoteIP G ctx) = Some ip4"
  shows "append_line (common_fns G) env dst ctx = Inr (dst @ common_line G ip4 ctx)"
proof -
  have au: "fh_AppendUint G d n = d @ digits n" if "0 \<le> n" for d n
    using assms(1) that by (simp add: log_api_ok_def)
  have ip: "fh_AppendIPv4 G d (ctx_RemoteIP G ctx) = d @ dotted ip4" for d
    using assms(1,3) by (simp add: log_api_ok_def)
  have t: "time_ok (req_Time G ctx)" "0 \<le> resp_StatusCode G ctx"
    using assms(2) by (simp_all add: request_ok_def)
  show ?thesis
    by (simp add: common_fns_def common_line_def pure_fn_def appendLh_def ip newAppendBytes_def appendNil_def
        appendLu_def or_dash_def appendLt_def appendNCSADate_text [OF t(1)] appendLr_def request_text_def
        appendNCSARequest_def ncsa_uri_loop_text appendLs_def au [OF t(2)] appendLb_def au Let_def)
qed

lemma combined_fns_line:
  assumes "log_api_ok G" "request_ok G env ctx" "To4 (ctx_RemoteIP G ctx) = Some ip4"
  shows "append_line (combined_fns G) env dst ctx = Inr (dst @ combined_line G ip4 ctx)"
  by (simp add: combined_fns_def append_line_append common_fns_line [OF assms] combined_line_def pure_fn_def
      newAppendBytes_def newAppendRequestHeader_def or_dash_def appendNil_def Let_def)

text \<open>The request between the quotes can be read back, because quotes and backslashes of the URI are escaped.\<close>

lemma ncsa_request_reads:
  assumes "plain_text (ctx_Method G ctx)" "plain_text (req_Protocol G ctx)"
    and "req_Peek G HeaderKeyOriginalRequestURI ctx = uri" "uri \<noteq> []"
  shows "read_quoted (request_text G ctx @ CHR 0x22 # r) =
    Some (ctx_Method G ctx @ '' '' @ uri @ '' '' @ req_Protocol G ctx, r)"
proof -
  have sp: "plain_text '' ''"
    by (simp add: plain_text_def)
  show ?thesis
    using read_quoted_plain [OF assms(1)] read_quoted_plain [OF assms(2), of "CHR 0x22 # r"] assms(3,4)
      read_quoted_plain [OF sp] read_quoted_escaped [of uri]
    by (simp add: request_text_def)
qed

text \<open>The headers of the combined format are not escaped: requests with different referers and agents are
  logged as the same line.\<close>

definition referer_request :: "bytes \<Rightarrow> bytes \<Rightarrow> refctx" where
  "referer_request referer agent =
     (ref_request ''GET'' ''/'')\<lparr>rx_reqh := [(''Referer'', referer), (''User-agent'', agent)]\<rparr>"

lemma ncsa_combined_ambiguous:
  "\<exists>c d. req_Peek ref_log ''Referer'' c \<noteq> req_Peek ref_log ''Referer'' d \<and>
    (\<forall>dst. append_line (combined_fns ref_log) ref_env dst c = append_line (combined_fns ref_log) ref_env dst d)"
proof -
  define mid where "mid = CHR 0x22 # '' '' @ [CHR 0x22]"
  define c d where "c = referer_request (''a'' @ mid @ ''b'') ''c''" and "d = referer_request ''a'' (''b'' @ mid @ ''c'')"
  have ok: "request_ok ref_log ref_env (referer_request x y)" for x y
    by (simp add: request_ok_def demo_time_ok addr_ok_def referer_request_def ref_request_def)
  have ip: "To4 (ctx_RemoteIP ref_log x) = Some [10, 1, 2, 3]" for x
    by (simp add: To4_def)
  have "combined_line ref_log [10, 1, 2, 3] c = combined_line ref_log [10, 1, 2, 3] d"
    by (simp add: combined_line_def common_line_def request_text_def or_dash_def c_def d_def mid_def
        referer_request_def ref_request_def hdr_first_def HeaderKeyOriginalRequestURI_def)
  then have "append_line (combined_fns ref_log) ref_env dst c = append_line (combined_fns ref_log) ref_env dst d" for dst
    using combined_fns_line [OF ref_log_ok ok ip] by (simp add: c_def d_def)
  moreover have "req_Peek ref_log ''Referer'' c \<noteq> req_Peek ref_log ''Referer'' d"
    by (simp add: c_def d_def mid_def referer_request_def hdr_first_def)
  ultimately show ?thesis
    by blast
qed

section \<open>Properties\<close>

text \<open>A format assembled from literals and directives (with or without arguments) is read back as exactly
  these, for every argument without a closing brace or line feed.\<close>

lemma ncsa_format_read:
  assumes "tokens_ok toks"
  shows "find_all (concat (map token_text toks)) = toks"
  using assms by (rule find_all_tokens)

lemma ncsa_format_read_witness:
  "find_all ''%{X-Id}i at %t'' = [Directive ''X-Id'' (CHR ''i''), Literal '' at '', Directive [] (CHR ''t'')]"
  using ncsa_format_read [of "[Directive ''X-Id'' (CHR ''i''), Literal '' at '', Directive [] (CHR ''t'')]"]
  by (simp add: token_ok_def token_text_def letter_def)

text \<open>Without a configured format the log is the NCSA common format: the client's IPv4 address, the user
  or a dash, the date, the original request (collected, with quotes and backslashes of the URI escaped), the
  status and the size or a dash.\<close>

lemma ncsa_common_log:
  assumes "log_api_ok G" "request_ok G env ctx" "To4 (ctx_RemoteIP G ctx) = Some ip4"
    and "acc_Format (cfg_AccessLog cfg) = []"
  shows "\<exists>fn. ncsa_line G hostname cfg = Inr (fn, True) \<and> fn env dst ctx = Inr (dst @ common_line G ip4 ctx)"
  using common_fns_line [OF assms(1-3)] assms(4) by (simp add: ncsa_line_def ncsa_format_def parse_common)

lemma ncsa_common_log_witness:
  "\<exists>fn. ncsa_line ref_log (Inl ''no name'') (zero_config :: unit Config) = Inr (fn, True) \<and>
     fn ref_env [] (ref_request ''GET'' ''/'') = Inr (common_line ref_log [10, 1, 2, 3] (ref_request ''GET'' ''/''))"
  using ncsa_common_log [OF ref_log_ok, of ref_env "ref_request ''GET'' ''/''" "[10, 1, 2, 3]"
      "zero_config :: unit Config" "Inl ''no name''" "[]"]
  by (simp add: request_ok_def demo_time_ok addr_ok_def ref_request_def To4_def zero_config_def)

end
