(* ===== verification/Bufio.thy ===== *)
theory Bufio
  imports GoPrelude
begin

text \<open>
  The buffered writer of Go's package \<open>bufio\<close>, as far as the access log uses it: \<open>Write\<close>, \<open>Flush\<close>, the
  sticky error. The destination is a value of a type \<open>'w\<close> with a write function that keeps the contract of
  \<open>io.Writer\<close>: it writes everything, or fewer bytes and returns an error.
\<close>

section \<open>Model\<close>

type_synonym 'w sink = "bytes \<Rightarrow> 'w \<Rightarrow> (nat \<times> string) option \<times> 'w"

record bufio =
  bw_size :: nat
  bw_buf :: bytes
  bw_err :: "string option"

definition NewWriterSize :: "nat \<Rightarrow> bufio" where
  "NewWriterSize n = \<lparr>bw_size = n, bw_buf = [], bw_err = None\<rparr>"

definition Flush :: "'w sink \<Rightarrow> bufio \<Rightarrow> 'w \<Rightarrow> bufio \<times> 'w" where
  "Flush wr b w =
     (if bw_err b \<noteq> None \<or> bw_buf b = [] then (b, w)
      else case wr (bw_buf b) w of
             (None, w) \<Rightarrow> (b\<lparr>bw_buf := []\<rparr>, w)
           | (Some (n, err), w) \<Rightarrow> (b\<lparr>bw_buf := drop n (bw_buf b), bw_err := Some err\<rparr>, w))"

definition Available :: "bufio \<Rightarrow> nat" where
  "Available b = bw_size b - length (bw_buf b)"

text \<open>The loop writes a slice that does not fit: directly if nothing is buffered, else through the buffer.\<close>

function buf_Write :: "'w sink \<Rightarrow> bytes \<Rightarrow> bufio \<Rightarrow> 'w \<Rightarrow> bufio \<times> 'w" where
  "buf_Write wr p b w =
     (if length p > Available b \<and> bw_err b = None then
        if bw_buf b = [] then
          (case wr p w of
             (None, w) \<Rightarrow> (b, w)
           | (Some (n, err), w) \<Rightarrow> (b\<lparr>bw_err := Some err\<rparr>, w))
        else
          let n = Available b;
              (b', w') = Flush wr (b\<lparr>bw_buf := bw_buf b @ take n p\<rparr>) w
          in if bw_err b' = None then buf_Write wr (drop n p) b' w' else (b', w')
      else if bw_err b \<noteq> None then (b, w)
      else (b\<lparr>bw_buf := bw_buf b @ p\<rparr>, w))"
  by pat_completeness auto
termination
proof (relation "measure (\<lambda>(wr, p, b, w). if bw_buf b = [] then 0 else 1)")
  fix wr :: "'w sink" and p b w n x b' w'
  assume "bw_buf b \<noteq> []" and x: "x = Flush wr (b\<lparr>bw_buf := bw_buf b @ take n p\<rparr>) w" "(b', w') = x"
    and e: "length p > Available b \<and> bw_err b = None" "bw_err b' = None"
  then have "bw_buf b' = []"
    by (auto simp: Flush_def split: if_splits prod.splits option.splits)
  then show "((wr, drop n p, b', w'), wr, p, b, w) \<in> measure (\<lambda>(wr, p, b, w). if bw_buf b = [] then 0 else 1)"
    using \<open>bw_buf b \<noteq> []\<close> by simp
qed simp

declare buf_Write.simps [simp del]

section \<open>Nothing is lost or reordered\<close>

text \<open>A destination that takes every write; \<open>content\<close> is what it has received.\<close>

definition sink_ok :: "'w sink \<Rightarrow> ('w \<Rightarrow> bytes) \<Rightarrow> bool" where
  "sink_ok wr content \<longleftrightarrow> (\<forall>p w. fst (wr p w) = None \<and> content (snd (wr p w)) = content w @ p)"

lemma sink_okD: "sink_ok wr content \<Longrightarrow> wr p w = (r, w') \<Longrightarrow> r = None \<and> content w' = content w @ p"
  unfolding sink_ok_def by (metis fst_conv snd_conv)

lemma Flush_content:
  assumes "sink_ok wr content" "bw_err b = None" "Flush wr b w = (b', w')"
  shows "content w' = content w @ bw_buf b" "b' = b\<lparr>bw_buf := []\<rparr>"
  using assms(2,3) sink_okD [OF assms(1)]
  by (auto simp: Flush_def split: if_splits prod.splits option.splits)

lemma buf_Write_content:
  assumes "sink_ok wr content"
  shows "bw_err b = None \<Longrightarrow> length (bw_buf b) \<le> bw_size b \<Longrightarrow> buf_Write wr p b w = (b', w') \<Longrightarrow>
    content w' @ bw_buf b' = content w @ bw_buf b @ p \<and> bw_err b' = None \<and> bw_size b' = bw_size b \<and>
    length (bw_buf b') \<le> bw_size b"
  using assms
proof (induction wr p b w arbitrary: b' w' rule: buf_Write.induct)
  case (1 wr p b w)
  note sink = "1.prems"(4) and err = "1.prems"(1) and run = "1.prems"(3)
  consider (fits) "length p \<le> Available b" | (direct) "length p > Available b" "bw_buf b = []"
    | (fill) "length p > Available b" "bw_buf b \<noteq> []"
    by linarith
  then show ?case
  proof cases
    case fits
    then have "b' = b\<lparr>bw_buf := bw_buf b @ p\<rparr>" "w' = w"
      using run err by (simp_all add: buf_Write.simps [of wr p b w])
    with fits show ?thesis
      using "1.prems"(1,2) by (simp add: Available_def)
  next
    case direct
    obtain r v where "wr p w = (r, v)"
      by (cases "wr p w")
    with direct sink_okD [OF sink this] have "b' = b" "w' = v" "content v = content w @ p"
      using run err by (simp_all add: buf_Write.simps [of wr p b w])
    with direct show ?thesis
      using "1.prems"(1,2) by simp
  next
    case fill
    let ?n = "Available b"
    obtain b1 w1 where f: "Flush wr (b\<lparr>bw_buf := bw_buf b @ take ?n p\<rparr>) w = (b1, w1)"
      by (cases "Flush wr (b\<lparr>bw_buf := bw_buf b @ take ?n p\<rparr>) w")
    have c1: "content w1 = content w @ bw_buf b @ take ?n p" and b1: "b1 = b\<lparr>bw_buf := []\<rparr>"
      using Flush_content [OF sink _ f] err by simp_all
    have rest: "buf_Write wr (drop ?n p) b1 w1 = (b', w')"
      using run fill err f b1 by (simp add: buf_Write.simps [of wr p b w])
    have "content w' @ bw_buf b' = content w1 @ bw_buf b1 @ drop ?n p \<and> bw_err b' = None \<and> bw_size b' = bw_size b1 \<and>
      length (bw_buf b') \<le> bw_size b1"
    proof (rule "1.IH")
      show "Available b < length p \<and> bw_err b = None"
        using fill err by simp
      show "(b1, w1) = Flush wr (b\<lparr>bw_buf := bw_buf b @ take ?n p\<rparr>) w"
        by (rule f [symmetric])
    qed (use fill rest b1 err sink in simp_all)
    then show ?thesis
      by (simp add: c1 b1)
  qed
qed

end
