(* ===== verification/AccessLog.thy ===== *)
theory AccessLog
  imports Bufio JsonLog LtsvLog NcsaLog Loggers
begin

text \<open>
  The access log of \<open>pkg/logger/accesslog/accesslog.go\<close>: construction per format, the calls of the server
  (\<open>Collect\<close>, \<open>Log\<close>), the flush loop's tick, \<open>Rotate\<close>, \<open>Write\<close> and \<open>Close\<close>. The rotator is its index in
  the registry of \<open>Loggers\<close>; what it has received is in a state \<open>'w\<close> that the sink \<open>wr\<close> writes to. The pool
  of line buffers does not show: every line starts from an empty one.

  The operations are first functions (one goroutine); \<open>access_step\<close> then splits \<open>Log\<close> and \<open>Close\<close> at their
  unsynchronised accesses and lets any number of them interleave.
\<close>

section \<open>Model\<close>

record 'c accessLog =
  l_out :: "nat option"
  l_appendLine :: "'c line_fn option"
  l_collectRequestURI :: bool
  l_bw :: bufio
  l_done :: bool
  l_closed :: bool

definition newSkeleton :: "nat \<Rightarrow> 't Config \<Rightarrow> 'c accessLog" where
  "newSkeleton out cfg =
     (let bufSize = acc_BufferSize (cfg_AccessLog cfg);
          bufSize = (if bufSize \<le> 0 then 4096 else bufSize)
      in \<lparr>l_out = Some out, l_appendLine = None, l_collectRequestURI = False,
          l_bw = NewWriterSize (nat bufSize), l_done = False, l_closed = False\<rparr>)"

text \<open>The interval of \<open>startFlushLoop\<close>, in nanoseconds; the multiplication wraps.\<close>

definition flushInterval :: "'t Config \<Rightarrow> int" where
  "flushInterval cfg =
     (let i = i64 (acc_FlushInterval (cfg_AccessLog cfg) * 1000000) in if i \<le> 0 then 1000000000 else i)"

definition newJSONAccessLog :: "'c log_api \<Rightarrow> nat \<Rightarrow> 't Config \<Rightarrow> 'c accessLog" where
  "newJSONAccessLog G out cfg = (newSkeleton out cfg)\<lparr>l_appendLine := Some (pure_fn (appendJSONLog G))\<rparr>"

definition newLTSVAccessLog :: "'c log_api \<Rightarrow> nat \<Rightarrow> 't Config \<Rightarrow> 'c accessLog" where
  "newLTSVAccessLog G out cfg = (newSkeleton out cfg)\<lparr>l_appendLine := Some (pure_fn (appendLTSVLog G))\<rparr>"

definition newNCSAAccessLog :: "'c log_api \<Rightarrow> string + string \<Rightarrow> nat \<Rightarrow> 't Config \<Rightarrow> string + 'c accessLog" where
  "newNCSAAccessLog G hostname out cfg =
     (case ncsa_line G hostname cfg of
        Inl err \<Rightarrow> Inl err
      | Inr (line, c) \<Rightarrow> Inr ((newSkeleton out cfg)\<lparr>l_appendLine := Some line, l_collectRequestURI := c\<rparr>))"

definition newAccessLog :: "'c log_api \<Rightarrow> string + string \<Rightarrow> nat \<Rightarrow> 't Config \<Rightarrow> string + 'c accessLog" where
  "newAccessLog G hostname out cfg =
     (if acc_Format (cfg_AccessLog cfg) = FormatJSON then Inr (newJSONAccessLog G out cfg)
      else if acc_Format (cfg_AccessLog cfg) = FormatLTSV then Inr (newLTSVAccessLog G out cfg)
      else newNCSAAccessLog G hostname out cfg)"

text \<open>\<open>None\<close> is \<open>NilAccessLog\<close>.\<close>

definition NewAccessLog :: "'c log_api \<Rightarrow> string + string \<Rightarrow> (nat \<Rightarrow> string option) \<Rightarrow> 't Config \<Rightarrow> registry \<Rightarrow>
    (string + 'c accessLog option) \<times> registry" where
  "NewAccessLog G hostname closeErr cfg st =
     (if acc_Output (cfg_AccessLog cfg) = [] then (Inr None, st)
      else
        let (out, st1) = SharedRotator (acc_Output (cfg_AccessLog cfg)) (acc_Rotation (cfg_AccessLog cfg)) st
        in case newAccessLog G hostname out cfg of
             Inl err \<Rightarrow> (Inl err, snd (Close closeErr out st1))
           | Inr l \<Rightarrow> (Inr (Some l), st1))"

definition accessLog_Rotate :: "'w sink \<Rightarrow> (nat \<Rightarrow> string option) \<Rightarrow> 'c accessLog \<Rightarrow> 'w \<Rightarrow>
    string option \<times> 'c accessLog \<times> 'w" where
  "accessLog_Rotate wr rotErr l w =
     (let (bw, w) = Flush wr (l_bw l) w; l = l\<lparr>l_bw := bw\<rparr>
      in if bw_err bw \<noteq> None then (bw_err bw, l, w)
         else (case l_out l of None \<Rightarrow> None | Some i \<Rightarrow> rotErr i, l, w))"

text \<open>\<open>NilRotator\<close> discards what is written to it.\<close>

definition accessLog_Write :: "'w sink \<Rightarrow> bytes \<Rightarrow> 'c accessLog \<Rightarrow> 'w \<Rightarrow> (nat \<times> string) option \<times> 'w" where
  "accessLog_Write wr p l w = (case l_out l of None \<Rightarrow> (None, w) | Some i \<Rightarrow> wr p w)"

definition accessLog_Close :: "'w sink \<Rightarrow> (nat \<Rightarrow> string option) \<Rightarrow> 'c accessLog \<Rightarrow> registry \<Rightarrow> 'w \<Rightarrow>
    string option \<times> 'c accessLog \<times> registry \<times> 'w" where
  "accessLog_Close wr closeErr l st w =
     (if l_closed l then (None, l, st, w)
      else
        let l = l\<lparr>l_closed := True, l_done := True\<rparr>;
            (bw, w) = Flush wr (l_bw l) w;
            l = l\<lparr>l_bw := bw\<rparr>;
            l = l\<lparr>l_appendLine := None, l_collectRequestURI := False\<rparr>
        in case l_out l of
             None \<Rightarrow> (None, l, st, w)
           | Some i \<Rightarrow> (let (err, st) = Close closeErr i st in (err, l\<lparr>l_out := None\<rparr>, st, w)))"

definition accessLog_Collect :: "'c log_api \<Rightarrow> 'c accessLog \<Rightarrow> 'c \<Rightarrow> 'c" where
  "accessLog_Collect G l ctx =
     (if l_collectRequestURI l then req_SetKV G HeaderKeyOriginalRequestURI (req_RequestURI G ctx) ctx else ctx)"

text \<open>One tick of \<open>flushLoop\<close>; after \<open>done\<close> is closed the loop has ended.\<close>

definition flush_tick :: "'w sink \<Rightarrow> 'c accessLog \<Rightarrow> 'w \<Rightarrow> 'c accessLog \<times> 'w" where
  "flush_tick wr l w =
     (if l_done l then (l, w) else let (bw, w) = Flush wr (l_bw l) w in (l\<lparr>l_bw := bw\<rparr>, w))"

text \<open>The line of a request: a nil \<open>appendLine\<close> called is the Go panic.\<close>

definition log_line :: "'c accessLog \<Rightarrow> log_env \<Rightarrow> 'c \<Rightarrow> bytes go" where
  "log_line l env ctx =
     (case l_appendLine l of
        None \<Rightarrow> Inl NilDereference
      | Some f \<Rightarrow> go_bind (f env [] ctx) (\<lambda>buf. Inr (buf @ [CHR 0x0A])))"

definition accessLog_Log :: "'w sink \<Rightarrow> 'c accessLog \<Rightarrow> log_env \<Rightarrow> 'c \<Rightarrow> 'w \<Rightarrow> ('c accessLog \<times> 'w) go" where
  "accessLog_Log wr l env ctx w =
     (if l_closed l then Inr (l, w)
      else go_bind (log_line l env ctx) (\<lambda>buf.
             let (bw, w) = buf_Write wr buf (l_bw l) w in Inr (l\<lparr>l_bw := bw\<rparr>, w)))"

section \<open>A log in use, one call after the other\<close>

datatype 'c access_event = LogRequest log_env 'c | FlushTick | RotateLog

definition access_event :: "'w sink \<Rightarrow> (nat \<Rightarrow> string option) \<Rightarrow> 'c access_event \<Rightarrow> 'c accessLog \<times> 'w \<Rightarrow>
    ('c accessLog \<times> 'w) go" where
  "access_event wr rotErr e = (\<lambda>(l, w).
     (case e of
        LogRequest env ctx \<Rightarrow> accessLog_Log wr l env ctx w
      | FlushTick \<Rightarrow> Inr (flush_tick wr l w)
      | RotateLog \<Rightarrow> Inr (snd (accessLog_Rotate wr rotErr l w))))"

fun access_run :: "'w sink \<Rightarrow> (nat \<Rightarrow> string option) \<Rightarrow> 'c access_event list \<Rightarrow> 'c accessLog \<times> 'w \<Rightarrow>
    ('c accessLog \<times> 'w) go" where
  "access_run wr rotErr [] s = Inr s"
| "access_run wr rotErr (e # es) s = go_bind (access_event wr rotErr e s) (access_run wr rotErr es)"

text \<open>What a complete log of the events consists of: the lines of the requests.\<close>

definition event_line :: "'c accessLog \<Rightarrow> 'c access_event \<Rightarrow> bytes" where
  "event_line l e =
     (case e of
        LogRequest env ctx \<Rightarrow> (case log_line l env ctx of Inr line \<Rightarrow> line | Inl e \<Rightarrow> [])
      | _ \<Rightarrow> [])"

definition event_ok :: "'c accessLog \<Rightarrow> 'c access_event \<Rightarrow> bool" where
  "event_ok l e = (case e of LogRequest env ctx \<Rightarrow> \<not> isl (log_line l env ctx) | _ \<Rightarrow> True)"

text \<open>An open log whose writer has not failed.\<close>

definition log_open :: "'c accessLog \<Rightarrow> bool" where
  "log_open l \<longleftrightarrow> \<not> l_closed l \<and> bw_err (l_bw l) = None \<and> length (bw_buf (l_bw l)) \<le> bw_size (l_bw l)"

definition same_line :: "'c accessLog \<Rightarrow> 'c accessLog \<Rightarrow> bool" where
  "same_line l l' \<longleftrightarrow> l_appendLine l' = l_appendLine l \<and> l_out l' = l_out l"

lemma access_event_content:
  assumes "sink_ok wr content" "log_open l" "event_ok l e"
  obtains l' w' where "access_event wr rotErr e (l, w) = Inr (l', w')" "log_open l'" "same_line l l'"
    "content w' @ bw_buf (l_bw l') = content w @ bw_buf (l_bw l) @ event_line l e"
proof -
  have o: "\<not> l_closed l" "bw_err (l_bw l) = None" "length (bw_buf (l_bw l)) \<le> bw_size (l_bw l)"
    using assms(2) by (simp_all add: log_open_def)
  have upd: "log_open (l\<lparr>l_bw := bw\<rparr>)" "same_line l (l\<lparr>l_bw := bw\<rparr>)"
    if "bw_err bw = None" "length (bw_buf bw) \<le> bw_size bw" for bw
    using that o(1) by (simp_all add: log_open_def same_line_def)
  obtain bw1 w1 where f: "Flush wr (l_bw l) w = (bw1, w1)"
    by (cases "Flush wr (l_bw l) w")
  have fc: "bw_err bw1 = None" "bw_buf bw1 = []" "content w1 = content w @ bw_buf (l_bw l)"
    using Flush_content [OF assms(1) o(2) f] o(2) by simp_all
  note flushed = upd [OF fc(1)] fc(2,3)
  show ?thesis
  proof (cases e)
    case (LogRequest env ctx)
    then obtain line where line: "log_line l env ctx = Inr line"
      using assms(3) by (cases "log_line l env ctx") (auto simp: event_ok_def)
    obtain bw2 w2 where b: "buf_Write wr line (l_bw l) w = (bw2, w2)"
      by (cases "buf_Write wr line (l_bw l) w")
    note c = buf_Write_content [OF assms(1) o(2,3) b]
    show ?thesis
    proof (rule that)
      show "access_event wr rotErr e (l, w) = Inr (l\<lparr>l_bw := bw2\<rparr>, w2)"
        using o(1) b line by (simp add: LogRequest access_event_def accessLog_Log_def)
      show "log_open (l\<lparr>l_bw := bw2\<rparr>)" "same_line l (l\<lparr>l_bw := bw2\<rparr>)"
        using c by (intro upd; simp)+
      show "content w2 @ bw_buf (l_bw (l\<lparr>l_bw := bw2\<rparr>)) = content w @ bw_buf (l_bw l) @ event_line l e"
        using c line by (simp add: LogRequest event_line_def)
    qed
  next
    case FlushTick
    show ?thesis
    proof (cases "l_done l")
      case True
      then show ?thesis
        using assms(2) by (intro that [of l w]) (simp_all add: FlushTick access_event_def flush_tick_def same_line_def event_line_def)
    next
      case False
      then show ?thesis
        using flushed f
        by (intro that [of "l\<lparr>l_bw := bw1\<rparr>" w1]) (simp_all add: FlushTick access_event_def flush_tick_def event_line_def)
    qed
  next
    case RotateLog
    then show ?thesis
      using flushed f fc(1)
      by (intro that [of "l\<lparr>l_bw := bw1\<rparr>" w1]) (simp_all add: access_event_def accessLog_Rotate_def event_line_def)
  qed
qed

lemma event_line_same: "same_line l l' \<Longrightarrow> event_line l' e = event_line l e" "same_line l l' \<Longrightarrow> event_ok l' e = event_ok l e"
  by (auto simp: same_line_def event_line_def event_ok_def log_line_def split: access_event.split)

lemma access_run_content:
  assumes "sink_ok wr content" "log_open l" "list_all (event_ok l) es"
  obtains l' w' where "access_run wr rotErr es (l, w) = Inr (l', w')" "log_open l'" "same_line l l'"
    "content w' @ bw_buf (l_bw l') = content w @ bw_buf (l_bw l) @ concat (map (event_line l) es)"
  using assms(2,3)
proof (induction es arbitrary: l w thesis)
  case Nil
  then show ?case
    by (simp add: same_line_def)
next
  case (Cons e es)
  obtain l1 w1 where s: "access_event wr rotErr e (l, w) = Inr (l1, w1)" "log_open l1" "same_line l l1"
    "content w1 @ bw_buf (l_bw l1) = content w @ bw_buf (l_bw l) @ event_line l e"
  proof (rule access_event_content [OF assms(1) Cons.prems(2)])
    show "event_ok l e"
      using Cons.prems(3) by simp
  qed
  have "list_all (event_ok l1) es"
    using Cons.prems(3) event_line_same(2) [OF s(3)] by (simp add: list_all_iff)
  with s(2) obtain l2 w2 where r: "access_run wr rotErr es (l1, w1) = Inr (l2, w2)" "log_open l2" "same_line l1 l2"
    "content w2 @ bw_buf (l_bw l2) = content w1 @ bw_buf (l_bw l1) @ concat (map (event_line l1) es)"
    by (rule Cons.IH [rotated])
  show ?case
  proof (rule Cons.prems(1))
    show "access_run wr rotErr (e # es) (l, w) = Inr (l2, w2)"
      using s(1) r(1) by simp
    show "same_line l l2"
      using s(3) r(3) by (simp add: same_line_def)
    show "content w2 @ bw_buf (l_bw l2) = content w @ bw_buf (l_bw l) @ concat (map (event_line l) (e # es))"
    proof -
      let ?rest = "concat (map (event_line l) es)"
      have "content w1 @ bw_buf (l_bw l1) @ ?rest = (content w @ bw_buf (l_bw l) @ event_line l e) @ ?rest"
        by (simp only: s(4) [symmetric] append_assoc)
      moreover have m: "map (event_line l1) es = map (event_line l) es"
        by (rule map_cong [OF refl]) (rule event_line_same(1) [OF s(3)])
      ultimately show ?thesis
        unfolding r(4) m by (simp only: list.map concat.simps append_assoc)
    qed
  qed (rule r(2))
qed

text \<open>A new log starts empty and open.\<close>

lemma newAccessLog_open:
  assumes "newAccessLog G hostname out cfg = Inr l"
  shows "log_open l" "bw_buf (l_bw l) = []" "l_out l = Some out" "l_appendLine l \<noteq> None" "\<not> l_done l"
    "bw_size (l_bw l) = (if acc_BufferSize (cfg_AccessLog cfg) \<le> 0 then 4096 else nat (acc_BufferSize (cfg_AccessLog cfg)))"
  using assms
  by (auto simp: newAccessLog_def newJSONAccessLog_def newLTSVAccessLog_def newNCSAAccessLog_def newSkeleton_def
      NewWriterSize_def log_open_def Let_def split: if_splits sum.splits prod.splits)

lemma accessLog_Close_content:
  assumes "sink_ok wr content" "log_open l" "l_out l = Some i"
    and "accessLog_Close wr closeErr l st w = (err, l', st', w')"
  shows "content w' = content w @ bw_buf (l_bw l)" "(err, st') = Close closeErr i st"
    "l_closed l'" "l_out l' = None" "l_appendLine l' = None"
proof -
  obtain bw1 w1 where f: "Flush wr (l_bw l) w = (bw1, w1)"
    by (cases "Flush wr (l_bw l) w")
  have o: "\<not> l_closed l" "bw_err (l_bw l) = None"
    using assms(2) by (simp_all add: log_open_def)
  have r: "(err, l', st', w') = (fst (Close closeErr i st), l\<lparr>l_closed := True, l_done := True, l_bw := bw1,
      l_appendLine := None, l_collectRequestURI := False, l_out := None\<rparr>, snd (Close closeErr i st), w1)"
    using assms(3,4) f o(1) by (simp add: accessLog_Close_def split: prod.splits)
  then show "content w' = content w @ bw_buf (l_bw l)" "(err, st') = Close closeErr i st"
    "l_closed l'" "l_out l' = None" "l_appendLine l' = None"
    using Flush_content [OF assms(1) o(2) f] by simp_all
qed

section \<open>Log, flush and Close interleaved\<close>

text \<open>
  A request in \<open>Log\<close> has passed the test of \<open>closed\<close>, or has formatted its line. \<open>Close\<close> goes through its
  flag and channel, the flush, and the assignment of nil (\<open>phase\<close> 1, 2, 3). Each of them can happen between
  any two steps of the others. The flush loop can have taken its tick before \<open>done\<close> was closed, or take one that is ready
  together with it: then it still flushes (\<open>late_tick\<close>).
\<close>

datatype 'c in_log = Passed log_env 'c | Formatted bytes

datatype ('c, 'w) access_state =
    Running "'c accessLog" 'w "'c in_log list" nat
  | Panicked go_panic

inductive access_step :: "'w sink \<Rightarrow> ('c, 'w) access_state \<Rightarrow> ('c, 'w) access_state \<Rightarrow> bool" for wr :: "'w sink" where
  enter: "\<not> l_closed l \<Longrightarrow>
    access_step wr (Running l w ps n) (Running l w (ps @ [Passed env ctx]) n)"
| format: "log_line l env ctx = Inr buf \<Longrightarrow>
    access_step wr (Running l w (ps @ Passed env ctx # qs) n) (Running l w (ps @ Formatted buf # qs) n)"
| format_panic: "log_line l env ctx = Inl e \<Longrightarrow>
    access_step wr (Running l w (ps @ Passed env ctx # qs) n) (Panicked e)"
| write_line: "buf_Write wr buf (l_bw l) w = (bw, w') \<Longrightarrow>
    access_step wr (Running l w (ps @ Formatted buf # qs) n) (Running (l\<lparr>l_bw := bw\<rparr>) w' (ps @ qs) n)"
| tick: "flush_tick wr l w = (l', w') \<Longrightarrow>
    access_step wr (Running l w ps n) (Running l' w' ps n)"
| late_tick: "l_done l \<Longrightarrow> Flush wr (l_bw l) w = (bw, w') \<Longrightarrow>
    access_step wr (Running l w ps n) (Running (l\<lparr>l_bw := bw\<rparr>) w' ps n)"
| close_flag: "\<not> l_closed l \<Longrightarrow>
    access_step wr (Running l w ps 0) (Running (l\<lparr>l_closed := True, l_done := True\<rparr>) w ps 1)"
| close_flush: "Flush wr (l_bw l) w = (bw, w') \<Longrightarrow>
    access_step wr (Running l w ps (Suc 0)) (Running (l\<lparr>l_bw := bw\<rparr>) w' ps 2)"
| close_nil: "access_step wr (Running l w ps 2)
    (Running (l\<lparr>l_appendLine := None, l_collectRequestURI := False, l_out := None\<rparr>) w ps 3)"

inductive_cases access_step_panicE: "access_step wr s (Panicked e)"
inductive_cases access_step_fromPanicE: "access_step wr (Panicked e) s"

inductive access_steps :: "'w sink \<Rightarrow> ('c, 'w) access_state \<Rightarrow> ('c, 'w) access_state \<Rightarrow> bool" for wr :: "'w sink" where
  none: "access_steps wr s s"
| more: "access_step wr s t \<Longrightarrow> access_steps wr t u \<Longrightarrow> access_steps wr s u"

text \<open>The log's lines can always be formatted as long as \<open>Close\<close> has not set \<open>appendLine\<close> to nil.\<close>

definition lines_ok :: "'c line_fn option \<Rightarrow> bool" where
  "lines_ok f \<longleftrightarrow> (\<exists>g. f = Some g \<and> (\<forall>env ctx e. g env [] ctx \<noteq> Inl e))"

definition access_inv :: "('c, 'w) access_state \<Rightarrow> bool" where
  "access_inv s \<longleftrightarrow> (case s of
     Running l w ps n \<Rightarrow> (if n < 3 then lines_ok (l_appendLine l) else l_appendLine l = None)
   | Panicked e \<Rightarrow> e = NilDereference)"

lemma access_inv_step: "access_step wr s t \<Longrightarrow> access_inv s \<Longrightarrow> access_inv t"
proof (induction rule: access_step.induct)
  case (format_panic l env ctx e w ps qs n)
  then show ?case
    by (auto simp: access_inv_def lines_ok_def log_line_def go_bind_def split: if_splits option.splits sum.splits)
next
  case (tick l w l' w' ps n)
  then show ?case
    by (auto simp: access_inv_def flush_tick_def split: if_splits prod.splits)
qed (auto simp: access_inv_def)

lemma access_inv_steps: "access_steps wr s t \<Longrightarrow> access_inv s \<Longrightarrow> access_inv t"
  by (induction rule: access_steps.induct) (auto intro: access_inv_step)

lemma access_steps_trans: "access_steps wr s t \<Longrightarrow> access_steps wr t u \<Longrightarrow> access_steps wr s u"
  by (induction rule: access_steps.induct) (auto intro: access_steps.intros)

lemma access_steps_one: "access_step wr s t \<Longrightarrow> access_steps wr s t"
  by (auto intro: access_steps.intros)

text \<open>A request passes the test, then the whole of \<open>Close\<close> runs.\<close>

lemma close_overtakes:
  assumes "sink_ok wr content" "log_open l"
  shows "\<exists>l' w'. (\<forall>ps. access_steps wr (Running l w ps 0) (Running l' w' ps 3)) \<and>
    l_closed l' \<and> l_appendLine l' = None \<and> content w' = content w @ bw_buf (l_bw l) \<and>
    l_bw l' = (l_bw l)\<lparr>bw_buf := []\<rparr>"
proof -
  obtain bw1 w1 where f: "Flush wr (l_bw l) w = (bw1, w1)"
    by (cases "Flush wr (l_bw l) w")
  have o: "\<not> l_closed l" "bw_err (l_bw l) = None"
    using assms(2) by (simp_all add: log_open_def)
  let ?l1 = "l\<lparr>l_closed := True, l_done := True\<rparr>"
  let ?l2 = "?l1\<lparr>l_bw := bw1\<rparr>"
  let ?l3 = "?l2\<lparr>l_appendLine := None, l_collectRequestURI := False, l_out := None\<rparr>"
  have f1: "Flush wr (l_bw ?l1) w = (bw1, w1)"
    using f by simp
  have "access_steps wr (Running l w ps 0) (Running ?l3 w1 ps 3)" for ps
    by (rule more, rule close_flag [OF o(1)], rule more, simp only: One_nat_def, rule close_flush [OF f1],
        rule access_steps_one, rule close_nil)
  then show ?thesis
    using Flush_content [OF assms(1) o(2) f] by (intro exI [of _ ?l3] exI [of _ w1]) simp
qed

section \<open>Properties\<close>

text \<open>C23. A new access log that sees any sequence of requests, flush ticks and rotations and is then closed has
  written exactly the lines of the requests, each whole, in order, to the output; closing it gives its
  rotator back.\<close>

theorem access_log_complete:
  assumes "sink_ok wr content" "newAccessLog G hostname out cfg = Inr l" "list_all (event_ok l) es"
  shows "\<exists>l1 w1 err l2 st2 w2. access_run wr rotErr es (l, w) = Inr (l1, w1) \<and>
    accessLog_Close wr closeErr l1 st w1 = (err, l2, st2, w2) \<and>
    content w2 = content w @ concat (map (event_line l) es) \<and>
    (err, st2) = Close closeErr out st \<and> l_closed l2"
proof -
  note new = newAccessLog_open [OF assms(2)]
  obtain l1 w1 where run: "access_run wr rotErr es (l, w) = Inr (l1, w1)" "log_open l1" "same_line l l1"
    "content w1 @ bw_buf (l_bw l1) = content w @ bw_buf (l_bw l) @ concat (map (event_line l) es)"
    by (rule access_run_content [OF assms(1) new(1) assms(3)])
  obtain err l2 st2 w2 where c: "accessLog_Close wr closeErr l1 st w1 = (err, l2, st2, w2)"
    by (cases "accessLog_Close wr closeErr l1 st w1") auto
  have "l_out l1 = Some out"
    using run(3) new(3) by (simp add: same_line_def)
  note closed = accessLog_Close_content [OF assms(1) run(2) this c]
  then show ?thesis
    using run(1,4) c new(2) by auto
qed

definition mem_sink :: "bytes sink" where
  "mem_sink p w = (None, w @ p)"

lemma mem_sink_ok: "sink_ok mem_sink (\<lambda>w. w)"
  by (simp add: sink_ok_def mem_sink_def)

definition json_config :: "unit Config" where
  "json_config = (zero_config :: unit Config)\<lparr>cfg_AccessLog := (cfg_AccessLog (zero_config :: unit Config))\<lparr>acc_Output := ''a.log'', acc_Format := FormatJSON\<rparr>\<rparr>"

definition json_log :: "refctx accessLog" where
  "json_log = newJSONAccessLog ref_log 0 json_config"

lemma json_log_new: "newAccessLog ref_log hostname 0 json_config = Inr json_log"
  by (simp add: newAccessLog_def json_log_def json_config_def)

lemma json_log_line: "log_line json_log env ctx = Inr (appendJSONLog ref_log env [] ctx @ [CHR 0x0A])"
  by (simp add: log_line_def json_log_def newJSONAccessLog_def pure_fn_def)

theorem access_log_complete_witness:
  "\<exists>l1 w1 err l2 st2 w2.
    access_run mem_sink (\<lambda>i. None) [LogRequest ref_env (ref_request ''GET'' ''/''), RotateLog] (json_log, []) = Inr (l1, w1) \<and>
    accessLog_Close mem_sink (\<lambda>i. None) l1 empty_registry w1 = (err, l2, st2, w2) \<and>
    w2 = appendJSONLog ref_log ref_env [] (ref_request ''GET'' ''/'') @ [CHR 0x0A]"
  using access_log_complete [OF mem_sink_ok json_log_new,
      of "[LogRequest ref_env (ref_request ''GET'' ''/''), RotateLog]" "\<lambda>i. None" "[]" "\<lambda>i. None" empty_registry]
  by (auto simp: event_ok_def event_line_def json_log_line simp del: access_run.simps)

text \<open>C24. \<open>Close\<close> does not wait for requests that are in \<open>Log\<close>: such a request can find \<open>appendLine\<close> nil and
  panic, and if it has its line already, the line can be left in the buffer, unwritten, after \<open>Close\<close>.\<close>

theorem access_log_close_race:
  assumes "sink_ok wr content" "log_open l" "log_line l env ctx = Inr buf" "length buf \<le> bw_size (l_bw l)"
  shows "access_steps wr (Running l w [] 0) (Panicked NilDereference) \<and>
    (\<exists>l' w'. access_steps wr (Running l w [] 0) (Running l' w' [] 3) \<and> l_closed l' \<and>
       bw_buf (l_bw l') = buf \<and> content w' = content w @ bw_buf (l_bw l))"
proof
  have o: "\<not> l_closed l" "bw_err (l_bw l) = None"
    using assms(2) by (simp_all add: log_open_def)
  obtain l1 w1 where c: "\<forall>ps. access_steps wr (Running l w ps 0) (Running l1 w1 ps 3)"
    and cl: "l_closed l1" "l_appendLine l1 = None" "content w1 = content w @ bw_buf (l_bw l)"
      "l_bw l1 = (l_bw l)\<lparr>bw_buf := []\<rparr>"
    using close_overtakes [OF assms(1,2), of w] by blast
  note overtaken = spec [OF c]
  have enter1: "access_step wr (Running l w [] 0) (Running l w [Passed env ctx] 0)"
    using enter [OF o(1), of wr w "[]" 0 env ctx] by simp
  have "log_line l1 env ctx = Inl NilDereference"
    using cl(2) by (simp add: log_line_def)
  then have "access_step wr (Running l1 w1 [Passed env ctx] 3) (Panicked NilDereference)"
    using format_panic [of l1 env ctx NilDereference wr w1 "[]" "[]" 3] by simp
  then show "access_steps wr (Running l w [] 0) (Panicked NilDereference)"
    using access_steps_trans [OF overtaken access_steps_one] more [OF enter1] by blast
  have "access_step wr (Running l w [Passed env ctx] 0) (Running l w [Formatted buf] 0)"
    using format [OF assms(3), of wr w "[]" "[]" 0] by simp
  then have "access_steps wr (Running l w [] 0) (Running l1 w1 [Formatted buf] 3)"
    using more [OF enter1 more] overtaken by blast
  moreover have "buf_Write wr buf (l_bw l1) w1 = ((l_bw l1)\<lparr>bw_buf := buf\<rparr>, w1)"
    using assms(4) o(2) by (simp add: cl(4) buf_Write.simps [of wr buf] Available_def)
  then have "access_step wr (Running l1 w1 [Formatted buf] 3) (Running (l1\<lparr>l_bw := (l_bw l1)\<lparr>bw_buf := buf\<rparr>\<rparr>) w1 [] 3)"
    using write_line [of wr buf l1 w1 _ _ "[]" "[]" 3] by simp
  ultimately have "access_steps wr (Running l w [] 0) (Running (l1\<lparr>l_bw := (l_bw l1)\<lparr>bw_buf := buf\<rparr>\<rparr>) w1 [] 3)"
    by (rule access_steps_trans [OF _ access_steps_one])
  then show "\<exists>l' w'. access_steps wr (Running l w [] 0) (Running l' w' [] 3) \<and> l_closed l' \<and>
       bw_buf (l_bw l') = buf \<and> content w' = content w @ bw_buf (l_bw l)"
    using cl(1,3) by (intro exI conjI) (assumption | simp)+
qed

theorem access_log_close_race_witness:
  "access_steps mem_sink (Running (json_log\<lparr>l_appendLine := Some (\<lambda>env dst ctx. Inr (rx_uri ctx))\<rparr>) [] [] 0)
     (Panicked NilDereference)"
proof -
  let ?l = "json_log\<lparr>l_appendLine := Some (\<lambda>env dst ctx. Inr (rx_uri ctx))\<rparr>"
  have "log_line ?l ref_env (ref_request ''GET'' ''/'') = Inr (''/'' @ [CHR 0x0A])"
    by (simp add: log_line_def ref_request_def)
  moreover have "log_open ?l" "bw_size (l_bw ?l) = 4096"
    using newAccessLog_open(1,6) [OF json_log_new] by (simp_all add: log_open_def json_config_def zero_config_def)
  ultimately show ?thesis
    using access_log_close_race [OF mem_sink_ok, of ?l ref_env "ref_request ''GET'' ''/''" "''/'' @ [CHR 0x0A]" "[]"]
    by simp
qed

text \<open>C25. Two access logs on one output, which the shared rotators are there for, tear each other's lines: a
  line that does not fit into what is left of the buffer is written in two parts, and whatever the other
  log has buffered is written between them.\<close>

theorem shared_output_torn:
  assumes "sink_ok wr content" "log_open l1" "log_open l2" "\<not> l_done l1" "\<not> l_done l2"
    and "log_line l1 env ctx = Inr line"
    and "bw_buf (l_bw l1) \<noteq> []" "k = bw_size (l_bw l1) - length (bw_buf (l_bw l1))" "0 < k" "k < length line"
    and "length line \<le> k + bw_size (l_bw l1)"
  shows "\<exists>l1' w1 l2' w2 l1'' w3.
    accessLog_Log wr l1 env ctx w = Inr (l1', w1) \<and> flush_tick wr l2 w1 = (l2', w2) \<and>
    flush_tick wr l1' w2 = (l1'', w3) \<and>
    content w3 = content w @ bw_buf (l_bw l1) @ take k line @ bw_buf (l_bw l2) @ drop k line"
proof -
  have o: "\<not> l_closed l1" "bw_err (l_bw l1) = None" "bw_err (l_bw l2) = None"
    using assms(2,3) by (simp_all add: log_open_def)
  let ?b = "(l_bw l1)\<lparr>bw_buf := bw_buf (l_bw l1) @ take k line\<rparr>"
  obtain b1 v1 where f1: "Flush wr ?b w = (b1, v1)"
    by (cases "Flush wr ?b w")
  have c1: "content v1 = content w @ bw_buf (l_bw l1) @ take k line" "b1 = (l_bw l1)\<lparr>bw_buf := []\<rparr>"
    using Flush_content [OF assms(1) _ f1] o(2) by simp_all
  have "buf_Write wr (drop k line) b1 v1 = (b1\<lparr>bw_buf := drop k line\<rparr>, v1)"
  proof -
    have "\<not> bw_size (l_bw l1) < length (drop k line)"
      using assms(10,11) by simp
    then show ?thesis
      using o(2) by (subst buf_Write.simps) (simp add: c1(2) Available_def)
  qed
  then have "buf_Write wr line (l_bw l1) w = (b1\<lparr>bw_buf := drop k line\<rparr>, v1)"
    using f1 o(2) assms(7,8,10) c1(2) by (simp add: buf_Write.simps [of wr line] Available_def)
  then have log: "accessLog_Log wr l1 env ctx w = Inr (l1\<lparr>l_bw := b1\<lparr>bw_buf := drop k line\<rparr>\<rparr>, v1)"
    using o(1) assms(6) by (simp add: accessLog_Log_def)
  obtain b2 v2 where f2: "Flush wr (l_bw l2) v1 = (b2, v2)"
    by (cases "Flush wr (l_bw l2) v1")
  obtain b3 v3 where f3: "Flush wr (b1\<lparr>bw_buf := drop k line\<rparr>) v2 = (b3, v3)"
    by (cases "Flush wr (b1\<lparr>bw_buf := drop k line\<rparr>) v2")
  have "content v2 = content v1 @ bw_buf (l_bw l2)" "content v3 = content v2 @ drop k line"
    using Flush_content(1) [OF assms(1) o(3) f2] Flush_content(1) [OF assms(1) _ f3] o(2) by (simp_all add: c1(2))
  then have "content v3 = content w @ bw_buf (l_bw l1) @ take k line @ bw_buf (l_bw l2) @ drop k line"
    by (simp add: c1(1))
  then show ?thesis
    using log f2 f3 assms(4,5) by (simp add: flush_tick_def)
qed

definition tiny_log :: "bytes \<Rightarrow> refctx accessLog" where
  "tiny_log buf = json_log\<lparr>l_appendLine := Some (\<lambda>env dst ctx. Inr (rx_uri ctx)),
     l_bw := \<lparr>bw_size = 4, bw_buf = buf, bw_err = None\<rparr>\<rparr>"

theorem shared_output_torn_witness:
  "\<exists>l1' w1 l2' w2 l1'' w3.
    accessLog_Log mem_sink (tiny_log ''ab.'') ref_env (ref_request ''GET'' ''cd'') [] = Inr (l1', w1) \<and>
    flush_tick mem_sink (tiny_log ''xy.'') w1 = (l2', w2) \<and> flush_tick mem_sink l1' w2 = (l1'', w3) \<and>
    w3 = ''ab.c'' @ ''xy.'' @ ''d'' @ [CHR 0x0A]"
proof -
  have t: "log_open (tiny_log b)" "\<not> l_done (tiny_log b)" "l_bw (tiny_log b) = \<lparr>bw_size = 4, bw_buf = b, bw_err = None\<rparr>"
    if "length b \<le> 4" for b
    using newAccessLog_open(1,5) [OF json_log_new] that by (simp_all add: tiny_log_def log_open_def)
  have "log_line (tiny_log ''ab.'') ref_env (ref_request ''GET'' ''cd'') = Inr (''cd'' @ [CHR 0x0A])"
    by (simp add: log_line_def tiny_log_def ref_request_def)
  then show ?thesis
    using shared_output_torn [OF mem_sink_ok, of "tiny_log ''ab.''" "tiny_log ''xy.''" ref_env
        "ref_request ''GET'' ''cd''" "''cd'' @ [CHR 0x0A]" 1 "[]"]
    by (simp add: t)
qed

end
