(* ===== verification/ConfigValues.thy ===== *)
theory ConfigValues
  imports ConfigTypes UtilBytes
begin

text \<open>
  The values of \<open>pkg/config/config.go\<close>: sizes with their units, durations, the copy of the server settings
  onto a \<open>fasthttp.Server\<close>, \<open>Normalize\<close> and the shutdown timeout. \<open>time.ParseDuration\<close>,
  \<open>os.UserCacheDir\<close> and the YAML decoder's \<open>Decode\<close> of a scalar are parameters.
\<close>

section \<open>Sizes\<close>

definition re_space :: "char \<Rightarrow> bool" where
  "re_space c \<longleftrightarrow> c = CHR '' '' \<or> c = CHR 0x09 \<or> c = CHR 0x0A \<or> c = CHR 0x0C \<or> c = CHR 0x0D"

definition re_digit :: "char \<Rightarrow> bool" where
  "re_digit c \<longleftrightarrow> 48 \<le> (of_char c :: nat) \<and> (of_char c :: nat) \<le> 57"

text \<open>An optional byte of a set at the front.\<close>

definition opt_byte :: "char list \<Rightarrow> bytes \<Rightarrow> bytes \<times> bytes" where
  "opt_byte cs s = (case s of c # r \<Rightarrow> if c \<in> set cs then ([c], r) else ([], s) | [] \<Rightarrow> ([], []))"

text \<open>\<open>sizeRe\<close>, the regular expression \<open>^\s*(\d+)\s*([KMG]?)[Ii]?[Bb]?\s*$\<close>: its two submatches. The character
  classes of neighbouring parts are disjoint, so every part takes all it can.\<close>

definition sizeRe :: "bytes \<Rightarrow> (bytes \<times> bytes) option" where
  "sizeRe s =
     (let s = dropWhile re_space s;
          ds = takeWhile re_digit s;
          (u, r) = opt_byte ''KMG'' (dropWhile re_space (dropWhile re_digit s));
          (_, r) = opt_byte ''Ii'' r;
          (_, r) = opt_byte ''Bb'' r
      in if ds \<noteq> [] \<and> list_all re_space r then Some (ds, u) else None)"

datatype size_error = InvalidSize string | SizeOutOfRange string

definition parseSize :: "string \<Rightarrow> size_error + int" where
  "parseSize s =
     (case sizeRe (ToUpper s) of
        None \<Rightarrow> Inl (InvalidSize s)
      | Some (ds, u) \<Rightarrow>
          let n = decimal_value ds
          in if n \<ge> 2 ^ 63 then Inl (SizeOutOfRange s)
             else if u = ''K'' then Inr (i64 (n * 2 ^ 10))
             else if u = ''M'' then Inr (i64 (n * 2 ^ 20))
             else if u = ''G'' then Inr (i64 (n * 2 ^ 30))
             else Inr n)"

text \<open>A scalar of the YAML document: its tag, its text and what decoding it as an integer gives.\<close>

record yaml_scalar =
  y_Tag :: string
  y_Value :: string
  y_DecodeInt :: "string + int"

datatype value_error = SizeError size_error | DecodeError string | DurationError string | WrongTag string

definition Size_UnmarshalYAML :: "yaml_scalar \<Rightarrow> value_error + int" where
  "Size_UnmarshalYAML v =
     (if y_Tag v = ''!!str'' then
        (case parseSize (y_Value v) of Inl err \<Rightarrow> Inl (SizeError err) | Inr n \<Rightarrow> Inr n)
      else if y_Tag v = ''!!int'' then
        (case y_DecodeInt v of Inl err \<Rightarrow> Inl (DecodeError err) | Inr n \<Rightarrow> Inr n)
      else Inl (WrongTag (y_Tag v)))"

type_synonym parse_duration = "string \<Rightarrow> string + int"

definition Duration_UnmarshalYAML :: "parse_duration \<Rightarrow> yaml_scalar \<Rightarrow> value_error + int" where
  "Duration_UnmarshalYAML ParseDuration v =
     (if y_Tag v = ''!!str'' then
        (case ParseDuration (y_Value v) of Inl err \<Rightarrow> Inl (DurationError err) | Inr p \<Rightarrow> Inr p)
      else if y_Tag v = ''!!int'' then
        (case y_DecodeInt v of Inl err \<Rightarrow> Inl (DecodeError err) | Inr n \<Rightarrow> Inr n)
      else Inl (WrongTag (y_Tag v)))"

section \<open>Normalize\<close>

text \<open>\<open>filepath.Join(dir, "fasthttpd", "cert")\<close> of a clean directory.\<close>

definition SSL_Normalize :: "string + string \<Rightarrow> SSL \<Rightarrow> string + SSL" where
  "SSL_Normalize userCacheDir ssl =
     (if AutoCert ssl then
        if AutoCertCacheDir ssl = [] then
          (case userCacheDir of
             Inl err \<Rightarrow> Inl err
           | Inr dir \<Rightarrow> Inr (ssl\<lparr>AutoCertCacheDir := dir @ ''/fasthttpd/cert''\<rparr>))
        else Inr ssl
      else Inr ssl)"

datatype config_error = SSLError string | ShutdownTimeoutError string | UnknownRouteHandler string

fun unknown_handler :: "(string \<times> 't) list \<Rightarrow> RouteConfig list \<Rightarrow> string option" where
  "unknown_handler hs [] = None"
| "unknown_handler hs (route # routes) =
     (if rt_Handler route \<noteq> [] then
        (if map_of hs (rt_Handler route) = None then Some (rt_Handler route) else unknown_handler hs routes)
      else unknown_handler hs routes)"

definition Config_Normalize :: "string + string \<Rightarrow> parse_duration \<Rightarrow> 't Config \<Rightarrow> config_error + 't Config" where
  "Config_Normalize userCacheDir ParseDuration cfg =
     (case SSL_Normalize userCacheDir (cfg_SSL cfg) of
        Inl err \<Rightarrow> Inl (SSLError err)
      | Inr ssl \<Rightarrow>
          let cfg = cfg\<lparr>cfg_SSL := ssl\<rparr>
          in if cfg_ShutdownTimeout cfg \<noteq> [] \<and> isl (ParseDuration (cfg_ShutdownTimeout cfg))
             then Inl (ShutdownTimeoutError (projl (ParseDuration (cfg_ShutdownTimeout cfg))))
             else (case unknown_handler (cfg_Handlers cfg) (cfg_Routes cfg) of
                     Some h \<Rightarrow> Inl (UnknownRouteHandler h)
                   | None \<Rightarrow> Inr cfg))"

text \<open>\<open>ParseDuration\<close> returns 0 beside an error.\<close>

definition ShutdownTimeoutDuration :: "parse_duration \<Rightarrow> 't Config \<Rightarrow> int" where
  "ShutdownTimeoutDuration ParseDuration cfg =
     (if cfg_ShutdownTimeout cfg = [] then 0
      else case ParseDuration (cfg_ShutdownTimeout cfg) of Inl err \<Rightarrow> 0 | Inr d \<Rightarrow> d)"

section \<open>The settings of a fasthttp server\<close>

text \<open>The fields of \<open>fasthttp.Server\<close> that are set, beside those wired elsewhere (\<open>'s\<close>).\<close>

record 's fasthttp_server =
  fs_Name :: string
  fs_Concurrency :: int
  fs_ReadBufferSize :: int
  fs_WriteBufferSize :: int
  fs_MaxConnsPerIP :: int
  fs_MaxRequestsPerConn :: int
  fs_MaxRequestBodySize :: int
  fs_ReadTimeout :: int
  fs_WriteTimeout :: int
  fs_IdleTimeout :: int
  fs_MaxIdleWorkerDuration :: int
  fs_TCPKeepalivePeriod :: int
  fs_SleepWhenConcurrencyLimitsExceeded :: int
  fs_DisableKeepalive :: bool
  fs_TCPKeepalive :: bool
  fs_ReduceMemoryUsage :: bool
  fs_DisablePreParseMultipartForm :: bool
  fs_LogAllErrors :: bool
  fs_SecureErrorLogMessage :: bool
  fs_DisableHeaderNamesNormalizing :: bool
  fs_NoDefaultServerHeader :: bool
  fs_NoDefaultDate :: bool
  fs_NoDefaultContentType :: bool
  fs_CloseOnShutdown :: bool
  fs_StreamRequestBody :: bool
  fs_wired :: 's

definition ApplyTo :: "ServerConfig \<Rightarrow> 's fasthttp_server \<Rightarrow> 's fasthttp_server" where
  "ApplyTo s dst = dst\<lparr>
     fs_Name := srv_Name s, fs_Concurrency := srv_Concurrency s, fs_ReadBufferSize := i64 (srv_ReadBufferSize s),
     fs_WriteBufferSize := i64 (srv_WriteBufferSize s), fs_MaxConnsPerIP := srv_MaxConnsPerIP s,
     fs_MaxRequestsPerConn := srv_MaxRequestsPerConn s, fs_MaxRequestBodySize := i64 (srv_MaxRequestBodySize s),
     fs_ReadTimeout := srv_ReadTimeout s, fs_WriteTimeout := srv_WriteTimeout s, fs_IdleTimeout := srv_IdleTimeout s,
     fs_MaxIdleWorkerDuration := srv_MaxIdleWorkerDuration s, fs_TCPKeepalivePeriod := srv_TCPKeepalivePeriod s,
     fs_SleepWhenConcurrencyLimitsExceeded := srv_SleepWhenConcurrencyLimitsExceeded s,
     fs_DisableKeepalive := srv_DisableKeepalive s, fs_TCPKeepalive := srv_TCPKeepalive s,
     fs_ReduceMemoryUsage := srv_ReduceMemoryUsage s,
     fs_DisablePreParseMultipartForm := srv_DisablePreParseMultipartForm s,
     fs_LogAllErrors := srv_LogAllErrors s, fs_SecureErrorLogMessage := srv_SecureErrorLogMessage s,
     fs_DisableHeaderNamesNormalizing := srv_DisableHeaderNamesNormalizing s,
     fs_NoDefaultServerHeader := srv_NoDefaultServerHeader s, fs_NoDefaultDate := srv_NoDefaultDate s,
     fs_NoDefaultContentType := srv_NoDefaultContentType s, fs_CloseOnShutdown := srv_CloseOnShutdown s,
     fs_StreamRequestBody := srv_StreamRequestBody s\<rparr>"

section \<open>Sizes: what is read\<close>

text \<open>
  The documented spellings of a unit: \<open>K\<close>, \<open>M\<close>, \<open>G\<close> or nothing in either case, optionally followed by an \<open>i\<close>
  (also the dotless one, whose upper case is the same) and by a \<open>B\<close>; with each, the power of two it stands for.
\<close>

definition size_letters :: "(string \<times> nat) list" where
  "size_letters = [('''', 0), (''K'', 10), (''k'', 10), (''M'', 20), (''m'', 20), (''G'', 30), (''g'', 30)]"

definition size_is :: "string list" where
  "size_is = ['''', ''I'', ''i'', [CHR 0xC4, CHR 0xB1]]"

definition size_bs :: "string list" where
  "size_bs = ['''', ''B'', ''b'']"

definition size_units :: "(string \<times> nat) list" where
  "size_units = [(l @ i @ b, k). (l, k) \<leftarrow> size_letters, i \<leftarrow> size_is, b \<leftarrow> size_bs]"

text \<open>\<open>s\<close> is the number \<open>ds\<close> with a unit of \<open>2^k\<close>, blanks allowed before, between and after them.\<close>

definition size_spelled :: "string \<Rightarrow> string \<Rightarrow> nat \<Rightarrow> bool" where
  "size_spelled s ds k \<longleftrightarrow> (\<exists>a b u c. s = a @ ds @ b @ u @ c \<and> ds \<noteq> [] \<and> list_all re_digit ds \<and>
     list_all re_space a \<and> list_all re_space b \<and> list_all re_space c \<and> (u, k) \<in> set size_units)"

lemma space_not_digit: "re_space c \<Longrightarrow> \<not> re_digit c"
  by (auto simp: re_space_def re_digit_def)

lemma dropWhile_spaces: "list_all re_space s \<Longrightarrow> dropWhile re_space (s @ t) = dropWhile re_space t"
  by (induction s) simp_all

lemma span_append:
  "list_all P xs \<Longrightarrow> ys = [] \<or> \<not> P (hd ys) \<Longrightarrow> takeWhile P (xs @ ys) = xs \<and> dropWhile P (xs @ ys) = ys"
proof (induction xs)
  case Nil
  then show ?case
    by (cases ys) simp_all
qed simp

text \<open>One of the letters \<open>cs\<close> or nothing.\<close>

definition opt_of :: "char list \<Rightarrow> bytes \<Rightarrow> bool" where
  "opt_of cs x \<longleftrightarrow> x = [] \<or> (\<exists>c \<in> set cs. x = [c])"

lemma opt_byte_append: "opt_of cs x \<Longrightarrow> x = [] \<longrightarrow> r = [] \<or> hd r \<notin> set cs \<Longrightarrow> opt_byte cs (x @ r) = (x, r)"
  by (cases x; cases r) (auto simp: opt_of_def opt_byte_def)

lemma opt_byte_split: "opt_byte cs s = (x, r) \<Longrightarrow> s = x @ r \<and> opt_of cs x"
  by (auto simp: opt_of_def opt_byte_def split: list.splits if_splits)

lemma unit_letters:
  "opt_of ''KMG'' u \<Longrightarrow> u = [] \<or> u = ''K'' \<or> u = ''M'' \<or> u = ''G''"
  "opt_of ''Ii'' i \<Longrightarrow> i = [] \<or> i = ''I'' \<or> i = ''i''"
  "opt_of ''Bb'' e \<Longrightarrow> e = [] \<or> e = ''B'' \<or> e = ''b''"
  by (auto simp: opt_of_def)

lemma hd_spaces:
  assumes "list_all re_space c" "c \<noteq> []"
  shows "hd c \<notin> set ''KMG''" "hd c \<notin> set ''Ii''" "hd c \<notin> set ''Bb''" "\<not> re_digit (hd c)"
  using assms by (cases c; auto simp: re_space_def re_digit_def)+

lemma opt_chain:
  assumes "opt_of ''KMG'' u" "opt_of ''Ii'' i" "opt_of ''Bb'' e" "list_all re_space c"
  shows "opt_byte ''KMG'' (u @ i @ e @ c) = (u, i @ e @ c)" "opt_byte ''Ii'' (i @ e @ c) = (i, e @ c)"
    "opt_byte ''Bb'' (e @ c) = (e, c)"
proof -
  have sp: "c = [] \<or> hd c \<notin> set ''KMG''" "c = [] \<or> hd c \<notin> set ''Ii''" "c = [] \<or> hd c \<notin> set ''Bb''"
    using hd_spaces [OF assms(4)] by auto
  show "opt_byte ''Bb'' (e @ c) = (e, c)"
    using assms(3) sp(3) by (intro opt_byte_append) auto
  show "opt_byte ''Ii'' (i @ e @ c) = (i, e @ c)"
    using assms(2) unit_letters(3) [OF assms(3)] sp(2) by (intro opt_byte_append) auto
  show "opt_byte ''KMG'' (u @ i @ e @ c) = (u, i @ e @ c)"
    using assms(1) unit_letters(2) [OF assms(2)] unit_letters(3) [OF assms(3)] sp(1)
    by (intro opt_byte_append) auto
qed

lemma sizeRe_matches:
  assumes "ds \<noteq> []" "list_all re_digit ds" "list_all re_space a" "list_all re_space b" "list_all re_space c"
    and opt: "opt_of ''KMG'' u" "opt_of ''Ii'' i" "opt_of ''Bb'' e"
  shows "sizeRe (a @ ds @ b @ u @ i @ e @ c) = Some (ds, u)"
proof -
  let ?w = "u @ i @ e"
  let ?t = "b @ u @ i @ e @ c"
  have w: "?w = [] \<or> \<not> re_digit (hd ?w) \<and> \<not> re_space (hd ?w)"
    using unit_letters(1) [OF opt(1)] unit_letters(2) [OF opt(2)] unit_letters(3) [OF opt(3)]
    by (auto simp: re_digit_def re_space_def)
  have nd: "?t = [] \<or> \<not> re_digit (hd ?t)"
  proof (cases "b = []")
    case True
    then show ?thesis
      using w hd_spaces(4) [OF assms(5)] by (cases "?w = []") (auto simp: hd_append)
  next
    case False
    then show ?thesis
      using hd_spaces(4) [OF assms(4)] by simp
  qed
  obtain d ds' where d: "ds = d # ds'" "re_digit d"
    using assms(1,2) by (cases ds) auto
  have 1: "dropWhile re_space (a @ ds @ ?t) = ds @ ?t"
    using d space_not_digit by (auto simp: dropWhile_spaces [OF assms(3)])
  have 2: "takeWhile re_digit (ds @ ?t) = ds" "dropWhile re_digit (ds @ ?t) = ?t"
    using span_append [OF assms(2) nd] by simp_all
  show ?thesis
  proof (cases "?w = []")
    case True
    have 3: "dropWhile re_space ?t = []"
      using True assms(4,5) dropWhile_spaces [OF assms(5), of "[]"] by (simp add: dropWhile_spaces)
    show ?thesis
      unfolding sizeRe_def Let_def 1 2 3 using True assms(1) by (simp add: opt_byte_def)
  next
    case False
    then obtain x xs where x: "?w = x # xs" "\<not> re_space x"
      using w by (cases ?w) auto
    then have w: "u @ i @ e @ c = x # xs @ c"
      by (metis append_assoc append_Cons)
    have 3: "dropWhile re_space ?t = u @ i @ e @ c"
      unfolding w using x(2) dropWhile_spaces [OF assms(4), of "x # xs @ c"] by simp
    show ?thesis
      unfolding sizeRe_def Let_def 1 2 3 using assms(1,5) by (simp add: opt_chain [OF opt assms(5)])
  qed
qed

lemma sizeRe_parts:
  assumes "sizeRe t = Some (ds, u)"
  obtains a b i e c where "t = a @ ds @ b @ u @ i @ e @ c" "ds \<noteq> []" "list_all re_digit ds" "list_all re_space a"
    "list_all re_space b" "list_all re_space c" "opt_of ''KMG'' u" "opt_of ''Ii'' i" "opt_of ''Bb'' e"
proof -
  let ?s = "dropWhile re_space t"
  let ?r = "dropWhile re_digit ?s"
  obtain v r0 where 0: "opt_byte ''KMG'' (dropWhile re_space ?r) = (v, r0)" by fastforce
  obtain i r1 where 1: "opt_byte ''Ii'' r0 = (i, r1)" by fastforce
  obtain e c where 2: "opt_byte ''Bb'' r1 = (e, c)" by fastforce
  have "sizeRe t = (if takeWhile re_digit ?s \<noteq> [] \<and> list_all re_space c then Some (takeWhile re_digit ?s, v) else None)"
    by (simp add: sizeRe_def Let_def 0 1 2)
  with assms have m: "ds = takeWhile re_digit ?s" "u = v" "ds \<noteq> []" "list_all re_space c"
    by (simp_all split: if_splits)
  have tw: "list_all P (takeWhile P xs)" for P and xs :: bytes
    by (auto simp: list_all_iff dest: set_takeWhileD)
  note parts = opt_byte_split [OF 0] opt_byte_split [OF 1] opt_byte_split [OF 2]
  have "t = takeWhile re_space t @ takeWhile re_digit ?s @ takeWhile re_space ?r @ dropWhile re_space ?r"
    by simp
  also have "dropWhile re_space ?r = v @ i @ e @ c"
    using parts by simp
  finally show thesis
    using that [of "takeWhile re_space t" "takeWhile re_space ?r" i e c] m parts tw by simp
qed

section \<open>Upper case and back\<close>

lemma plain_byte:
  assumes "re_space c \<or> re_digit c"
  shows "upper_byte c = c" "c \<noteq> CHR 0xC4" "c \<noteq> CHR 0xC5" "c \<noteq> CHR 0xB1" "c \<noteq> CHR 0xBF"
  using assms by (auto simp: upper_byte_def re_space_def re_digit_def)

lemma ToUpper_same: "list_all (\<lambda>c. re_space c \<or> re_digit c) s \<Longrightarrow> ToUpper s = s"
  by (induction s) (simp_all add: ToUpper_Cons plain_byte)

lemma ToUpper_plain:
  assumes "list_all (\<lambda>c. re_space c \<or> re_digit c) (ToUpper s)"
  shows "ToUpper s = s"
  using assms
proof (induction s rule: ToUpper.induct)
  case (2 c s)
  have up: "upper_byte c = c" if "re_space (upper_byte c) \<or> re_digit (upper_byte c)"
  proof (rule ccontr)
    assume "upper_byte c \<noteq> c"
    then have "57 < (of_char (upper_byte c) :: nat)"
      by (auto simp: upper_byte_def split: if_splits)
    with that show False
      by (auto simp: re_space_def re_digit_def)
  qed
  have "\<not> (re_space (CHR ''I'') \<or> re_digit (CHR ''I''))" "\<not> (re_space (CHR ''S'') \<or> re_digit (CHR ''S''))"
    by (simp_all add: re_space_def re_digit_def)
  then show ?case
    using 2 up by (cases s) (auto simp: ToUpper.simps(2) [of c] split: if_splits)
qed simp

text \<open>The texts whose upper case is one of the letters of a unit.\<close>

lemma lower_letters:
  "char_of (of_char (CHR ''K'') + 32 :: nat) = CHR ''k''" "char_of (of_char (CHR ''M'') + 32 :: nat) = CHR ''m''"
  "char_of (of_char (CHR ''G'') + 32 :: nat) = CHR ''g''" "char_of (of_char (CHR ''B'') + 32 :: nat) = CHR ''b''"
  "char_of (of_char (CHR ''I'') + 32 :: nat) = CHR ''i''"
  by code_simp+

lemma ToUpper_eq_letter:
  assumes "ToUpper s = [x]"
  shows "s = [x] \<or> s = [char_of (of_char x + 32 :: nat)] \<or> x = CHR ''I'' \<and> s = [CHR 0xC4, CHR 0xB1] \<or> x = CHR ''S''"
  using ToUpper_eq_single [OF assms] upper_byte_cases by metis

lemma ToUpper_letter:
  "ToUpper s = ''K'' \<Longrightarrow> s = ''K'' \<or> s = ''k''" "ToUpper s = ''M'' \<Longrightarrow> s = ''M'' \<or> s = ''m''"
  "ToUpper s = ''G'' \<Longrightarrow> s = ''G'' \<or> s = ''g''" "ToUpper s = ''B'' \<Longrightarrow> s = ''B'' \<or> s = ''b''"
  "ToUpper s = ''I'' \<Longrightarrow> s = ''I'' \<or> s = ''i'' \<or> s = [CHR 0xC4, CHR 0xB1]"
  using ToUpper_eq_letter [of s "CHR ''K''", unfolded lower_letters]
    ToUpper_eq_letter [of s "CHR ''M''", unfolded lower_letters]
    ToUpper_eq_letter [of s "CHR ''G''", unfolded lower_letters]
    ToUpper_eq_letter [of s "CHR ''B''", unfolded lower_letters]
    ToUpper_eq_letter [of s "CHR ''I''", unfolded lower_letters] by simp_all

lemma upper_byte_not_i: "upper_byte c \<noteq> CHR ''i''"
proof
  assume "upper_byte c = CHR ''i''"
  then have "(of_char (upper_byte c) :: nat) = 105"
    by simp
  then show False
    by (auto simp: upper_byte_def split: if_splits)
qed

lemma upper_byte_not_b: "upper_byte c \<noteq> CHR ''b''"
proof
  assume "upper_byte c = CHR ''b''"
  then have "(of_char (upper_byte c) :: nat) = 98"
    by simp
  then show False
    by (auto simp: upper_byte_def split: if_splits)
qed

lemma ToUpper_not_lower: "ToUpper s \<noteq> ''i''" "ToUpper s \<noteq> ''b''"
  using upper_byte_not_i upper_byte_not_b by (fastforce dest!: ToUpper_eq_single)+

lemma size_unitsI:
  assumes "(l, k) \<in> set size_letters" "i \<in> set size_is" "b \<in> set size_bs"
  shows "(l @ i @ b, k) \<in> set size_units"
proof -
  have "(l @ i @ b, k) \<in> set (concat (map (\<lambda>i. map (\<lambda>b. (l @ i @ b, k)) size_bs) size_is))"
    using assms(2,3) by (simp only: set_concat set_map image_image UN_iff) blast
  then show ?thesis
    using assms(1) unfolding size_units_def set_concat [of "map _ size_letters"] set_map [of _ size_letters] by blast
qed

lemma ToUpper_unit:
  assumes "opt_of ''KMG'' u" "opt_of ''Ii'' i" "opt_of ''Bb'' e" "ToUpper w1 = u" "ToUpper w2 = i" "ToUpper w3 = e"
  shows "\<exists>k. (w1 @ w2 @ w3, k) \<in> set size_units"
proof -
  have "w1 = [] \<or> w1 = ''K'' \<or> w1 = ''k'' \<or> w1 = ''M'' \<or> w1 = ''m'' \<or> w1 = ''G'' \<or> w1 = ''g''"
    using unit_letters(1) [OF assms(1)] assms(4) ToUpper_letter(1-3) [of w1] by auto
  then obtain k where k: "(w1, k) \<in> set size_letters"
    by (auto simp: size_letters_def)
  have "w2 \<in> set size_is"
    using unit_letters(2) [OF assms(2)] assms(5) ToUpper_letter(5) [of w2] ToUpper_not_lower(1) [of w2]
    by (auto simp: size_is_def)
  moreover have "w3 \<in> set size_bs"
    using unit_letters(3) [OF assms(3)] assms(6) ToUpper_letter(4) [of w3] ToUpper_not_lower(2) [of w3]
    by (auto simp: size_bs_def)
  ultimately have "(w1 @ w2 @ w3, k) \<in> set size_units"
    using size_unitsI k by blast
  then show ?thesis ..
qed

definition unit_of :: "nat \<Rightarrow> bytes" where
  "unit_of k = (if k = 10 then ''K'' else if k = 20 then ''M'' else if k = 30 then ''G'' else [])"

lemma size_units_upper:
  "list_all (\<lambda>(w, k). list_ex (\<lambda>i. list_ex (\<lambda>e. ToUpper w = unit_of k @ i @ e) ['''', ''B'']) ['''', ''I'']) size_units"
  "list_all (\<lambda>(w, k). k \<in> set [0, 10, 20, 30]) size_units"
  "list_all (\<lambda>(w, k). w = [] \<or> hd w \<noteq> CHR 0xB1 \<and> hd w \<noteq> CHR 0xBF) size_units"
  by code_simp+

lemma ToUpper_units:
  assumes "(w, k) \<in> set size_units"
  shows "\<exists>i e. ToUpper w = unit_of k @ i @ e \<and> opt_of ''Ii'' i \<and> opt_of ''Bb'' e"
    "opt_of ''KMG'' (unit_of k)" "k = 0 \<or> k = 10 \<or> k = 20 \<or> k = 30" "w = [] \<or> hd w \<noteq> CHR 0xB1 \<and> hd w \<noteq> CHR 0xBF"
proof -
  note all = bspec [OF size_units_upper(1) [unfolded list_all_iff] assms, unfolded split_conv]
    bspec [OF size_units_upper(2) [unfolded list_all_iff] assms, unfolded split_conv]
    bspec [OF size_units_upper(3) [unfolded list_all_iff] assms, unfolded split_conv]
  have "opt_of ''Ii'' []" "opt_of ''Ii'' ''I''" "opt_of ''Bb'' []" "opt_of ''Bb'' ''B''"
    by (simp_all add: opt_of_def)
  moreover obtain i e where "ToUpper w = unit_of k @ i @ e" "i \<in> set ['''', ''I'']" "e \<in> set ['''', ''B'']"
    using all(1) unfolding list_ex_iff by blast
  ultimately show "\<exists>i e. ToUpper w = unit_of k @ i @ e \<and> opt_of ''Ii'' i \<and> opt_of ''Bb'' e"
    by (intro exI [of _ i] exI [of _ e]) auto
  show k: "k = 0 \<or> k = 10 \<or> k = 20 \<or> k = 30"
    using all(2) by auto
  show "w = [] \<or> hd w \<noteq> CHR 0xB1 \<and> hd w \<noteq> CHR 0xBF"
    by (fact all(3))
  show "opt_of ''KMG'' (unit_of k)"
    using k by (auto simp: unit_of_def opt_of_def)
qed

lemma sizeRe_spelled:
  assumes "size_spelled s ds k"
  shows "sizeRe (ToUpper s) = Some (ds, unit_of k)"
proof -
  obtain a b w c where s: "s = a @ ds @ b @ w @ c" "ds \<noteq> []" "list_all re_digit ds"
    "list_all re_space a" "list_all re_space b" "list_all re_space c" "(w, k) \<in> set size_units"
    using assms by (auto simp: size_spelled_def)
  obtain i e where w: "ToUpper w = unit_of k @ i @ e" "opt_of ''Ii'' i" "opt_of ''Bb'' e"
    using ToUpper_units(1) [OF s(7)] by blast
  have plain: "list_all (\<lambda>c. re_space c \<or> re_digit c) (a @ ds @ b)" "list_all (\<lambda>c. re_space c \<or> re_digit c) c"
    using s(3-6) by (auto simp: list_all_iff)
  have "c = [] \<or> hd c \<noteq> CHR 0xB1 \<and> hd c \<noteq> CHR 0xBF"
    using s(6) plain_byte by (cases c) auto
  then have "ToUpper (w @ c) = ToUpper w @ c" "w @ c = [] \<or> hd (w @ c) \<noteq> CHR 0xB1 \<and> hd (w @ c) \<noteq> CHR 0xBF"
    using ToUpper_units(4) [OF s(7)] by (auto simp: ToUpper_append ToUpper_same [OF plain(2)] hd_append)
  then have "ToUpper s = (a @ ds @ b) @ (unit_of k @ i @ e) @ c"
    unfolding s(1) using ToUpper_append [of "w @ c" "a @ ds @ b"] ToUpper_same [OF plain(1)] w(1) by simp
  then show ?thesis
    using sizeRe_matches [OF s(2-6) ToUpper_units(2) [OF s(7)] w(2,3)] by simp
qed

lemma sizeRe_only_spelled:
  assumes "sizeRe (ToUpper s) = Some (ds, u)"
  shows "\<exists>k. size_spelled s ds k"
proof -
  obtain a b i e c where t: "ToUpper s = (a @ ds @ b) @ u @ i @ e @ c" "ds \<noteq> []" "list_all re_digit ds"
    "list_all re_space a" "list_all re_space b" "list_all re_space c" "opt_of ''KMG'' u" "opt_of ''Ii'' i" "opt_of ''Bb'' e"
    by (rule sizeRe_parts [OF assms]) auto
  obtain s1 w1 w2 w3 s2 where s: "s = s1 @ w1 @ w2 @ w3 @ s2" "ToUpper s1 = a @ ds @ b" "ToUpper w1 = u"
    "ToUpper w2 = i" "ToUpper w3 = e" "ToUpper s2 = c"
    using ToUpper_split [OF t(1)] ToUpper_split by metis
  have "list_all (\<lambda>c. re_space c \<or> re_digit c) (ToUpper s1)" "list_all (\<lambda>c. re_space c \<or> re_digit c) (ToUpper s2)"
    using s(2,6) t(3-6) by (auto simp: list_all_iff)
  then have same: "s1 = a @ ds @ b" "s2 = c"
    using ToUpper_plain s(2,6) by metis+
  obtain k where "(w1 @ w2 @ w3, k) \<in> set size_units"
    using ToUpper_unit [OF t(7-9) s(3-5)] by blast
  then have "size_spelled s ds k"
    unfolding size_spelled_def s(1) same using t(2-6)
    by (intro exI [of _ a] exI [of _ b] exI [of _ "w1 @ w2 @ w3"] exI [of _ c]) simp
  then show ?thesis ..
qed

lemma decimal_value_nonneg: "list_all re_digit ds \<Longrightarrow> 0 \<le> decimal_value ds"
proof (induction ds rule: rev_induct)
  case (snoc d ds)
  have "(48 :: int) \<le> of_char d" if "re_digit d"
  proof -
    have "(of_char d :: int) = int (of_char d)"
      by (metis of_nat_of_char)
    with that show ?thesis
      unfolding re_digit_def by linarith
  qed
  with snoc show ?case
    by (simp add: decimal_value_def)
qed (simp add: decimal_value_def)

section \<open>Properties\<close>

text \<open>C29. What a size is: a text spelled as a number and a unit (any documented spelling of the unit, in any
  case, blanks around both) is the number times the unit's power of 1024, as a 64-bit integer: the shift is not
  checked, so a size of \<open>2^63\<close> bytes or more wraps around (\<open>17179869184G\<close> is 0); only a number that by itself
  does not fit 64 bits is an error. Every other text is rejected.\<close>

theorem parse_size_units:
  shows "(size_spelled s ds k \<longrightarrow> parseSize s =
      (if decimal_value ds < 2 ^ 63 then Inr (i64 (decimal_value ds * 2 ^ k)) else Inl (SizeOutOfRange s))) \<and>
    ((\<nexists>ds k. size_spelled s ds k) \<longrightarrow> parseSize s = Inl (InvalidSize s))"
proof (intro conjI impI)
  assume sp: "size_spelled s ds k"
  then have k: "k = 0 \<or> k = 10 \<or> k = 20 \<or> k = 30"
    using ToUpper_units(3) by (auto simp: size_spelled_def)
  have "0 \<le> decimal_value ds"
    using sp decimal_value_nonneg by (auto simp: size_spelled_def)
  with k show "parseSize s =
      (if decimal_value ds < 2 ^ 63 then Inr (i64 (decimal_value ds * 2 ^ k)) else Inl (SizeOutOfRange s))"
    by (auto simp: parseSize_def sizeRe_spelled [OF sp] unit_of_def Let_def)
next
  assume "\<nexists>ds k. size_spelled s ds k"
  then have "sizeRe (ToUpper s) = None"
    using sizeRe_only_spelled by (metis option.exhaust surj_pair)
  then show "parseSize s = Inl (InvalidSize s)"
    by (simp add: parseSize_def)
qed

theorem parse_size_units_witness:
  "parseSize '' 017179869184 GiB'' = Inr 0 \<and> parseSize ''8Ki'' = Inr 8192 \<and> parseSize ''4Q'' = Inl (InvalidSize ''4Q'')"
proof -
  have 1: "size_spelled '' 017179869184 GiB'' ''017179869184'' 30"
    unfolding size_spelled_def
    by (intro exI [of _ "'' ''"] exI [of _ "''GiB''"] exI [of _ "[]"])
       (simp add: re_digit_def re_space_def size_units_def size_letters_def size_is_def size_bs_def)
  have 2: "size_spelled ''8Ki'' ''8'' 10"
    unfolding size_spelled_def
    by (intro exI [of _ "[]"] exI [of _ "''Ki''"]) (simp add: re_digit_def size_units_def size_letters_def size_is_def size_bs_def)
  have "sizeRe (ToUpper ''4Q'') = None"
    by code_simp
  then have 3: "\<nexists>ds k. size_spelled ''4Q'' ds k"
    using sizeRe_spelled by fastforce
  have "decimal_value ''017179869184'' = 17179869184" "decimal_value ''8'' = 8"
    by code_simp+
  then show ?thesis
    using parse_size_units [of "'' 017179869184 GiB''"] parse_size_units [of "''8Ki''"] parse_size_units [of "''4Q''"] 1 2 3
    by (simp add: i64_def)
qed

end
