(* ===== verification/ConfigLoad.thy ===== *)
theory ConfigLoad
  imports ConfigValues
begin

text \<open>
  \<open>pkg/config/load.go\<close>: reading configuration files with their includes, the edit expressions of the command
  line, the conversion of documents into configurations. A document is a value of a type \<open>'m\<close>
  (\<open>tree.Map\<close>); the file system, \<open>filepath.Abs\<close> and \<open>Glob\<close>, the YAML decoder and package \<open>tree\<close> are the
  fields of a record. The recursion over includes is a \<open>partial_function (option)\<close>: that it always
  returns is a theorem.
\<close>

section \<open>Files and documents\<close>

text \<open>\<open>Decode\<close> lists what the decoder's calls answer before the end of the input.\<close>

record 'm loader =
  Abs :: "string \<Rightarrow> string + string"
  ReadFile :: "string \<Rightarrow> string + bytes"
  Glob :: "string \<Rightarrow> string + string list"
  Decode :: "bytes \<Rightarrow> (string + 'm) list"
  include_of :: "'m \<Rightarrow> string"

datatype load_error = CircularDependency "string list" | LoadError string

text \<open>The decode loop of \<open>unmarshalTreeMaps\<close>.\<close>

fun decode_loop :: "(string + 'm) list \<Rightarrow> 'm list \<Rightarrow> load_error + 'm list" where
  "decode_loop [] ms = Inr ms"
| "decode_loop (Inl err # rs) ms = Inl (LoadError err)"
| "decode_loop (Inr m # rs) ms = decode_loop rs (ms @ [m])"

text \<open>The three functions that call each other: a path, the documents of a file, the paths of an include.\<close>

datatype 'm load_call = LoadPath string | ExpandIncludes "'m list" "'m list" | LoadGlobbed "string list" "'m list"

partial_function (option) load :: "'m loader \<Rightarrow> string list \<Rightarrow> 'm load_call \<Rightarrow> (load_error + 'm list) option" where
  "load L loadedPaths call =
     (case call of
        LoadPath path \<Rightarrow>
          (case Abs L path of
             Inl err \<Rightarrow> Some (Inl (LoadError err))
           | Inr absPath \<Rightarrow>
               if absPath \<in> set loadedPaths then Some (Inl (CircularDependency loadedPaths))
               else (case ReadFile L absPath of
                       Inl err \<Rightarrow> Some (Inl (LoadError err))
                     | Inr data \<Rightarrow>
                         (case decode_loop (Decode L data) [] of
                            Inl err \<Rightarrow> Some (Inl err)
                          | Inr ms \<Rightarrow> load L (loadedPaths @ [absPath]) (ExpandIncludes ms []))))
      | ExpandIncludes ms out \<Rightarrow>
          (case ms of
             [] \<Rightarrow> Some (Inr out)
           | m # ms' \<Rightarrow>
               if include_of L m = [] then load L loadedPaths (ExpandIncludes ms' (out @ [m]))
               else (case Glob L (include_of L m) of
                       Inl err \<Rightarrow> Some (Inl (LoadError err))
                     | Inr paths \<Rightarrow>
                         Option.bind (load L loadedPaths (LoadGlobbed paths out)) (\<lambda>r.
                           case r of
                             Inl err \<Rightarrow> Some (Inl err)
                           | Inr out' \<Rightarrow> load L loadedPaths (ExpandIncludes ms' out'))))
      | LoadGlobbed paths out \<Rightarrow>
          (case paths of
             [] \<Rightarrow> Some (Inr out)
           | p # ps \<Rightarrow>
               Option.bind (load L loadedPaths (LoadPath p)) (\<lambda>r.
                 case r of
                   Inl err \<Rightarrow> Some (Inl err)
                 | Inr sub \<Rightarrow> load L loadedPaths (LoadGlobbed ps (out @ sub)))))"

definition LoadTreeMaps :: "'m loader \<Rightarrow> string \<Rightarrow> (load_error + 'm list) option" where
  "LoadTreeMaps L path = load L [] (LoadPath path)"

section \<open>Edit expressions\<close>

text \<open>\<open>Quote\<close> and \<open>Atoi\<close> are those of package \<open>strconv\<close>; \<open>tree_Edit\<close> is \<open>tree.Edit\<close> on the array of documents.\<close>

definition cut_eq :: "string \<Rightarrow> (string \<times> string) option" where
  "cut_eq expr =
     (case dropWhile (\<lambda>c. c \<noteq> CHR ''='') expr of
        [] \<Rightarrow> None
      | _ # r \<Rightarrow> Some (takeWhile (\<lambda>c. c \<noteq> CHR ''='') expr, r))"

definition edit_expr :: "(string \<Rightarrow> string) \<Rightarrow> (string \<Rightarrow> bool) \<Rightarrow> string \<Rightarrow> string" where
  "edit_expr Quote is_int expr =
     (case cut_eq expr of
        None \<Rightarrow> expr
      | Some (l, r) \<Rightarrow>
          let l = (if HasPrefix l ''.['' then l
                   else if HasPrefix l ''.'' then ''.[]'' @ l
                   else ''.[].'' @ l);
              r = (if \<not> HasPrefix r [CHR 0x22] \<and> \<not> HasPrefix r ''['' \<and> \<not> HasPrefix r ''{'' \<and>
                      r \<noteq> ''true'' \<and> r \<noteq> ''false'' \<and> r \<noteq> ''null''
                   then (if \<not> is_int r then Quote r else r)
                   else r)
          in l @ ''='' @ r)"

fun edit_loop :: "('a \<Rightarrow> string \<Rightarrow> string + 'a) \<Rightarrow> (string \<Rightarrow> string) \<Rightarrow> (string \<Rightarrow> bool) \<Rightarrow> 'a \<Rightarrow> string list \<Rightarrow> string + 'a" where
  "edit_loop tree_Edit Quote is_int n [] = Inr n"
| "edit_loop tree_Edit Quote is_int n (expr # exprs) =
     (case tree_Edit n (edit_expr Quote is_int expr) of
        Inl err \<Rightarrow> Inl err
      | Inr n \<Rightarrow> edit_loop tree_Edit Quote is_int n exprs)"

datatype edit_error = EditError string | NotAnArray | NotAMap nat

fun doc_maps :: "('n \<Rightarrow> 'm option) \<Rightarrow> nat \<Rightarrow> 'n list \<Rightarrow> edit_error + 'm list" where
  "doc_maps as_map i [] = Inr []"
| "doc_maps as_map i (x # xs) =
     (case as_map x of
        None \<Rightarrow> Inl (NotAMap i)
      | Some m \<Rightarrow> map_sum id (Cons m) (doc_maps as_map (Suc i) xs))"

text \<open>\<open>to_array\<close> wraps the documents, \<open>from_array\<close> and \<open>as_map\<close> are the type assertions afterwards.\<close>

definition Edit :: "('m list \<Rightarrow> 'a) \<Rightarrow> ('a \<Rightarrow> 'n list option) \<Rightarrow> ('n \<Rightarrow> 'm option) \<Rightarrow> ('a \<Rightarrow> string \<Rightarrow> string + 'a) \<Rightarrow>
    (string \<Rightarrow> string) \<Rightarrow> (string \<Rightarrow> bool) \<Rightarrow> 'm list \<Rightarrow> string list \<Rightarrow> edit_error + 'm list" where
  "Edit to_array from_array as_map tree_Edit Quote is_int ms exprs =
     (if exprs = [] then Inr ms
      else case edit_loop tree_Edit Quote is_int (to_array ms) exprs of
             Inl err \<Rightarrow> Inl (EditError err)
           | Inr n \<Rightarrow>
               (case from_array n of
                  None \<Rightarrow> Inl NotAnArray
                | Some xs \<Rightarrow> doc_maps as_map 0 xs))"

section \<open>Configurations\<close>

datatype from_error = MarshalError string | UnmarshalError string | ConfigError config_error

text \<open>\<open>marshal\<close> is \<open>tree.MarshalYAML\<close>; \<open>unmarshal data cfg\<close> is \<open>yaml.Unmarshal\<close>, which overwrites what the data sets.\<close>

definition FromTreeMap :: "('m \<Rightarrow> string + bytes) \<Rightarrow> (bytes \<Rightarrow> 't Config \<Rightarrow> string + 't Config) \<Rightarrow> string + string \<Rightarrow>
    parse_duration \<Rightarrow> 'm \<Rightarrow> from_error + 't Config" where
  "FromTreeMap marshal unmarshal userCacheDir ParseDuration m =
     (let cfg = Config_SetDefaults zero_config
      in case marshal m of
           Inl err \<Rightarrow> Inl (MarshalError err)
         | Inr data \<Rightarrow>
             (case unmarshal data cfg of
                Inl err \<Rightarrow> Inl (UnmarshalError err)
              | Inr cfg \<Rightarrow> map_sum ConfigError id (Config_Normalize userCacheDir ParseDuration cfg)))"

fun FromTreeMaps :: "('m \<Rightarrow> string + bytes) \<Rightarrow> (bytes \<Rightarrow> 't Config \<Rightarrow> string + 't Config) \<Rightarrow> string + string \<Rightarrow>
    parse_duration \<Rightarrow> 'm list \<Rightarrow> from_error + 't Config list" where
  "FromTreeMaps marshal unmarshal userCacheDir ParseDuration [] = Inr []"
| "FromTreeMaps marshal unmarshal userCacheDir ParseDuration (m # ms) =
     (case FromTreeMap marshal unmarshal userCacheDir ParseDuration m of
        Inl err \<Rightarrow> Inl err
      | Inr cfg \<Rightarrow> map_sum id (Cons cfg) (FromTreeMaps marshal unmarshal userCacheDir ParseDuration ms))"

section \<open>The include graph\<close>

text \<open>The documents of a file, the paths one document includes, the files a file includes.\<close>

definition file_docs :: "'m loader \<Rightarrow> string \<Rightarrow> 'm list" where
  "file_docs L a =
     (case ReadFile L a of
        Inl err \<Rightarrow> []
      | Inr data \<Rightarrow> (case decode_loop (Decode L data) [] of Inl err \<Rightarrow> [] | Inr ms \<Rightarrow> ms))"

definition path_targets :: "'m loader \<Rightarrow> string list \<Rightarrow> string set" where
  "path_targets L ps = {a. \<exists>p \<in> set ps. Abs L p = Inr a}"

definition doc_targets :: "'m loader \<Rightarrow> 'm list \<Rightarrow> string set" where
  "doc_targets L ms =
     {a. \<exists>m \<in> set ms. include_of L m \<noteq> [] \<and> (\<exists>ps. Glob L (include_of L m) = Inr ps \<and> a \<in> path_targets L ps)}"

inductive file_includes :: "'m loader \<Rightarrow> string \<Rightarrow> string \<Rightarrow> bool" for L :: "'m loader" where
  "b \<in> doc_targets L (file_docs L a) \<Longrightarrow> file_includes L a b"

text \<open>\<open>b\<close> is \<open>a\<close> or included by it, directly or not.\<close>

inductive reaches :: "'m loader \<Rightarrow> string \<Rightarrow> string \<Rightarrow> bool" for L :: "'m loader" where
  self: "reaches L a a"
| step: "file_includes L a b \<Longrightarrow> reaches L b c \<Longrightarrow> reaches L a c"

inductive_cases reachesE: "reaches L a c"
inductive_simps file_includes_iff: "file_includes L a b"

fun call_targets :: "'m loader \<Rightarrow> 'm load_call \<Rightarrow> string set" where
  "call_targets L (LoadPath p) = path_targets L [p]"
| "call_targets L (ExpandIncludes ms out) = doc_targets L ms"
| "call_targets L (LoadGlobbed ps out) = path_targets L ps"

lemma targets_simps [simp]:
  "path_targets L [] = {}" "path_targets L (p # ps) = {a. Abs L p = Inr a} \<union> path_targets L ps"
  "doc_targets L [] = {}"
  "doc_targets L (m # ms) =
     (if include_of L m = [] then {}
      else case Glob L (include_of L m) of Inl err \<Rightarrow> {} | Inr ps \<Rightarrow> path_targets L ps) \<union> doc_targets L ms"
  by (auto simp: path_targets_def doc_targets_def split: sum.splits)

section \<open>The calls as a relation\<close>

text \<open>\<open>load\<close> computes this relation; the properties of loading are by its induction rule.\<close>

inductive loads :: "'m loader \<Rightarrow> string list \<Rightarrow> 'm load_call \<Rightarrow> load_error + 'm list \<Rightarrow> bool" for L :: "'m loader" where
  abs_err: "Abs L p = Inl err \<Longrightarrow> loads L loaded (LoadPath p) (Inl (LoadError err))"
| circular: "Abs L p = Inr a \<Longrightarrow> a \<in> set loaded \<Longrightarrow> loads L loaded (LoadPath p) (Inl (CircularDependency loaded))"
| read_err: "Abs L p = Inr a \<Longrightarrow> a \<notin> set loaded \<Longrightarrow> ReadFile L a = Inl err \<Longrightarrow>
    loads L loaded (LoadPath p) (Inl (LoadError err))"
| decode_err: "Abs L p = Inr a \<Longrightarrow> a \<notin> set loaded \<Longrightarrow> ReadFile L a = Inr data \<Longrightarrow>
    decode_loop (Decode L data) [] = Inl e \<Longrightarrow> loads L loaded (LoadPath p) (Inl e)"
| file_read: "Abs L p = Inr a \<Longrightarrow> a \<notin> set loaded \<Longrightarrow> ReadFile L a = Inr data \<Longrightarrow>
    decode_loop (Decode L data) [] = Inr ms \<Longrightarrow> loads L (loaded @ [a]) (ExpandIncludes ms []) r \<Longrightarrow>
    loads L loaded (LoadPath p) r"
| docs_nil: "loads L loaded (ExpandIncludes [] out) (Inr out)"
| docs_plain: "include_of L m = [] \<Longrightarrow> loads L loaded (ExpandIncludes ms (out @ [m])) r \<Longrightarrow>
    loads L loaded (ExpandIncludes (m # ms) out) r"
| glob_err: "include_of L m \<noteq> [] \<Longrightarrow> Glob L (include_of L m) = Inl err \<Longrightarrow>
    loads L loaded (ExpandIncludes (m # ms) out) (Inl (LoadError err))"
| docs_err: "include_of L m \<noteq> [] \<Longrightarrow> Glob L (include_of L m) = Inr ps \<Longrightarrow>
    loads L loaded (LoadGlobbed ps out) (Inl e) \<Longrightarrow> loads L loaded (ExpandIncludes (m # ms) out) (Inl e)"
| docs_sub: "include_of L m \<noteq> [] \<Longrightarrow> Glob L (include_of L m) = Inr ps \<Longrightarrow>
    loads L loaded (LoadGlobbed ps out) (Inr out') \<Longrightarrow> loads L loaded (ExpandIncludes ms out') r \<Longrightarrow>
    loads L loaded (ExpandIncludes (m # ms) out) r"
| paths_nil: "loads L loaded (LoadGlobbed [] out) (Inr out)"
| paths_err: "loads L loaded (LoadPath p) (Inl e) \<Longrightarrow> loads L loaded (LoadGlobbed (p # ps) out) (Inl e)"
| paths_sub: "loads L loaded (LoadPath p) (Inr sub) \<Longrightarrow> loads L loaded (LoadGlobbed ps (out @ sub)) r \<Longrightarrow>
    loads L loaded (LoadGlobbed (p # ps) out) r"

lemma bind_result:
  "Option.bind x (\<lambda>r. case r of Inl err \<Rightarrow> Some (Inl err) | Inr v \<Rightarrow> g v) = Some r \<longleftrightarrow>
   (\<exists>err. x = Some (Inl err) \<and> r = Inl err) \<or> (\<exists>v. x = Some (Inr v) \<and> g v = Some r)"
  by (cases x) (auto split: sum.splits)

lemma load_loads:
  assumes "load L loaded call = Some r"
  shows "loads L loaded call r"
proof (rule load.raw_induct [OF _ assms, where P = loads], goal_cases)
  case (1 f L loaded call r)
  note IH = "1"(1) and body = "1"(2)
  show ?case
  proof (cases call)
    case (LoadPath p)
    consider (err) "\<nexists>a data e. Abs L p = Inr a \<and> a \<notin> set loaded \<and> ReadFile L a = Inr data \<and>
        decode_loop (Decode L data) [] = Inl e"
      | (decode) a data e where "Abs L p = Inr a" "a \<notin> set loaded" "ReadFile L a = Inr data"
        "decode_loop (Decode L data) [] = Inl e"
      by blast
    then show ?thesis
    proof cases
      case err
      with body LoadPath show ?thesis
        by (auto split: sum.splits if_splits intro: loads.abs_err loads.circular loads.read_err loads.file_read IH)
    next
      case decode
      with body LoadPath show ?thesis
        by (auto intro: loads.decode_err)
    qed
  next
    case (ExpandIncludes ms out)
    with body show ?thesis
      by (auto simp: bind_result split: list.splits sum.splits if_splits
          intro: loads.docs_nil loads.docs_plain loads.glob_err IH loads.docs_err [OF _ _ IH] loads.docs_sub [OF _ _ IH IH])
  next
    case (LoadGlobbed ps out)
    with body show ?thesis
      by (auto simp: bind_result split: list.splits intro: loads.paths_nil loads.paths_err [OF IH] loads.paths_sub [OF IH IH])
  qed
qed

lemma loads_load: "loads L loaded call r \<Longrightarrow> load L loaded call = Some r"
  by (induction rule: loads.induct) (simp_all add: load.simps)

lemma load_iff_loads: "load L loaded call = Some r \<longleftrightarrow> loads L loaded call r"
  using load_loads loads_load by blast

section \<open>Includes and cycles\<close>

lemma reaches_cases: "reaches L a c \<longleftrightarrow> a = c \<or> (\<exists>b \<in> doc_targets L (file_docs L a). reaches L b c)"
  by (auto simp: file_includes_iff intro: reaches.intros elim: reachesE)

lemma reaches_trans: "reaches L a b \<Longrightarrow> reaches L b c \<Longrightarrow> reaches L a c"
  by (induction rule: reaches.induct) (auto intro: reaches.step)

text \<open>A file that is included by one of the files it includes.\<close>

definition in_cycle :: "'m loader \<Rightarrow> string \<Rightarrow> bool" where
  "in_cycle L b \<longleftrightarrow> (\<exists>c. file_includes L b c \<and> reaches L c b)"

text \<open>No file that the targets reach is being loaded already, or is in a cycle.\<close>

definition clear_of :: "'m loader \<Rightarrow> string list \<Rightarrow> string set \<Rightarrow> bool" where
  "clear_of L loaded targets \<longleftrightarrow> (\<forall>a \<in> targets. \<forall>b. reaches L a b \<longrightarrow> b \<notin> set loaded \<and> \<not> in_cycle L b)"

lemma clear_of_simps [simp]:
  "clear_of L loaded {}"
  "clear_of L loaded (A \<union> B) \<longleftrightarrow> clear_of L loaded A \<and> clear_of L loaded B"
  by (auto simp: clear_of_def)

lemma clear_of_path:
  assumes "Abs L p = Inr a" "a \<notin> set loaded" "clear_of L (loaded @ [a]) (doc_targets L (file_docs L a))"
  shows "clear_of L loaded (path_targets L [p])"
proof -
  have "\<not> in_cycle L a"
    using assms(3) by (auto simp: clear_of_def in_cycle_def file_includes_iff)
  moreover have "b = a \<or> (\<exists>t \<in> doc_targets L (file_docs L a). reaches L t b)" if "reaches L a b" for b
    using that reaches_cases [of L a b] by blast
  ultimately show ?thesis
    using assms unfolding clear_of_def by fastforce
qed

lemma loads_clear: "loads L loaded call r \<Longrightarrow> r = Inr ms \<Longrightarrow> clear_of L loaded (call_targets L call)"
proof (induction arbitrary: ms rule: loads.induct)
  case (file_read p a loaded data ms' r)
  then show ?case
    using clear_of_path [of L p a loaded] by (auto simp: file_docs_def)
qed auto

text \<open>The files being loaded include each other, and the last one includes what is loaded next.\<close>

definition chain_to :: "'m loader \<Rightarrow> string list \<Rightarrow> string set \<Rightarrow> bool" where
  "chain_to L loaded targets \<longleftrightarrow>
     (\<forall>a \<in> set loaded. \<forall>t \<in> targets. \<exists>c. file_includes L a c \<and> reaches L c t)"

lemma chain_to_simps [simp]:
  "chain_to L [] A"
  "chain_to L loaded (A \<union> B) \<longleftrightarrow> chain_to L loaded A \<and> chain_to L loaded B"
  by (auto simp: chain_to_def)

lemma chain_to_file:
  "chain_to L loaded {a} \<Longrightarrow> chain_to L (loaded @ [a]) (doc_targets L (file_docs L a))"
  unfolding chain_to_def by (auto simp: file_includes_iff intro: reaches.intros)
    (metis file_includes_iff reaches.intros reaches_trans)

definition finds_cycle :: "'m loader \<Rightarrow> string list \<Rightarrow> string set \<Rightarrow> bool" where
  "finds_cycle L loaded targets \<longleftrightarrow>
     (\<exists>b. in_cycle L b \<and> (b \<in> set loaded \<or> (\<exists>t \<in> targets. reaches L t b)))"

lemma decode_loop_err: "decode_loop rs ms = Inl e \<Longrightarrow> \<exists>err. e = LoadError err"
  by (induction rs ms rule: decode_loop.induct) auto

lemma loads_circular:
  "loads L loaded call r \<Longrightarrow> r = Inl (CircularDependency ps) \<Longrightarrow> chain_to L loaded (call_targets L call) \<Longrightarrow>
   finds_cycle L loaded (call_targets L call)"
proof (induction rule: loads.induct)
  case (circular p a loaded)
  then have "in_cycle L a"
    by (auto simp: chain_to_def in_cycle_def)
  with circular(1) show ?case
    by (auto simp: finds_cycle_def intro: reaches.self)
next
  case (decode_err p a loaded data e)
  then show ?case
    using decode_loop_err [of "Decode L data" "[]"] by auto
next
  case (file_read p a loaded data ms' r)
  then have "finds_cycle L (loaded @ [a]) (doc_targets L (file_docs L a))"
    using chain_to_file [of L loaded a] by (auto simp: file_docs_def)
  then obtain b where b: "in_cycle L b"
      "b \<in> set loaded \<or> b = a \<or> (\<exists>t \<in> doc_targets L (file_docs L a). reaches L t b)"
    by (auto simp: finds_cycle_def)
  then have "b \<in> set loaded \<or> reaches L a b"
    using reaches_cases [of L a b] by blast
  with b(1) file_read(1) show ?case
    by (auto simp: finds_cycle_def)
qed (auto simp: finds_cycle_def)

lemma load_total_aux:
  assumes "finite {a. \<exists>data. ReadFile L a = Inr data}"
  shows "\<exists>r. load L loaded call = Some r"
  using assms
proof (induction "card ({a. \<exists>data. ReadFile L a = Inr data} - set loaded)" arbitrary: loaded call rule: less_induct)
  case less
  note fin = less.prems
  have path: "\<exists>r. load L loaded (LoadPath p) = Some r" for p
  proof (cases "\<exists>a data. Abs L p = Inr a \<and> a \<notin> set loaded \<and> ReadFile L a = Inr data")
    case True
    then obtain a data where a: "Abs L p = Inr a" "a \<notin> set loaded" "ReadFile L a = Inr data"
      by blast
    have "card ({a. \<exists>data. ReadFile L a = Inr data} - set (loaded @ [a])) <
        card ({a. \<exists>data. ReadFile L a = Inr data} - set loaded)"
      using a fin by (intro psubset_card_mono) auto
    from less.hyps [OF this fin] a show ?thesis
      by (subst load.simps) (auto split: sum.splits)
  qed (subst load.simps, auto split: sum.splits)
  have globbed: "\<exists>r. load L loaded (LoadGlobbed ps out) = Some r" for ps out
  proof (induction ps arbitrary: out)
    case (Cons p ps)
    then show ?case
      using path [of p] by (subst load.simps) (auto split: sum.splits)
  qed (subst load.simps, simp)
  have docs: "\<exists>r. load L loaded (ExpandIncludes ms out) = Some r" for ms out
  proof (induction ms arbitrary: out)
    case (Cons m ms)
    show ?case
    proof (cases "Glob L (include_of L m)")
      case (Inr ps)
      then show ?thesis
        using Cons globbed [of ps out] by (subst load.simps) (auto split: sum.splits)
    qed (subst load.simps, simp add: Cons)
  qed (subst load.simps, simp)
  show ?case
    using path globbed docs by (cases call) auto
qed


text \<open>Loading always returns: whatever the files include, each other or themselves, \<open>LoadTreeMaps\<close> ends with the
  documents or an error. The file system may hold any finite number of readable files.\<close>

lemma load_terminates:
  assumes "finite {a. \<exists>data. ReadFile L a = Inr data}"
  shows "\<exists>r. LoadTreeMaps L path = Some r"
  using load_total_aux [OF assms] by (simp add: LoadTreeMaps_def)

text \<open>Two files that include each other, and one that includes nothing.\<close>

definition sample_loader :: "string loader" where
  "sample_loader =
     \<lparr>Abs = Inr,
      ReadFile = (\<lambda>a. if a = ''/a'' then Inr ''1'' else if a = ''/b'' then Inr ''2'' else if a = ''/c'' then Inr ''3''
                      else Inl ''no such file''),
      Glob = (\<lambda>p. Inr [p]),
      Decode = (\<lambda>data. if data = ''1'' then [Inr ''/b''] else if data = ''2'' then [Inr ''/c'', Inr ''/a''] else [Inr []]),
      include_of = (\<lambda>m. m)\<rparr>"

lemma sample_loader_simps [simp]:
  "Abs sample_loader = Inr" "include_of sample_loader = (\<lambda>m. m)" "Glob sample_loader = (\<lambda>p. Inr [p])"
  "ReadFile sample_loader ''/a'' = Inr ''1''" "ReadFile sample_loader ''/b'' = Inr ''2''"
  "ReadFile sample_loader ''/c'' = Inr ''3''"
  "Decode sample_loader ''1'' = [Inr ''/b'']" "Decode sample_loader ''2'' = [Inr ''/c'', Inr ''/a'']"
  "Decode sample_loader ''3'' = [Inr []]"
  by (simp_all add: sample_loader_def)

lemma sample_loader_finite: "finite {a. \<exists>data. ReadFile sample_loader a = Inr data}"
proof (rule finite_subset)
  show "{a. \<exists>data. ReadFile sample_loader a = Inr data} \<subseteq> {''/a'', ''/b'', ''/c''}"
    by (auto simp: sample_loader_def split: if_splits)
qed simp

lemma load_terminates_witness: "\<exists>r. LoadTreeMaps sample_loader ''/a'' = Some r"
  by (rule load_terminates [OF sample_loader_finite])

text \<open>C30. Circular includes are found, and nothing else is reported as one: a load that succeeds started at a file
  from which no file that includes itself, directly or through others, is reached; a load that reports a circular
  dependency started at one from which such a file is reached.\<close>

theorem load_finds_cycles:
  assumes "Abs L path = Inr a" "LoadTreeMaps L path = Some r"
  shows "case r of
      Inr ms \<Rightarrow> \<not> (\<exists>b. reaches L a b \<and> in_cycle L b)
    | Inl (CircularDependency ps) \<Rightarrow> (\<exists>b. reaches L a b \<and> in_cycle L b)
    | Inl (LoadError err) \<Rightarrow> True"
proof -
  have l: "loads L [] (LoadPath path) r"
    using assms(2) by (simp add: LoadTreeMaps_def load_loads)
  show ?thesis
    using loads_clear [OF l] loads_circular [OF l] assms(1)
    by (auto simp: clear_of_def finds_cycle_def split: sum.splits load_error.splits)
qed

theorem load_finds_cycles_witness:
  "LoadTreeMaps sample_loader ''/a'' = Some (Inl (CircularDependency [''/a'', ''/b''])) \<and>
   LoadTreeMaps sample_loader ''/c'' = Some (Inr [[]]) \<and>
   (\<exists>b. reaches sample_loader ''/a'' b \<and> in_cycle sample_loader b) \<and>
   \<not> (\<exists>b. reaches sample_loader ''/c'' b \<and> in_cycle sample_loader b)"
proof -
  have c: "load sample_loader ps (LoadPath ''/c'') = Some (Inr [[]])" if "''/c'' \<notin> set ps" for ps
    using that by (simp add: load.simps [of _ _ "LoadPath _"] load.simps [of _ _ "ExpandIncludes _ _"])
  have b: "load sample_loader [''/a''] (LoadPath ''/b'') = Some (Inl (CircularDependency [''/a'', ''/b'']))"
    by (simp add: load.simps [of _ _ "LoadPath _"] load.simps [of _ _ "ExpandIncludes _ _"]
        load.simps [of _ _ "LoadGlobbed _ _"])
  have a: "LoadTreeMaps sample_loader ''/a'' = Some (Inl (CircularDependency [''/a'', ''/b'']))"
    using b by (simp add: LoadTreeMaps_def load.simps [of _ "[]" "LoadPath _"] load.simps [of _ _ "ExpandIncludes _ _"]
        load.simps [of _ _ "LoadGlobbed _ _"])
  show ?thesis
    using a c [of "[]"] load_finds_cycles [OF _ a] load_finds_cycles [of sample_loader "''/c''" "''/c''" "Inr [[]]"]
    by (simp add: LoadTreeMaps_def)
qed

section \<open>Edit expressions, completed\<close>

lemma cut_eq_append: "CHR ''='' \<notin> set l \<Longrightarrow> cut_eq (l @ ''='' @ r) = Some (l, r)"
  by (induction l) (auto simp: cut_eq_def split: list.splits)

text \<open>An expression that has been completed is left as it is.\<close>

lemma edit_expr_idem:
  assumes "\<And>s. HasPrefix (Quote s) [CHR 0x22]"
  shows "edit_expr Quote is_int (edit_expr Quote is_int expr) = edit_expr Quote is_int expr"
proof (cases "cut_eq expr")
  case None
  then show ?thesis
    by (simp add: edit_expr_def)
next
  case (Some lr)
  obtain l r where lr: "lr = (l, r)"
    by (cases lr)
  have "CHR ''='' \<notin> set l"
    using Some lr by (auto simp: cut_eq_def dest: set_takeWhileD split: list.splits)
  then show ?thesis
    using Some lr assms cut_eq_append [of l] cut_eq_append [of "''.[]'' @ l"] cut_eq_append [of "''.[].'' @ l"]
    by (simp add: edit_expr_def Let_def HasPrefix_def)
qed

end
