(* ===== verification/Schema.thy ===== *)
theory Schema
  imports ConfigLoad
begin

text \<open>
  \<open>pkg/config/schema.go\<close>: the schema of a configuration document, generated from the Go types of
  \<open>config.go\<close>, the rules of its own for sizes, durations, handlers and filters, and the validation of
  documents. The rules of the package \<open>mojatter/tree/schema\<close> are constructors of a datatype: what they
  accept (\<open>schema.ValidateWithPrefix\<close>) is a parameter. Go types are a datatype with what
  \<open>package reflect\<close> shows of them. \<open>strings.ToLower\<close> is modelled on ASCII.
\<close>

section \<open>Rules\<close>

text \<open>\<open>RuleMap None\<close> is \<open>schema.Map{}\<close>, which accepts any keys. Go maps are association lists without
  order.\<close>

datatype rule =
    RuleString "string list"
  | RuleInt "int option" "int option"
  | RuleFloat
  | RuleBool
  | RuleArray
  | RuleEvery "(string \<times> rule) list"
  | RuleMap "(string \<times> rule) list option"
  | RuleOr "rule list"
  | DurationRule int
  | SizeRule
  | HandlerDispatch
  | FilterDispatch

type_synonym query_rules = "(string \<times> rule) list"

text \<open>\<open>m[k] = v\<close>.\<close>

fun map_put :: "'k \<Rightarrow> 'v \<Rightarrow> ('k \<times> 'v) list \<Rightarrow> ('k \<times> 'v) list" where
  "map_put k v [] = [(k, v)]"
| "map_put k v ((k', v') # kvs) = (if k' = k then (k, v) # kvs else (k', v') # map_put k v kvs)"

lemma map_of_put [simp]: "map_of (map_put k v kvs) = (map_of kvs)(k \<mapsto> v)"
  by (induction k v kvs rule: map_put.induct) (auto simp: fun_eq_iff)

section \<open>Go types\<close>

text \<open>
  A named type that implements \<open>SchemaRuler\<close> (\<open>GoRuler\<close>) does so with a method on values (\<open>ValueRule\<close>) or on
  pointers (\<open>PointerRule\<close>), which may answer differently, or panic, when the pointer is \<open>nil\<close>. \<open>GoInt\<close> stands for
  every integer kind, \<open>GoFloat\<close> for both floating-point kinds, \<open>GoSlice\<close> for slices and arrays, \<open>GoOther\<close> for
  the other kinds. A field has its name, whether it is exported, its \<open>yaml\<close> tag and its type.
\<close>

datatype ruler = ValueRule rule | PointerRule rule "rule go"

datatype gotype =
    GoString | GoInt | GoFloat | GoBool | GoTreeMap | GoOther
  | GoRuler ruler gotype
  | GoSlice gotype
  | GoMap gotype
  | GoPointer gotype
  | GoStruct "gofield list"
and gofield = GoField string bool string gotype

definition lower_byte :: "char \<Rightarrow> char" where
  "lower_byte c = (if 65 \<le> (of_char c :: nat) \<and> (of_char c :: nat) \<le> 90 then char_of ((of_char c :: nat) + 32) else c)"

definition ToLower :: "string \<Rightarrow> string" where
  "ToLower s = map lower_byte s"

text \<open>The key of a field, when it has one.\<close>

definition yaml_key :: "string \<Rightarrow> bool \<Rightarrow> string \<Rightarrow> string option" where
  "yaml_key fname exported tag =
     (if \<not> exported then None
      else if tag = ''-'' then None
      else let name = takeWhile (\<lambda>c. c \<noteq> CHR '','') tag
           in Some (if name = [] then ToLower fname else name))"

text \<open>A pointer type has the methods on values too, but calling one through a nil pointer panics.\<close>

fun ruleForType :: "gotype \<Rightarrow> rule go" and schema_fields :: "gofield list \<Rightarrow> (string \<times> rule) list \<Rightarrow> (string \<times> rule) list go" where
  "ruleForType (GoRuler ruler t) = (case ruler of ValueRule r \<Rightarrow> Inr r | PointerRule r _ \<Rightarrow> Inr r)"
| "ruleForType GoTreeMap = Inr (RuleMap None)"
| "ruleForType GoString = Inr (RuleString [])"
| "ruleForType GoInt = Inr (RuleInt None None)"
| "ruleForType GoFloat = Inr RuleFloat"
| "ruleForType GoBool = Inr RuleBool"
| "ruleForType (GoSlice t) = go_bind (ruleForType t) (\<lambda>r. Inr (RuleEvery [(''.'', r)]))"
| "ruleForType (GoMap t) = go_bind (ruleForType t) (\<lambda>r. Inr (RuleEvery [(''.'', r)]))"
| "ruleForType (GoStruct fs) = go_bind (schema_fields fs []) (\<lambda>rules. Inr (RuleMap (Some rules)))"
| "ruleForType (GoPointer t) =
     (case t of
        GoRuler (ValueRule r) u \<Rightarrow> Inl NilDereference
      | GoRuler (PointerRule r r_nil) u \<Rightarrow> r_nil
      | _ \<Rightarrow> ruleForType t)"
| "ruleForType GoOther = Inr (RuleMap None)"
| "schema_fields [] rules = Inr rules"
| "schema_fields (GoField fname exported tag t # fs) rules =
     (case yaml_key fname exported tag of
        None \<Rightarrow> schema_fields fs rules
      | Some name \<Rightarrow> go_bind (ruleForType t) (\<lambda>r. schema_fields fs (map_put name r rules)))"

definition schemaMapFromType :: "gofield list \<Rightarrow> (string \<times> rule) list go" where
  "schemaMapFromType fs = schema_fields fs []"

text \<open>\<open>NumField\<close> of a type that is no struct panics.\<close>

fun struct_fields :: "gotype \<Rightarrow> gofield list go" where
  "struct_fields (GoStruct fs) = Inr fs"
| "struct_fields (GoRuler ruler t) = struct_fields t"
| "struct_fields t = Inl (PanicMsg ''reflect: NumField of non-struct type'')"

definition SchemaFromStruct :: "gotype \<Rightarrow> (string \<times> rule) list go" where
  "SchemaFromStruct t =
     go_bind (struct_fields (case t of GoPointer t \<Rightarrow> t | _ \<Rightarrow> t)) schemaMapFromType"

section \<open>The types of a configuration\<close>

abbreviation tagged :: "string \<Rightarrow> string \<Rightarrow> gotype \<Rightarrow> gofield" where
  "tagged fname tag t \<equiv> GoField fname True tag t"

definition Size_type :: gotype where
  "Size_type = GoRuler (ValueRule SizeRule) GoInt"

definition Duration_type :: gotype where
  "Duration_type = GoRuler (ValueRule (DurationRule 0)) GoInt"

definition Server_type :: gotype where
  "Server_type = GoStruct [
     tagged ''Name'' ''name'' GoString, tagged ''Concurrency'' ''concurrency'' GoInt,
     tagged ''ReadBufferSize'' ''readBufferSize'' Size_type, tagged ''WriteBufferSize'' ''writeBufferSize'' Size_type,
     tagged ''MaxConnsPerIP'' ''maxConnsPerIP'' GoInt, tagged ''MaxRequestsPerConn'' ''maxRequestsPerConn'' GoInt,
     tagged ''MaxRequestBodySize'' ''maxRequestBodySize'' Size_type,
     tagged ''ReadTimeout'' ''readTimeout'' Duration_type, tagged ''WriteTimeout'' ''writeTimeout'' Duration_type,
     tagged ''IdleTimeout'' ''idleTimeout'' Duration_type,
     tagged ''MaxIdleWorkerDuration'' ''maxIdleWorkerDuration'' Duration_type,
     tagged ''TCPKeepalivePeriod'' ''tcpKeepalivePeriod'' Duration_type,
     tagged ''SleepWhenConcurrencyLimitsExceeded'' ''sleepWhenConcurrencyLimitsExceeded'' Duration_type,
     tagged ''DisableKeepalive'' ''disableKeepalive'' GoBool, tagged ''TCPKeepalive'' ''tcpKeepalive'' GoBool,
     tagged ''ReduceMemoryUsage'' ''reduceMemoryUsage'' GoBool,
     tagged ''DisablePreParseMultipartForm'' ''disablePreParseMultipartForm'' GoBool,
     tagged ''LogAllErrors'' ''logAllErrors'' GoBool, tagged ''SecureErrorLogMessage'' ''secureErrorLogMessage'' GoBool,
     tagged ''DisableHeaderNamesNormalizing'' ''disableHeaderNamesNormalizing'' GoBool,
     tagged ''NoDefaultServerHeader'' ''noDefaultServerHeader'' GoBool, tagged ''NoDefaultDate'' ''noDefaultDate'' GoBool,
     tagged ''NoDefaultContentType'' ''noDefaultContentType'' GoBool,
     tagged ''CloseOnShutdown'' ''closeOnShutdown'' GoBool, tagged ''StreamRequestBody'' ''streamRequestBody'' GoBool]"

definition SSL_type :: gotype where
  "SSL_type = GoStruct [
     tagged ''CertFile'' ''certFile'' GoString, tagged ''KeyFile'' ''keyFile'' GoString,
     tagged ''AutoCert'' ''autoCert'' GoBool, tagged ''AutoCertCacheDir'' ''autoCertCacheDir'' GoString]"

definition Rotation_type :: gotype where
  "Rotation_type = GoStruct [
     tagged ''MaxSize'' ''maxSize'' GoInt, tagged ''MaxBackups'' ''maxBackups'' GoInt, tagged ''MaxAge'' ''maxAge'' GoInt,
     tagged ''Compress'' ''compress'' GoBool, tagged ''LocalTime'' ''localTime'' GoBool]"

definition Log_type :: gotype where
  "Log_type = GoStruct [
     tagged ''Output'' ''output'' GoString, tagged ''Prefix'' ''prefix'' GoString,
     tagged ''Flags'' ''flags'' (GoSlice GoString), tagged ''Rotation'' [] Rotation_type]"

definition AccessLog_type :: gotype where
  "AccessLog_type = GoStruct [
     tagged ''Output'' ''output'' GoString, tagged ''Format'' ''format'' GoString,
     tagged ''QueueSize'' ''queueSize'' GoInt, tagged ''BufferSize'' ''bufferSize'' GoInt,
     tagged ''FlushInterval'' ''flushInterval'' GoInt, tagged ''Rotation'' [] Rotation_type]"

definition Route_type :: gotype where
  "Route_type = GoStruct [
     tagged ''Path'' ''path'' GoString, tagged ''Match'' ''match'' GoString,
     tagged ''Methods'' ''methods'' (GoSlice GoString), tagged ''Filters'' ''filters'' (GoSlice GoString),
     tagged ''Rewrite'' ''rewrite'' GoString, tagged ''RewriteAppendQueryString'' ''rewriteAppendQueryString'' GoBool,
     tagged ''Handler'' ''handler'' GoString, tagged ''Status'' ''status'' GoInt,
     tagged ''StatusMessage'' ''statusMessage'' GoString, tagged ''NextIfNotFound'' ''nextIfNotFound'' GoBool]"

definition RoutesCache_type :: gotype where
  "RoutesCache_type = GoStruct [
     tagged ''Enable'' ''enable'' GoBool, tagged ''Expire'' ''expire'' GoInt, tagged ''Interval'' ''interval'' GoInt,
     tagged ''MaxEntries'' ''maxEntries'' GoInt]"

definition Config_type :: gotype where
  "Config_type = GoStruct [
     tagged ''Host'' ''host'' GoString, tagged ''Listen'' ''listen'' GoString, tagged ''SSL'' ''ssl'' SSL_type,
     tagged ''Root'' ''root'' GoString, tagged ''Server'' ''server'' Server_type, tagged ''Log'' ''log'' Log_type,
     tagged ''AccessLog'' ''accessLog'' AccessLog_type, tagged ''ErrorPages'' ''errorPages'' (GoMap GoString),
     tagged ''Filters'' ''filters'' (GoMap GoTreeMap), tagged ''Handlers'' ''handlers'' (GoMap GoTreeMap),
     tagged ''Routes'' ''routes'' (GoSlice Route_type), tagged ''RoutesCache'' ''routesCache'' RoutesCache_type,
     tagged ''ShutdownTimeout'' ''shutdownTimeout'' GoString]"

definition rootRules :: "query_rules go" where
  "rootRules =
     go_bind (SchemaFromStruct Config_type) (\<lambda>root.
       let root = map_put ''handlers'' (RuleEvery [(''.'', HandlerDispatch)]) root;
           root = map_put ''filters'' (RuleEvery [(''.'', FilterDispatch)]) root
       in Inr [(''.'', RuleMap (Some root))])"

section \<open>The schema of a struct\<close>

text \<open>The keys of a struct, with the types of their fields.\<close>

fun field_types :: "gofield list \<Rightarrow> (string \<times> gotype) list" where
  "field_types [] = []"
| "field_types (GoField fname exported tag t # fs) =
     (case yaml_key fname exported tag of None \<Rightarrow> field_types fs | Some k \<Rightarrow> (k, t) # field_types fs)"

definition rule_of :: "gotype \<Rightarrow> rule" where
  "rule_of t = (case ruleForType t of Inl e \<Rightarrow> RuleMap None | Inr r \<Rightarrow> r)"

lemma not_isl_iff: "\<not> isl x \<longleftrightarrow> (\<exists>r. x = Inr r)"
  by (cases x) simp_all

lemma schema_fields_rules:
  assumes "list_all (\<lambda>(k, t). \<exists>r. ruleForType t = Inr r) (field_types fs)" "distinct (map fst (field_types fs))"
  shows "\<exists>rules'. schema_fields fs rules = Inr rules' \<and>
    map_of rules' = map_of rules ++ (map_option rule_of \<circ> map_of (field_types fs))"
  using assms
proof (induction fs arbitrary: rules)
  case Nil
  then show ?case
    by (simp add: fun_eq_iff map_add_def)
next
  case (Cons f fs)
  obtain fname exported tag t where f: "f = GoField fname exported tag t"
    by (cases f)
  show ?case
  proof (cases "yaml_key fname exported tag")
    case None
    with Cons f show ?thesis by simp
  next
    case (Some k)
    then obtain r where r: "ruleForType t = Inr r" "rule_of t = r"
      using Cons.prems f by (auto simp: rule_of_def)
    obtain rules' where "schema_fields fs (map_put k r rules) = Inr rules'"
      "map_of rules' = map_of (map_put k r rules) ++ (map_option rule_of \<circ> map_of (field_types fs))"
      using Cons Some f by fastforce
    moreover have "map_of (field_types fs) k = None"
      using Cons.prems Some f by (simp add: map_of_eq_None_iff)
    ultimately show ?thesis
      using f Some r by (auto simp: fun_eq_iff map_add_def split: option.splits)
  qed
qed






section \<open>The rules of this package\<close>

text \<open>What the rules ask of a \<open>tree.Node\<close>; \<open>nd_type\<close> is the text of its \<open>type\<close> entry, when it is a map.\<close>

record 'n node_api =
  nd_IsNil :: "'n \<Rightarrow> bool"
  nd_IsString :: "'n \<Rightarrow> bool"
  nd_IsNumber :: "'n \<Rightarrow> bool"
  nd_IsMap :: "'n \<Rightarrow> bool"
  nd_TypeName :: "'n \<Rightarrow> string"
  nd_String :: "'n \<Rightarrow> string"
  nd_Int64 :: "'n \<Rightarrow> int"
  nd_type :: "'n \<Rightarrow> string"

text \<open>The errors of the package \<open>schema\<close> are the type \<open>'e\<close>.\<close>

datatype 'e rule_error =
    InvalidDuration string string string
  | ExpectedDuration string string
  | DurationTooShort string int int
  | SizeRuleError string size_error
  | ExpectedSize string string
  | ExpectedMap string string
  | TypeRequired string
  | SchemaError 'e

definition DurationRule_Validate :: "'n node_api \<Rightarrow> parse_duration \<Rightarrow> int \<Rightarrow> 'n \<Rightarrow> string \<Rightarrow> 'e rule_error option" where
  "DurationRule_Validate N ParseDuration min_d n q =
     (if nd_IsNil N n then None
      else let check = (\<lambda>d. if min_d > 0 \<and> d < min_d then Some (DurationTooShort q d min_d) else None)
           in if nd_IsString N n then
                (case ParseDuration (nd_String N n) of
                   Inl err \<Rightarrow> Some (InvalidDuration q (nd_String N n) err)
                 | Inr d \<Rightarrow> check d)
              else if nd_IsNumber N n then check (nd_Int64 N n)
              else Some (ExpectedDuration q (nd_TypeName N n)))"

definition SizeRule_Validate :: "'n node_api \<Rightarrow> 'n \<Rightarrow> string \<Rightarrow> 'e rule_error option" where
  "SizeRule_Validate N n q =
     (if nd_IsNil N n then None
      else if nd_IsString N n then
        (case parseSize (nd_String N n) of Inl err \<Rightarrow> Some (SizeRuleError q err) | Inr _ \<Rightarrow> None)
      else if nd_IsNumber N n then None
      else Some (ExpectedSize q (nd_TypeName N n)))"

text \<open>The registries of handler and filter schemas.\<close>

type_synonym schemas = "(string \<times> query_rules) list"

definition RegisterHandlerSchema :: "string \<Rightarrow> query_rules \<Rightarrow> schemas \<Rightarrow> schemas" where
  "RegisterHandlerSchema typeName rules handlerSchemas = map_put typeName rules handlerSchemas"

definition RegisterFilterSchema :: "string \<Rightarrow> query_rules \<Rightarrow> schemas \<Rightarrow> schemas" where
  "RegisterFilterSchema typeName rules filterSchemas = map_put typeName rules filterSchemas"

definition lookupHandlerRules :: "schemas \<Rightarrow> string \<Rightarrow> query_rules option" where
  "lookupHandlerRules handlerSchemas t = map_of handlerSchemas t"

definition lookupFilterRules :: "schemas \<Rightarrow> string \<Rightarrow> query_rules option" where
  "lookupFilterRules filterSchemas t = map_of filterSchemas t"

type_synonym ('n, 'e) validate_with_prefix = "'n \<Rightarrow> query_rules \<Rightarrow> string \<Rightarrow> 'e option"

definition HandlerDispatch_Validate :: "'n node_api \<Rightarrow> ('n, 'e) validate_with_prefix \<Rightarrow> schemas \<Rightarrow> 'n \<Rightarrow> string \<Rightarrow>
    'e rule_error option" where
  "HandlerDispatch_Validate N ValidateWithPrefix handlerSchemas n q =
     (if nd_IsNil N n then None
      else if \<not> nd_IsMap N n then Some (ExpectedMap q (nd_TypeName N n))
      else if nd_type N n = [] then Some (TypeRequired q)
      else case lookupHandlerRules handlerSchemas (nd_type N n) of
             None \<Rightarrow> None
           | Some rules \<Rightarrow> map_option SchemaError (ValidateWithPrefix n rules q))"

definition FilterDispatch_Validate :: "'n node_api \<Rightarrow> ('n, 'e) validate_with_prefix \<Rightarrow> schemas \<Rightarrow> 'n \<Rightarrow> string \<Rightarrow>
    'e rule_error option" where
  "FilterDispatch_Validate N ValidateWithPrefix filterSchemas n q =
     (if nd_IsNil N n then None
      else if \<not> nd_IsMap N n then Some (ExpectedMap q (nd_TypeName N n))
      else if nd_type N n = [] then Some (TypeRequired q)
      else case lookupFilterRules filterSchemas (nd_type N n) of
             None \<Rightarrow> None
           | Some rules \<Rightarrow> map_option SchemaError (ValidateWithPrefix n rules q))"

section \<open>Validation of documents\<close>

text \<open>The errors of all documents joined; \<open>errors.As\<close> looks for an \<open>ErrQuery\<close> in them.\<close>

datatype 'e invalid = Joined "'e list" | MalformedRule "'e list"

fun validate_loop :: "('m, 'e) validate_with_prefix \<Rightarrow> query_rules \<Rightarrow> nat \<Rightarrow> nat \<Rightarrow> 'm list \<Rightarrow> 'e list \<Rightarrow> 'e list" where
  "validate_loop ValidateWithPrefix rules n i [] errs = errs"
| "validate_loop ValidateWithPrefix rules n i (m # ms) errs =
     (let prefix = (if n > 1 then ''documents['' @ digits (int i) @ '']'' else [])
      in case ValidateWithPrefix m rules prefix of
           None \<Rightarrow> validate_loop ValidateWithPrefix rules n (Suc i) ms errs
         | Some err \<Rightarrow> validate_loop ValidateWithPrefix rules n (Suc i) ms (errs @ [err]))"

definition ValidateTreeMaps :: "('m, 'e) validate_with_prefix \<Rightarrow> ('e \<Rightarrow> bool) \<Rightarrow> 'm list \<Rightarrow> 'e invalid option go" where
  "ValidateTreeMaps ValidateWithPrefix is_ErrQuery ms =
     go_bind rootRules (\<lambda>rules.
       let errs = validate_loop ValidateWithPrefix rules (length ms) 0 ms []
       in Inr (if errs = [] then None
               else if list_ex is_ErrQuery errs then Some (MalformedRule errs)
               else Some (Joined errs)))"

lemma validate_loop_app:
  "validate_loop V rules n i ms errs = errs @ validate_loop V rules n i ms []"
proof (induction ms arbitrary: i errs)
  case (Cons m ms)
  show ?case
  proof (cases "V m rules (if n > 1 then ''documents['' @ digits (int i) @ '']'' else [])")
    case None
    then show ?thesis
      using Cons.IH [of "Suc i" errs] by (simp add: Let_def)
  next
    case (Some err)
    then show ?thesis
      using Cons.IH [of "Suc i" "errs @ [err]"] Cons.IH [of "Suc i" "[err]"] by (simp add: Let_def)
  qed
qed simp

lemma validate_loop_filter:
  "validate_loop V rules n i ms [] = List.map_filter (\<lambda>(i, m). V m rules
     (if n > 1 then ''documents['' @ digits (int i) @ '']'' else [])) (enumerate i ms)"
proof (induction ms arbitrary: i)
  case (Cons m ms)
  then show ?case
    using validate_loop_app [of V rules n "Suc i" ms]
    by (cases "V m rules (if n > 1 then ''documents['' @ digits (int i) @ '']'' else [])") (auto simp: Let_def)
qed simp

text \<open>The fields of a configuration, and the schema of a document.\<close>

definition Config_fields :: "gofield list" where
  "Config_fields = (case Config_type of GoStruct fs \<Rightarrow> fs | _ \<Rightarrow> [])"

lemma Config_keys:
  "map fst (field_types Config_fields) = [''host'', ''listen'', ''ssl'', ''root'', ''server'', ''log'', ''accessLog'',
     ''errorPages'', ''filters'', ''handlers'', ''routes'', ''routesCache'', ''shutdownTimeout'']"
  by code_simp

lemma Config_rules: "list_all (\<lambda>(k, t). \<not> isl (ruleForType t)) (field_types Config_fields)"
  by code_simp

lemma rootRules_keys:
  "\<exists>root. rootRules = Inr [(''.'', RuleMap (Some root))] \<and>
     map_of root = (map_option rule_of \<circ> map_of (field_types Config_fields))
       (''handlers'' \<mapsto> RuleEvery [(''.'', HandlerDispatch)], ''filters'' \<mapsto> RuleEvery [(''.'', FilterDispatch)])"
proof -
  have c: "Config_type = GoStruct Config_fields"
    by (simp add: Config_fields_def Config_type_def)
  have "distinct (map fst (field_types Config_fields))"
    unfolding Config_keys by simp
  moreover have "list_all (\<lambda>(k, t). \<exists>r. ruleForType t = Inr r) (field_types Config_fields)"
    using Config_rules by (simp add: not_isl_iff)
  ultimately have "\<exists>rules. SchemaFromStruct Config_type = Inr rules \<and>
      map_of rules = map_option rule_of \<circ> map_of (field_types Config_fields)"
    using schema_fields_rules [of Config_fields "[]"] by (simp add: c SchemaFromStruct_def schemaMapFromType_def)
  then obtain rules where "SchemaFromStruct Config_type = Inr rules"
    "map_of rules = map_option rule_of \<circ> map_of (field_types Config_fields)"
    by blast
  then show ?thesis
    by (simp add: rootRules_def Let_def)
qed

text \<open>A scalar as the validator's node and as the decoder's: a string, an integer, a float or something else.\<close>

definition same_scalar :: "'n node_api \<Rightarrow> 'n \<Rightarrow> yaml_scalar \<Rightarrow> bool" where
  "same_scalar N n v \<longleftrightarrow> \<not> nd_IsNil N n \<and>
     (if nd_IsString N n then y_Tag v = ''!!str'' \<and> y_Value v = nd_String N n
      else if nd_IsNumber N n then y_Tag v = ''!!int'' \<or> y_Tag v = ''!!float''
      else y_Tag v \<noteq> ''!!str'' \<and> y_Tag v \<noteq> ''!!int'' \<and> y_Tag v \<noteq> ''!!float'')"

lemma scalar_cases:
  assumes "same_scalar N n v"
  obtains (str) "nd_IsString N n" "y_Tag v = ''!!str''" "y_Value v = nd_String N n"
  | (num) "\<not> nd_IsString N n" "nd_IsNumber N n" "y_Tag v = ''!!int''"
  | (flt) "\<not> nd_IsString N n" "nd_IsNumber N n" "y_Tag v = ''!!float''"
  | (other) "\<not> nd_IsString N n" "\<not> nd_IsNumber N n" "y_Tag v \<noteq> ''!!str''" "y_Tag v \<noteq> ''!!int''" "y_Tag v \<noteq> ''!!float''"
  using assms unfolding same_scalar_def by (cases "nd_IsString N n"; cases "nd_IsNumber N n") auto

lemma SizeRule_decoder:
  assumes "same_scalar N n v"
  shows "((SizeRule_Validate N n q :: 'e rule_error option) = None) = (\<not> isl (Size_UnmarshalYAML v) \<or>
      y_Tag v = ''!!float'' \<or> (y_Tag v = ''!!int'' \<and> isl (y_DecodeInt v)))"
proof -
  have "\<not> nd_IsNil N n"
    using assms by (simp add: same_scalar_def)
  with assms show ?thesis
    by (elim scalar_cases)
      (simp_all add: SizeRule_Validate_def Size_UnmarshalYAML_def split: sum.splits)
qed

lemma DurationRule_decoder:
  assumes "same_scalar N n v"
  shows "((DurationRule_Validate N ParseDuration 0 n q :: 'e rule_error option) = None) =
    (\<not> isl (Duration_UnmarshalYAML ParseDuration v) \<or>
      y_Tag v = ''!!float'' \<or> (y_Tag v = ''!!int'' \<and> isl (y_DecodeInt v)))"
proof -
  have "\<not> nd_IsNil N n"
    using assms by (simp add: same_scalar_def)
  with assms show ?thesis
    by (elim scalar_cases)
      (simp_all add: DurationRule_Validate_def Duration_UnmarshalYAML_def split: sum.splits)
qed

text \<open>C33. The rules for sizes and durations accept a scalar exactly when the decoder does, except for numbers: a float,
  or an integer that the decoder cannot represent, passes the validation and fails in the decoder.\<close>

theorem value_rules_and_decoders:
  assumes "same_scalar N n v"
  shows "((SizeRule_Validate N n q :: 'e rule_error option) = None) = (\<not> isl (Size_UnmarshalYAML v) \<or> y_Tag v = ''!!float'' \<or>
      (y_Tag v = ''!!int'' \<and> isl (y_DecodeInt v))) \<and>
    ((DurationRule_Validate N ParseDuration 0 n q :: 'e rule_error option) = None) = (\<not> isl (Duration_UnmarshalYAML ParseDuration v) \<or>
      y_Tag v = ''!!float'' \<or> (y_Tag v = ''!!int'' \<and> isl (y_DecodeInt v)))"
  using SizeRule_decoder [OF assms] DurationRule_decoder [OF assms] by blast

text \<open>Strings and numbers as nodes: a string is itself, a number is its text.\<close>

definition sample_nodes :: "(string + string) node_api" where
  "sample_nodes =
     \<lparr>nd_IsNil = (\<lambda>n. False), nd_IsString = isl, nd_IsNumber = (\<lambda>n. \<not> isl n), nd_IsMap = (\<lambda>n. False),
      nd_TypeName = (\<lambda>n. ''value''), nd_String = projl, nd_Int64 = (\<lambda>n. decimal_value (projr n)), nd_type = (\<lambda>n. [])\<rparr>"

theorem value_rules_and_decoders_witness:
  "(SizeRule_Validate sample_nodes (Inl ''4k'') ''.size'' :: unit rule_error option) = None \<and> \<not> isl (Size_UnmarshalYAML \<lparr>y_Tag = ''!!str'',
     y_Value = ''4k'', y_DecodeInt = Inl ''no integer''\<rparr>) \<and>
   (SizeRule_Validate sample_nodes (Inr ''1.5'') ''.size'' :: unit rule_error option) = None \<and> isl (Size_UnmarshalYAML \<lparr>y_Tag = ''!!float'',
     y_Value = ''1.5'', y_DecodeInt = Inl ''no integer''\<rparr>)"
proof -
  have "parseSize ''4k'' = Inr 4096"
    by code_simp
  then show ?thesis
    using value_rules_and_decoders [where 'e = unit, of sample_nodes "Inl ''4k''"
        "\<lparr>y_Tag = ''!!str'', y_Value = ''4k'', y_DecodeInt = Inl ''no integer''\<rparr>" "''.size''"]
      value_rules_and_decoders [where 'e = unit, of sample_nodes "Inr ''1.5''"
        "\<lparr>y_Tag = ''!!float'', y_Value = ''1.5'', y_DecodeInt = Inl ''no integer''\<rparr>" "''.size''"]
    by (simp add: same_scalar_def sample_nodes_def Size_UnmarshalYAML_def)
qed

text \<open>C31. Validation passes documents whose top-level keys are those of \<open>Config\<close>, with the handler and filter
  dispatch in place of their generated rules, and reports the errors of all documents, in order; with several
  documents each error is prefixed with the document's index. An error in a rule itself marks the result as internal.\<close>

theorem validate_documents:
  "\<exists>root errs. map_of root = (map_option rule_of \<circ> map_of (field_types Config_fields))
       (''handlers'' \<mapsto> RuleEvery [(''.'', HandlerDispatch)], ''filters'' \<mapsto> RuleEvery [(''.'', FilterDispatch)]) \<and>
     map fst (field_types Config_fields) = [''host'', ''listen'', ''ssl'', ''root'', ''server'', ''log'', ''accessLog'',
       ''errorPages'', ''filters'', ''handlers'', ''routes'', ''routesCache'', ''shutdownTimeout''] \<and>
     errs = List.map_filter (\<lambda>(i, m). V m [(''.'', RuleMap (Some root))]
       (if length ms > 1 then ''documents['' @ digits (int i) @ '']'' else [])) (enumerate 0 ms) \<and>
     ValidateTreeMaps V is_ErrQuery ms =
       Inr (if errs = [] then None else Some (if list_ex is_ErrQuery errs then MalformedRule errs else Joined errs))"
proof -
  obtain root where root: "rootRules = Inr [(''.'', RuleMap (Some root))]"
    "map_of root = (map_option rule_of \<circ> map_of (field_types Config_fields))
       (''handlers'' \<mapsto> RuleEvery [(''.'', HandlerDispatch)], ''filters'' \<mapsto> RuleEvery [(''.'', FilterDispatch)])"
    using rootRules_keys by blast
  let ?errs = "List.map_filter (\<lambda>(i, m). V m [(''.'', RuleMap (Some root))]
       (if length ms > 1 then ''documents['' @ digits (int i) @ '']'' else [])) (enumerate 0 ms)"
  have "ValidateTreeMaps V is_ErrQuery ms =
       Inr (if ?errs = [] then None else Some (if list_ex is_ErrQuery ?errs then MalformedRule ?errs else Joined ?errs))"
    by (simp add: ValidateTreeMaps_def root(1) validate_loop_filter Let_def)
  with root(2) Config_keys show ?thesis
    by - (rule exI [of _ root], rule exI [of _ ?errs], intro conjI refl; assumption)
qed

end
