(* ===== verification/Listeners.thy ===== *)
theory Listeners
  imports ConfigTypes UtilHttp "HOL-Library.Multiset"
begin

text \<open>
  \<open>pkg/net\<close>: the network of a listen address, keep-alive on accepted connections, the TLS configuration of the
  hosts that share a listener and the choice of a certificate for a handshake. Certificates (\<open>'c\<close>) and client hellos
  (\<open>'h\<close>) are those of \<open>crypto/tls\<close>; reading a key pair, creating a directory and the \<open>autocert\<close> manager are
  fields of a record.
\<close>

section \<open>TCP\<close>

definition GetNetwork :: "string \<Rightarrow> string" where
  "GetNetwork listen = (if length (filter (\<lambda>c. c = CHR '':'') listen) \<ge> 2 then ''tcp6'' else ''tcp4'')"

text \<open>An accepted connection: the keep-alive settings of its socket and whether it is closed.\<close>

record tcp_conn =
  tc_KeepAlive :: bool
  tc_KeepAlivePeriod :: int
  tc_Closed :: bool

record TcpKeepaliveListener =
  ln_Keepalive :: bool
  ln_KeepalivePeriod :: int

text \<open>The calls on the socket may fail. The second component is the socket afterwards, when one was accepted.\<close>

definition Accept :: "TcpKeepaliveListener \<Rightarrow> string + tcp_conn \<Rightarrow> (bool \<Rightarrow> string option) \<Rightarrow> (int \<Rightarrow> string option) \<Rightarrow>
    (string + tcp_conn) \<times> tcp_conn option" where
  "Accept ln accepted SetKeepAlive SetKeepAlivePeriod =
     (case accepted of
        Inl err \<Rightarrow> (Inl err, None)
      | Inr tc \<Rightarrow>
          (case SetKeepAlive (ln_Keepalive ln) of
             Some err \<Rightarrow> (Inl err, Some (tc\<lparr>tc_Closed := True\<rparr>))
           | None \<Rightarrow>
               let tc = tc\<lparr>tc_KeepAlive := ln_Keepalive ln\<rparr>
               in if ln_KeepalivePeriod ln > 0 then
                    (case SetKeepAlivePeriod (ln_KeepalivePeriod ln) of
                       Some err \<Rightarrow> (Inl err, Some (tc\<lparr>tc_Closed := True\<rparr>))
                     | None \<Rightarrow> let tc = tc\<lparr>tc_KeepAlivePeriod := ln_KeepalivePeriod ln\<rparr> in (Inr tc, Some tc))
                  else (Inr tc, Some tc)))"

text \<open>An error leaves no open socket behind; a connection that is returned is open, with the configured settings.\<close>

lemma Accept_sockets:
  assumes "\<And>tc. accepted = Inr tc \<Longrightarrow> \<not> tc_Closed tc"
  shows "case Accept ln accepted SetKeepAlive SetKeepAlivePeriod of
      (Inl err, socket) \<Rightarrow> (\<forall>tc. socket = Some tc \<longrightarrow> tc_Closed tc)
    | (Inr tc, socket) \<Rightarrow> socket = Some tc \<and> \<not> tc_Closed tc \<and> tc_KeepAlive tc = ln_Keepalive ln \<and>
        (ln_KeepalivePeriod ln > 0 \<longrightarrow> tc_KeepAlivePeriod tc = ln_KeepalivePeriod ln)"
  using assms by (auto simp: Accept_def Let_def split: sum.splits option.splits)

section \<open>TLS\<close>

record ('c, 'h) tls_api =
  LoadX509KeyPair :: "string \<Rightarrow> string \<Rightarrow> string + 'c"
  MkdirAll :: "string \<Rightarrow> string option"
  autocert_GetCertificate :: "string list \<Rightarrow> string \<Rightarrow> 'h \<Rightarrow> string + 'c"
  SupportsCertificate :: "'h \<Rightarrow> 'c \<Rightarrow> bool"

datatype tls_error = ErrNotSupportedWildcard | ErrNoCertificates | TLSError string

record ('c, 'h) tls_Config =
  NextProtos :: "string list"
  Certificates :: "'c list"
  GetCertificate_fn :: "('h \<Rightarrow> tls_error + 'c) option"

definition Http11 :: string where
  "Http11 = ''http/1.1''"

definition acme_ALPNProto :: string where
  "acme_ALPNProto = ''acme-tls/1''"

text \<open>\<open>vs := append(m[k], v); m[k] = vs\<close>.\<close>

fun map_append :: "'k \<Rightarrow> 'v \<Rightarrow> ('k \<times> 'v list) list \<Rightarrow> ('k \<times> 'v list) list" where
  "map_append k v [] = [(k, [v])]"
| "map_append k v ((k', vs) # m) = (if k' = k then (k', vs @ [v]) # m else (k', vs) # map_append k v m)"

text \<open>The loop over the configurations: the certificates, the protocols and the hosts of each cache directory.\<close>

fun tls_configs_loop :: "('c, 'h) tls_api \<Rightarrow> 't Config list \<Rightarrow> 'c list \<Rightarrow> string list \<Rightarrow> (string \<times> string list) list \<Rightarrow>
    tls_error + 'c list \<times> string list \<times> (string \<times> string list) list" where
  "tls_configs_loop A [] certs nextProtos dirs = Inr (certs, nextProtos, dirs)"
| "tls_configs_loop A (cfg # cfgs) certs nextProtos dirs =
     (if AutoCert (cfg_SSL cfg) then
        if CHR ''*'' \<in> List.set (cfg_Host cfg) then Inl ErrNotSupportedWildcard
        else tls_configs_loop A cfgs certs nextProtos (map_append (AutoCertCacheDir (cfg_SSL cfg)) (cfg_Host cfg) dirs)
      else if CertFile (cfg_SSL cfg) \<noteq> [] \<and> KeyFile (cfg_SSL cfg) \<noteq> [] then
        (case LoadX509KeyPair A (CertFile (cfg_SSL cfg)) (KeyFile (cfg_SSL cfg)) of
           Inl err \<Rightarrow> Inl (TLSError err)
         | Inr cert \<Rightarrow> tls_configs_loop A cfgs (certs @ [cert]) (StringSet_Append nextProtos [Http11]) dirs)
      else tls_configs_loop A cfgs certs nextProtos dirs)"

text \<open>The loop over the cache directories.\<close>

fun autocert_loop :: "('c, 'h) tls_api \<Rightarrow> (string \<times> string list) list \<Rightarrow> ('h \<Rightarrow> string + 'c) list \<Rightarrow> string list \<Rightarrow>
    tls_error + ('h \<Rightarrow> string + 'c) list \<times> string list" where
  "autocert_loop A [] fns nextProtos = Inr (fns, nextProtos)"
| "autocert_loop A ((cacheDir, hosts) # dirs) fns nextProtos =
     (case MkdirAll A cacheDir of
        Some err \<Rightarrow> Inl (TLSError err)
      | None \<Rightarrow> autocert_loop A dirs (fns @ [autocert_GetCertificate A hosts cacheDir])
                 (StringSet_Append nextProtos [Http11, acme_ALPNProto]))"

text \<open>\<open>multiTlsCert.GetCertificate\<close>: the configured certificates, then the managers, then the first certificate.\<close>

fun first_supported :: "('c \<Rightarrow> bool) \<Rightarrow> 'c list \<Rightarrow> 'c option" where
  "first_supported ok [] = None"
| "first_supported ok (cert # certs) = (if ok cert then Some cert else first_supported ok certs)"

fun first_success :: "'h \<Rightarrow> ('h \<Rightarrow> string + 'c) list \<Rightarrow> 'c option" where
  "first_success hello [] = None"
| "first_success hello (fn # fns) = (case fn hello of Inr cert \<Rightarrow> Some cert | Inl err \<Rightarrow> first_success hello fns)"

definition GetCertificate :: "('c, 'h) tls_api \<Rightarrow> 'c list \<Rightarrow> ('h \<Rightarrow> string + 'c) list \<Rightarrow> 'h \<Rightarrow> tls_error + 'c" where
  "GetCertificate A certs fns hello =
     (case first_supported (SupportsCertificate A hello) certs of
        Some cert \<Rightarrow> Inr cert
      | None \<Rightarrow>
          (case first_success hello fns of
             Some cert \<Rightarrow> Inr cert
           | None \<Rightarrow> (case certs of [] \<Rightarrow> Inl ErrNoCertificates | cert # _ \<Rightarrow> Inr cert)))"

text \<open>\<open>visit\<close> is the order in which the loop over the Go map of directories sees its entries.\<close>

definition MultiTLSConfig :: "('c, 'h) tls_api \<Rightarrow> ((string \<times> string list) list \<Rightarrow> (string \<times> string list) list) \<Rightarrow>
    't Config list \<Rightarrow> tls_error + ('c, 'h) tls_Config option" where
  "MultiTLSConfig A visit cfgs =
     (case tls_configs_loop A cfgs [] [] [] of
        Inl err \<Rightarrow> Inl err
      | Inr (certs, nextProtos, dirs) \<Rightarrow>
          (case autocert_loop A (visit dirs) [] nextProtos of
             Inl err \<Rightarrow> Inl err
           | Inr (fns, nextProtos) \<Rightarrow>
               if certs = [] \<and> fns = [] then Inr None
               else if fns = [] then
                 Inr (Some \<lparr>NextProtos = nextProtos, Certificates = certs, GetCertificate_fn = None\<rparr>)
               else Inr (Some \<lparr>NextProtos = nextProtos, Certificates = [],
                               GetCertificate_fn = Some (GetCertificate A certs fns)\<rparr>)))"

section \<open>The configuration of a listener\<close>

text \<open>What a configuration asks for.\<close>

definition wants_autocert :: "'t Config \<Rightarrow> bool" where
  "wants_autocert cfg \<longleftrightarrow> AutoCert (cfg_SSL cfg)"

definition wants_files :: "'t Config \<Rightarrow> bool" where
  "wants_files cfg \<longleftrightarrow> \<not> AutoCert (cfg_SSL cfg) \<and> CertFile (cfg_SSL cfg) \<noteq> [] \<and> KeyFile (cfg_SSL cfg) \<noteq> []"

text \<open>The hosts whose certificates are kept in a directory, in the order of the configurations.\<close>

definition hosts_of :: "'t Config list \<Rightarrow> string \<Rightarrow> string list" where
  "hosts_of cfgs dir =
     map cfg_Host (filter (\<lambda>cfg. wants_autocert cfg \<and> AutoCertCacheDir (cfg_SSL cfg) = dir) cfgs)"

text \<open>A certificate of the files of a configuration.\<close>

definition loaded_certs :: "('c, 'h) tls_api \<Rightarrow> 't Config list \<Rightarrow> 'c list" where
  "loaded_certs A cfgs =
     List.map_filter (\<lambda>cfg. case LoadX509KeyPair A (CertFile (cfg_SSL cfg)) (KeyFile (cfg_SSL cfg)) of
                              Inl err \<Rightarrow> None | Inr cert \<Rightarrow> Some cert) (filter wants_files cfgs)"

lemma map_of_append:
  "map_of (map_append dir host m) =
     (map_of m)(dir \<mapsto> (case map_of m dir of None \<Rightarrow> [] | Some hosts \<Rightarrow> hosts) @ [host])"
  by (induction dir host m rule: map_append.induct) (auto simp: fun_eq_iff)

lemma map_append_keys: "fst ` set (map_append dir host m) = insert dir (fst ` set m)"
  by (induction dir host m rule: map_append.induct) auto

lemma map_append_distinct: "distinct (map fst m) \<Longrightarrow> distinct (map fst (map_append dir host m))"
  by (induction dir host m rule: map_append.induct) (auto simp: map_append_keys)

text \<open>What the first loop collects.\<close>

definition collected :: "'t Config list \<Rightarrow> (string \<times> string list) list \<Rightarrow> string \<Rightarrow> string list option" where
  "collected cfgs dirs dir =
     (let hosts = (case map_of dirs dir of None \<Rightarrow> [] | Some hosts \<Rightarrow> hosts) @ hosts_of cfgs dir
      in if map_of dirs dir = None \<and> hosts = [] then None else Some hosts)"

lemma tls_configs_loop_result:
  assumes "tls_configs_loop A cfgs certs protos dirs = Inr (certs', protos', dirs')"
  shows "certs' = certs @ loaded_certs A cfgs \<and> length (loaded_certs A cfgs) = length (filter wants_files cfgs) \<and>
    map_of dirs' = collected cfgs dirs \<and> (distinct (map fst dirs) \<longrightarrow> distinct (map fst dirs')) \<and>
    list_all (\<lambda>cfg. wants_autocert cfg \<longrightarrow> CHR ''*'' \<notin> set (cfg_Host cfg)) cfgs"
  using assms
proof (induction A cfgs certs protos dirs rule: tls_configs_loop.induct)
  case (1 A certs nextProtos dirs)
  then show ?case
    by (auto simp: loaded_certs_def collected_def hosts_of_def fun_eq_iff split: option.splits)
next
  case (2 A cfg cfgs certs nextProtos dirs)
  show ?case
  proof (cases "AutoCert (cfg_SSL cfg)")
    case True
    with 2 show ?thesis
      by (auto simp: loaded_certs_def wants_files_def wants_autocert_def collected_def hosts_of_def map_of_append
          map_append_distinct fun_eq_iff split: if_splits option.splits)
  next
    case False
    with 2 show ?thesis
      by (auto simp: loaded_certs_def wants_files_def wants_autocert_def collected_def hosts_of_def
          fun_eq_iff split: if_splits option.splits sum.splits)
  qed
qed

lemma tls_configs_loop_protos:
  "tls_configs_loop A cfgs certs protos dirs = Inr (certs', protos', dirs') \<Longrightarrow>
   set protos' = set protos \<union> (if list_ex wants_files cfgs then {Http11} else {}) \<and> distinct protos' = distinct protos"
proof (induction A cfgs certs protos dirs rule: tls_configs_loop.induct)
  case (2 A cfg cfgs certs nextProtos dirs)
  then show ?case
    by (auto simp: wants_files_def StringSet_Append_set StringSet_Append_distinct split: if_splits sum.splits)
qed simp

lemma autocert_loop_result:
  "autocert_loop A dirs fns protos = Inr (fns', protos') \<Longrightarrow>
   fns' = fns @ map (\<lambda>(d, hosts). autocert_GetCertificate A hosts d) dirs \<and>
   set protos' = set protos \<union> (if dirs = [] then {} else {Http11, acme_ALPNProto}) \<and> distinct protos' = distinct protos \<and>
   list_all (\<lambda>(d, hosts). MkdirAll A d = None) dirs"
  by (induction A dirs fns protos rule: autocert_loop.induct)
    (auto simp: StringSet_Append_set StringSet_Append_distinct split: option.splits if_splits)

lemma collected_hosts: "collected cfgs [] dir = (if hosts_of cfgs dir = [] then None else Some (hosts_of cfgs dir))"
  by (simp add: collected_def)

lemma hosts_of_some: "list_ex wants_autocert cfgs \<longleftrightarrow> (\<exists>dir. hosts_of cfgs dir \<noteq> [])"
  by (auto simp: hosts_of_def list_ex_iff filter_empty_conv)

text \<open>A visit of the directories, in any order.\<close>

lemma visited_dirs:
  assumes "tls_configs_loop A cfgs [] [] [] = Inr (certs, protos, dirs)" "mset vs = mset dirs"
  shows "distinct (map fst vs)" "set (map fst vs) = {dir. hosts_of cfgs dir \<noteq> []}"
    "vs = map (\<lambda>dir. (dir, hosts_of cfgs dir)) (map fst vs)" "vs = [] \<longleftrightarrow> \<not> list_ex wants_autocert cfgs"
proof -
  have m: "map_of dirs = collected cfgs []" "distinct (map fst dirs)"
    using tls_configs_loop_result [OF assms(1)] by simp_all
  have sv: "set vs = set dirs"
    using assms(2) by (rule mset_eq_setD)
  have "mset (map fst vs) = mset (map fst dirs)"
    using assms(2) by simp
  then show "distinct (map fst vs)"
    using m(2) mset_eq_imp_distinct_iff by blast
  have entry: "(d, hosts) \<in> set vs \<longleftrightarrow> hosts = hosts_of cfgs d \<and> hosts \<noteq> []" for d hosts
    using m map_of_eq_Some_iff [of dirs d hosts] sv by (auto simp: collected_hosts split: if_splits)
  then show ds: "set (map fst vs) = {dir. hosts_of cfgs dir \<noteq> []}"
    by (force simp: image_iff)
  have "map (\<lambda>v. (fst v, hosts_of cfgs (fst v))) vs = vs"
    using entry by (intro map_idI) auto
  then show "vs = map (\<lambda>dir. (dir, hosts_of cfgs dir)) (map fst vs)"
    by (simp add: comp_def)
  have "vs = [] \<longleftrightarrow> set (map fst vs) = {}"
    by simp
  then show "vs = [] \<longleftrightarrow> \<not> list_ex wants_autocert cfgs"
    unfolding ds hosts_of_some by blast
qed

lemma loaded_certs_empty:
  assumes "length (loaded_certs A cfgs) = length (filter wants_files cfgs)"
  shows "loaded_certs A cfgs = [] \<longleftrightarrow> \<not> list_ex wants_files cfgs"
proof -
  have "loaded_certs A cfgs = [] \<longleftrightarrow> filter wants_files cfgs = []"
    using assms by (metis length_0_conv)
  then show ?thesis
    by (auto simp: list_ex_iff filter_empty_conv)
qed

lemma MultiTLSConfig_result:
  assumes "\<And>dirs. mset (visit dirs) = mset dirs" "MultiTLSConfig A visit cfgs = Inr res"
  shows "(res = None \<longleftrightarrow> \<not> list_ex wants_autocert cfgs \<and> \<not> list_ex wants_files cfgs) \<and>
    list_all (\<lambda>cfg. wants_autocert cfg \<longrightarrow> CHR ''*'' \<notin> set (cfg_Host cfg)) cfgs \<and>
    (\<forall>c. res = Some c \<longrightarrow>
       distinct (NextProtos c) \<and>
       set (NextProtos c) = (if list_ex wants_autocert cfgs then {Http11, acme_ALPNProto} else {Http11}) \<and>
       length (loaded_certs A cfgs) = length (filter wants_files cfgs) \<and>
       (if list_ex wants_autocert cfgs
        then \<exists>dirs. distinct dirs \<and> set dirs = {dir. hosts_of cfgs dir \<noteq> []} \<and> Certificates c = [] \<and>
               GetCertificate_fn c = Some (GetCertificate A (loaded_certs A cfgs)
                 (map (\<lambda>dir. autocert_GetCertificate A (hosts_of cfgs dir) dir) dirs))
        else Certificates c = loaded_certs A cfgs \<and> GetCertificate_fn c = None))"
proof -
  obtain certs protos dirs where l: "tls_configs_loop A cfgs [] [] [] = Inr (certs, protos, dirs)"
    using assms(2) by (auto simp: MultiTLSConfig_def split: sum.splits)
  obtain fns protos' where a: "autocert_loop A (visit dirs) [] protos = Inr (fns, protos')"
    using assms(2) l by (auto simp: MultiTLSConfig_def split: sum.splits)
  note L = tls_configs_loop_result [OF l] tls_configs_loop_protos [OF l]
  note V = visited_dirs [OF l assms(1)]
  note F = autocert_loop_result [OF a]
  let ?ds = "map fst (visit dirs)"
  have certs: "certs = loaded_certs A cfgs" "length (loaded_certs A cfgs) = length (filter wants_files cfgs)"
    and wild: "list_all (\<lambda>cfg. wants_autocert cfg \<longrightarrow> CHR ''*'' \<notin> set (cfg_Host cfg)) cfgs"
    using L(1) by simp_all
  have "fns = map (\<lambda>(d, hosts). autocert_GetCertificate A hosts d) (map (\<lambda>dir. (dir, hosts_of cfgs dir)) ?ds)"
    using F V(3) by simp
  then have fns: "fns = map (\<lambda>dir. autocert_GetCertificate A (hosts_of cfgs dir) dir) ?ds"
    by (simp add: comp_def)
  have nofns: "fns = [] \<longleftrightarrow> \<not> list_ex wants_autocert cfgs"
    using F V(4) by simp
  have protos: "distinct protos'" "set protos' = (if list_ex wants_files cfgs then {Http11} else {}) \<union>
      (if list_ex wants_autocert cfgs then {Http11, acme_ALPNProto} else {})"
    using L(2) F V(4) by auto
  have res: "res = (if certs = [] \<and> fns = [] then None
      else if fns = [] then Some \<lparr>NextProtos = protos', Certificates = certs, GetCertificate_fn = None\<rparr>
      else Some \<lparr>NextProtos = protos', Certificates = [], GetCertificate_fn = Some (GetCertificate A certs fns)\<rparr>)"
    using assms(2) l a by (simp add: MultiTLSConfig_def split: if_splits)
  show ?thesis
  proof (cases "list_ex wants_autocert cfgs")
    case True
    then have "res = Some \<lparr>NextProtos = protos', Certificates = [], GetCertificate_fn = Some (GetCertificate A certs fns)\<rparr>"
      using res nofns by simp
    moreover have "set protos' = {Http11, acme_ALPNProto}"
      using True protos(2) by auto
    moreover have "\<exists>ds. distinct ds \<and> set ds = {dir. hosts_of cfgs dir \<noteq> []} \<and>
        fns = map (\<lambda>dir. autocert_GetCertificate A (hosts_of cfgs dir) dir) ds"
      using V(1,2) fns by blast
    ultimately show ?thesis
      using True wild protos(1) certs by auto
  next
    case False
    then have "res = (if certs = [] then None
        else Some \<lparr>NextProtos = protos', Certificates = certs, GetCertificate_fn = None\<rparr>)"
      using res nofns by simp
    then show ?thesis
      using False wild protos certs loaded_certs_empty [OF certs(2)] by (auto split: if_splits)
  qed
qed

text \<open>C34. The TLS configuration of a listener: none exactly when no host has automatic certificates or both a certificate
  and a key file, and then the listener is plain; otherwise the certificates of the files in the order of the hosts,
  and one manager per cache directory, for exactly the hosts that use it. \<open>acme-tls/1\<close> is offered exactly when there is a
  manager, whatever the order in which the directories are visited.\<close>

theorem multi_tls_config:
  assumes "\<And>dirs. mset (visit dirs) = mset dirs" "MultiTLSConfig A visit cfgs = Inr res"
  shows "(res = None \<longleftrightarrow> \<not> list_ex wants_autocert cfgs \<and> \<not> list_ex wants_files cfgs) \<and>
    list_all (\<lambda>cfg. wants_autocert cfg \<longrightarrow> CHR ''*'' \<notin> set (cfg_Host cfg)) cfgs \<and>
    (\<forall>c. res = Some c \<longrightarrow>
       distinct (NextProtos c) \<and>
       set (NextProtos c) = (if list_ex wants_autocert cfgs then {Http11, acme_ALPNProto} else {Http11}) \<and>
       length (loaded_certs A cfgs) = length (filter wants_files cfgs) \<and>
       (if list_ex wants_autocert cfgs
        then \<exists>dirs. distinct dirs \<and> set dirs = {dir. hosts_of cfgs dir \<noteq> []} \<and> Certificates c = [] \<and>
               GetCertificate_fn c = Some (GetCertificate A (loaded_certs A cfgs)
                 (map (\<lambda>dir. autocert_GetCertificate A (hosts_of cfgs dir) dir) dirs))
        else Certificates c = loaded_certs A cfgs \<and> GetCertificate_fn c = None))"
  using assms by (rule MultiTLSConfig_result)

text \<open>Hosts that share a listener: two with automatic certificates in one directory, one with files, one without.\<close>

definition sample_tls :: "(string, string) tls_api" where
  "sample_tls =
     \<lparr>LoadX509KeyPair = (\<lambda>c k. Inr c), MkdirAll = (\<lambda>d. None),
      autocert_GetCertificate = (\<lambda>hosts d h. if h \<in> set hosts then Inr h else Inl ''host not configured''),
      SupportsCertificate = (\<lambda>h c. c = h)\<rparr>"

definition sample_host :: "string \<Rightarrow> bool \<Rightarrow> string \<Rightarrow> unit Config" where
  "sample_host host auto file = zero_config\<lparr>cfg_Host := host,
     cfg_SSL := \<lparr>CertFile = file, KeyFile = file, AutoCert = auto, AutoCertCacheDir = ''/certs''\<rparr>\<rparr>"

definition sample_hosts :: "unit Config list" where
  "sample_hosts = [sample_host ''a'' True [], sample_host ''b'' False ''b.pem'', sample_host ''c'' True [],
     sample_host ''d'' False []]"

theorem multi_tls_config_witness:
  "MultiTLSConfig sample_tls rev sample_hosts =
     Inr (Some \<lparr>NextProtos = [''http/1.1'', ''acme-tls/1''], Certificates = [],
       GetCertificate_fn = Some (GetCertificate sample_tls [''b.pem'']
         [autocert_GetCertificate sample_tls [''a'', ''c''] ''/certs''])\<rparr>) \<and>
   distinct [''http/1.1'', ''acme-tls/1'']"
proof -
  have m: "MultiTLSConfig sample_tls rev sample_hosts =
     Inr (Some \<lparr>NextProtos = [''http/1.1'', ''acme-tls/1''], Certificates = [],
       GetCertificate_fn = Some (GetCertificate sample_tls [''b.pem'']
         [autocert_GetCertificate sample_tls [''a'', ''c''] ''/certs''])\<rparr>)"
    by (simp add: MultiTLSConfig_def sample_hosts_def sample_host_def zero_config_def sample_tls_def Http11_def
        acme_ALPNProto_def)
  show ?thesis
    using m multi_tls_config [of rev sample_tls sample_hosts, OF _ m] by simp
qed

end
