(* ===== verification/Dump.thy ===== *)
theory Dump
  imports Schema ConfigTree UtilHttp
begin

text \<open>
  \<open>pkg/cmd\<close> up to the start of the servers: the flags, the configuration from the command line (load, edit,
  validate, convert) and \<open>dump.go\<close>, which tests and dumps it. Output goes to two streams whose writes may
  fail; what the other packages and libraries answer are the fields of a record.
\<close>

section \<open>Outcomes\<close>

text \<open>A computation that does not return, panics, returns an error or a value.\<close>

datatype ('e, 'a) outcome = Diverges | Panics go_panic | Fails 'e | Returns 'a

fun and_then :: "('e, 'a) outcome \<Rightarrow> ('a \<Rightarrow> ('e, 'b) outcome) \<Rightarrow> ('e, 'b) outcome" where
  "and_then Diverges k = Diverges"
| "and_then (Panics p) k = Panics p"
| "and_then (Fails e) k = Fails e"
| "and_then (Returns x) k = k x"

text \<open>The results of the other theories as outcomes.\<close>

definition of_result :: "('x \<Rightarrow> 'e) \<Rightarrow> 'x + 'a \<Rightarrow> ('e, 'a) outcome" where
  "of_result err r = (case r of Inl x \<Rightarrow> Fails (err x) | Inr a \<Rightarrow> Returns a)"

definition of_partial :: "('x \<Rightarrow> 'e) \<Rightarrow> ('x + 'a) option \<Rightarrow> ('e, 'a) outcome" where
  "of_partial err r = (case r of None \<Rightarrow> Diverges | Some r \<Rightarrow> of_result err r)"

definition of_try :: "('x \<Rightarrow> 'e) \<Rightarrow> ('x + 'a) go \<Rightarrow> ('e, 'a) outcome" where
  "of_try err r = (case r of Inl p \<Rightarrow> Panics p | Inr r \<Rightarrow> of_result err r)"

definition of_check :: "('x \<Rightarrow> 'e) \<Rightarrow> 'x option go \<Rightarrow> ('e, unit) outcome" where
  "of_check err r = (case r of Inl p \<Rightarrow> Panics p | Inr None \<Rightarrow> Returns () | Inr (Some x) \<Rightarrow> Fails (err x))"

section \<open>Flags\<close>

record FastHttpd =
  isVersion :: bool
  isHelp :: bool
  isTest :: bool
  dumpFormat :: string
  configFile :: string
  editExprs :: "string list"

definition dumpFormat_Set :: "string \<Rightarrow> string \<Rightarrow> string + string" where
  "dumpFormat_Set d v =
     (if v = ''true'' \<or> v = ''yaml'' then Inr ''yaml''
      else if v = ''json'' then Inr ''json''
      else Inl (''invalid -T format '' @ v))"

text \<open>The flags as package \<open>flag\<close> hands them over, in the order of the command line; \<open>envConfig\<close> is
  \<open>FASTHTTPD_CONFIG\<close>.\<close>

datatype cmd_flag = Flag_v bool | Flag_h bool | Flag_f string | Flag_e string | Flag_t bool | Flag_T string

definition NewFastHttpd :: "string \<Rightarrow> FastHttpd" where
  "NewFastHttpd envConfig = \<lparr>isVersion = False, isHelp = False, isTest = False, dumpFormat = [],
     configFile = envConfig, editExprs = []\<rparr>"

fun initFlagSet :: "cmd_flag list \<Rightarrow> FastHttpd \<Rightarrow> string + FastHttpd" where
  "initFlagSet [] d = Inr d"
| "initFlagSet (Flag_v b # fs) d = initFlagSet fs (d\<lparr>isVersion := b\<rparr>)"
| "initFlagSet (Flag_h b # fs) d = initFlagSet fs (d\<lparr>isHelp := b\<rparr>)"
| "initFlagSet (Flag_f s # fs) d = initFlagSet fs (d\<lparr>configFile := s\<rparr>)"
| "initFlagSet (Flag_e s # fs) d = initFlagSet fs (d\<lparr>editExprs := StringList_Set (editExprs d) s\<rparr>)"
| "initFlagSet (Flag_t b # fs) d = initFlagSet fs (d\<lparr>isTest := b\<rparr>)"
| "initFlagSet (Flag_T s # fs) d =
     (case dumpFormat_Set (dumpFormat d) s of
        Inl err \<Rightarrow> Inl err
      | Inr v \<Rightarrow> initFlagSet fs (d\<lparr>dumpFormat := v\<rparr>))"

text \<open>What \<open>Main\<close> goes on to do.\<close>

datatype cmd_action = PrintVersion | PrintUsage | TestOrDump | RunServers

definition Main :: "FastHttpd \<Rightarrow> cmd_action" where
  "Main d =
     (if isVersion d then PrintVersion
      else if isHelp d then PrintUsage
      else if isTest d \<or> dumpFormat d \<noteq> [] then TestOrDump
      else if configFile d = [] \<and> editExprs d = [] then PrintUsage
      else RunServers)"

section \<open>The configuration\<close>

definition minimalTreeMap :: rtree where
  "minimalTreeMap = RMap [
     (''host'', RStr ''localhost''),
     (''root'', RStr ''./public''),
     (''log'', RMap [(''output'', RStr ''stderr'')]),
     (''handlers'', RMap [(''static'', RMap [(''type'', RStr ''fs''), (''indexNames'', RArr [RStr ''index.html''])])]),
     (''routes'', RArr [RMap [(''handler'', RStr ''static'')]])]"

text \<open>
  Documents are of type \<open>'m\<close>, edited arrays \<open>'a\<close>, their elements \<open>'n\<close>, errors of the validator \<open>'e\<close>, subtrees of a
  configuration \<open>'t\<close>. \<open>ce_Chdir dir\<close> answers the file system as seen from \<open>dir\<close>.
\<close>

record ('m, 'a, 'n, 'e, 't) cmd_env =
  ce_here :: "'m loader"
  ce_Chdir :: "string \<Rightarrow> string + 'm loader"
  ce_tree :: "rtree \<Rightarrow> 'm"
  ce_CloneDeep :: "'m \<Rightarrow> 'm option"
  ce_nil :: 'm
  ce_to_array :: "'m list \<Rightarrow> 'a"
  ce_from_array :: "'a \<Rightarrow> 'n list option"
  ce_as_map :: "'n \<Rightarrow> 'm option"
  ce_Edit :: "'a \<Rightarrow> string \<Rightarrow> string + 'a"
  ce_Quote :: "string \<Rightarrow> string"
  ce_is_int :: "string \<Rightarrow> bool"
  ce_Validate :: "('m, 'e) validate_with_prefix"
  ce_is_ErrQuery :: "'e \<Rightarrow> bool"
  ce_MarshalYAML :: "'m \<Rightarrow> string + bytes"
  ce_MarshalJSON :: "'m list \<Rightarrow> string + bytes"
  ce_Unmarshal :: "bytes \<Rightarrow> 't Config \<Rightarrow> string + 't Config"
  ce_UserCacheDir :: "string + string"
  ce_ParseDuration :: parse_duration
  ce_ConfigsYAML :: "'t Config list \<Rightarrow> string + bytes"
  ce_ConfigsJSON :: "'t Config list \<Rightarrow> string + bytes"

datatype 'e cmd_error =
    ChdirError string
  | LoadingError load_error
  | EditingError edit_error
  | InvalidConfig "'e invalid"
  | FromError from_error
  | WriteError string
  | MarshallingError string
  | UnknownDumpFormat string

text \<open>\<open>filepath.Split\<close>: cut after the last slash.\<close>

definition split_path :: "string \<Rightarrow> string \<times> string" where
  "split_path p =
     (let file = rev (takeWhile (\<lambda>c. c \<noteq> CHR ''/'') (rev p))
      in (take (length p - length file) p, file))"

definition loadTreeMaps :: "('m, 'a, 'n, 'e, 't) cmd_env \<Rightarrow> FastHttpd \<Rightarrow> ('e cmd_error, 'm list) outcome" where
  "loadTreeMaps E d =
     (if configFile d = [] then Returns [ce_tree E minimalTreeMap]
      else let (dir, file) = split_path (configFile d)
           in if dir \<noteq> [] then
                (case ce_Chdir E dir of
                   Inl err \<Rightarrow> Fails (ChdirError err)
                 | Inr L \<Rightarrow> of_partial LoadingError (LoadTreeMaps L file))
              else of_partial LoadingError (LoadTreeMaps (ce_here E) file))"

definition env_Edit :: "('m, 'a, 'n, 'e, 't) cmd_env \<Rightarrow> 'm list \<Rightarrow> string list \<Rightarrow> edit_error + 'm list" where
  "env_Edit E = Edit (ce_to_array E) (ce_from_array E) (ce_as_map E) (ce_Edit E) (ce_Quote E) (ce_is_int E)"

definition env_FromTreeMaps :: "('m, 'a, 'n, 'e, 't) cmd_env \<Rightarrow> 'm list \<Rightarrow> from_error + 't Config list" where
  "env_FromTreeMaps E = FromTreeMaps (ce_MarshalYAML E) (ce_Unmarshal E) (ce_UserCacheDir E) (ce_ParseDuration E)"

text \<open>The first part of \<open>run\<close>: the configurations it serves.\<close>

definition run_configs :: "('m, 'a, 'n, 'e, 't) cmd_env \<Rightarrow> FastHttpd \<Rightarrow> ('e cmd_error, 't Config list) outcome" where
  "run_configs E d =
     and_then (loadTreeMaps E d) (\<lambda>ms.
     and_then (of_result EditingError (env_Edit E ms (editExprs d))) (\<lambda>ms.
     and_then (of_check InvalidConfig (ValidateTreeMaps (ce_Validate E) (ce_is_ErrQuery E) ms)) (\<lambda>_.
     of_result FromError (env_FromTreeMaps E ms))))"

section \<open>Output\<close>

text \<open>
  The bytes written to standard output and standard error. \<open>st_left\<close> is the number of writes that still succeed, if
  any ever fails; \<open>st_short\<close> how many bytes a failing write gets out.
\<close>

record streams =
  st_out :: bytes
  st_err :: bytes
  st_left :: "nat option"
  st_short :: nat

datatype stream = Stdout | Stderr

definition put_bytes :: "stream \<Rightarrow> bytes \<Rightarrow> streams \<Rightarrow> streams" where
  "put_bytes w b st = (case w of Stdout \<Rightarrow> st\<lparr>st_out := st_out st @ b\<rparr> | Stderr \<Rightarrow> st\<lparr>st_err := st_err st @ b\<rparr>)"

type_synonym 'e printer = "streams \<Rightarrow> 'e cmd_error option \<times> streams"

definition write_bytes :: "stream \<Rightarrow> bytes \<Rightarrow> 'e printer" where
  "write_bytes w b st =
     (case st_left st of
        None \<Rightarrow> (None, put_bytes w b st)
      | Some 0 \<Rightarrow> (Some (WriteError ''write error''), put_bytes w (take (st_short st) b) st)
      | Some (Suc n) \<Rightarrow> (None, put_bytes w b (st\<lparr>st_left := Some n\<rparr>)))"

definition print_then :: "'e printer \<Rightarrow> 'e printer \<Rightarrow> 'e printer" where
  "print_then p q st = (case p st of (Some err, st) \<Rightarrow> (Some err, st) | (None, st) \<Rightarrow> q st)"

definition print_done :: "'e printer" where
  "print_done st = (None, st)"

definition print_error :: "'e cmd_error \<Rightarrow> 'e printer" where
  "print_error err st = (Some err, st)"

definition ansiDim :: bytes where
  "ansiDim = CHR 0x1B # ''[2m''"

definition ansiReset :: bytes where
  "ansiReset = CHR 0x1B # ''[0m''"

definition newline :: bytes where
  "newline = [CHR 0x0A]"

text \<open>A file as \<open>shouldColor\<close> sees it; \<open>None\<close> is a nil file.\<close>

definition shouldColor :: "(string + bool) option \<Rightarrow> string \<Rightarrow> bool" where
  "shouldColor f noColor =
     (case f of
        None \<Rightarrow> False
      | Some info \<Rightarrow>
          if noColor \<noteq> [] then False
          else case info of Inl err \<Rightarrow> False | Inr charDevice \<Rightarrow> charDevice)"

text \<open>The YAML loop of \<open>writeTreeMaps\<close>.\<close>

fun write_yaml_docs :: "('m \<Rightarrow> string + bytes) \<Rightarrow> stream \<Rightarrow> nat \<Rightarrow> 'm list \<Rightarrow> 'e printer" where
  "write_yaml_docs marshal w i [] = print_done"
| "write_yaml_docs marshal w i (m # ms) =
     print_then (if i > 0 then write_bytes w (''---'' @ newline) else print_done)
       (case marshal m of
          Inl err \<Rightarrow> print_error (MarshallingError err)
        | Inr b \<Rightarrow> print_then (write_bytes w b) (write_yaml_docs marshal w (Suc i) ms))"

definition writeTreeMaps :: "('m, 'a, 'n, 'e, 't) cmd_env \<Rightarrow> stream \<Rightarrow> 'm list \<Rightarrow> string \<Rightarrow> 'e printer" where
  "writeTreeMaps E w ms format =
     (if format = ''yaml'' then write_yaml_docs (ce_MarshalYAML E) w 0 ms
      else if format = ''json'' then
        (case ce_MarshalJSON E ms of
           Inl err \<Rightarrow> print_error (MarshallingError err)
         | Inr b \<Rightarrow> print_then (write_bytes w b) (write_bytes w newline))
      else print_error (UnknownDumpFormat format))"

text \<open>The JSON encoder ends its output with a line feed, in the same write.\<close>

definition writeConfigs :: "('m, 'a, 'n, 'e, 't) cmd_env \<Rightarrow> stream \<Rightarrow> 't Config list \<Rightarrow> string \<Rightarrow> 'e printer" where
  "writeConfigs E w cfgs format =
     (if format = ''yaml'' then
        (case ce_ConfigsYAML E cfgs of Inl err \<Rightarrow> print_error (MarshallingError err) | Inr b \<Rightarrow> write_bytes w b)
      else if format = ''json'' then
        (case ce_ConfigsJSON E cfgs of
           Inl err \<Rightarrow> print_error (MarshallingError err)
         | Inr b \<Rightarrow> write_bytes w (b @ newline))
      else print_error (UnknownDumpFormat format))"

definition writeDump :: "('m, 'a, 'n, 'e, 't) cmd_env \<Rightarrow> 'm list \<Rightarrow> 't Config list \<Rightarrow> string \<Rightarrow> bool \<Rightarrow> 'e printer" where
  "writeDump E preEdit cfgs format dimStderr =
     print_then
       (if preEdit \<noteq> [] then
          print_then (if dimStderr then write_bytes Stderr ansiDim else print_done)
         (print_then (writeTreeMaps E Stderr preEdit format)
         (print_then (write_bytes Stderr newline)
                     (if dimStderr then write_bytes Stderr ansiReset else print_done)))
        else print_done)
       (writeConfigs E Stdout cfgs format)"

definition cloneTreeMaps :: "('m, 'a, 'n, 'e, 't) cmd_env \<Rightarrow> 'm list \<Rightarrow> 'm list" where
  "cloneTreeMaps E ms = map (\<lambda>m. case ce_CloneDeep E m of Some c \<Rightarrow> c | None \<Rightarrow> ce_nil E) ms"

text \<open>\<open>testOrDump\<close>: its error, or none, with what is written.\<close>

definition testOrDump :: "('m, 'a, 'n, 'e, 't) cmd_env \<Rightarrow> FastHttpd \<Rightarrow> bool \<Rightarrow> streams \<Rightarrow>
    ('e cmd_error, 'e cmd_error option \<times> streams) outcome" where
  "testOrDump E d dimStderr st =
     and_then (loadTreeMaps E d) (\<lambda>ms.
       let preEdit = (if dumpFormat d \<noteq> [] \<and> editExprs d \<noteq> [] then cloneTreeMaps E ms else [])
       in and_then (of_result EditingError (env_Edit E ms (editExprs d))) (\<lambda>ms.
          and_then (of_check InvalidConfig (ValidateTreeMaps (ce_Validate E) (ce_is_ErrQuery E) ms)) (\<lambda>_.
          and_then (of_result FromError (env_FromTreeMaps E ms)) (\<lambda>cfgs.
            Returns (if dumpFormat d = [] then write_bytes Stderr (''configuration test is successful'' @ newline) st
                     else writeDump E preEdit cfgs (dumpFormat d) dimStderr st)))))"

section \<open>What is written\<close>

text \<open>The text between the edited configuration and the terminal: what \<open>writeTreeMaps\<close> writes when nothing fails.\<close>

definition docs_text :: "('m, 'a, 'n, 'e, 't) cmd_env \<Rightarrow> string \<Rightarrow> 'm list \<Rightarrow> bytes" where
  "docs_text E format ms =
     (if format = ''yaml'' then
        (case map (projr \<circ> ce_MarshalYAML E) ms of [] \<Rightarrow> [] | b # bs \<Rightarrow> b @ concat (map (\<lambda>b. ''---'' @ newline @ b) bs))
      else projr (ce_MarshalJSON E ms) @ newline)"

definition pre_edit_text :: "('m, 'a, 'n, 'e, 't) cmd_env \<Rightarrow> string \<Rightarrow> bool \<Rightarrow> 'm list \<Rightarrow> bytes" where
  "pre_edit_text E format dim ms =
     (if ms = [] then []
      else (if dim then ansiDim else []) @ docs_text E format ms @ newline @ (if dim then ansiReset else []))"

definition configs_text :: "('m, 'a, 'n, 'e, 't) cmd_env \<Rightarrow> string \<Rightarrow> 't Config list \<Rightarrow> bytes" where
  "configs_text E format cfgs =
     (if format = ''yaml'' then projr (ce_ConfigsYAML E cfgs) else projr (ce_ConfigsJSON E cfgs) @ newline)"

text \<open>A printer that writes a text to a stream.\<close>

definition prints :: "'e printer \<Rightarrow> stream \<Rightarrow> bytes \<Rightarrow> bool" where
  "prints p w b \<longleftrightarrow> (\<forall>st. st_left st = None \<longrightarrow> p st = (None, put_bytes w b st))"

named_theorems print_intros \<open>printers and what they write\<close>

lemma put_bytes_simps [simp]:
  "st_left (put_bytes w b st) = st_left st"
  "put_bytes w c (put_bytes w b st) = put_bytes w (b @ c) st"
  "put_bytes w [] st = st"
  by (cases w; simp add: put_bytes_def)+

lemma prints_write [print_intros]: "prints (write_bytes w b) w b"
  by (simp add: prints_def write_bytes_def)

lemma prints_done [print_intros]: "prints print_done w []"
  by (simp add: prints_def print_done_def)

lemma prints_then [print_intros]: "prints p w b \<Longrightarrow> prints q w c \<Longrightarrow> prints (print_then p q) w (b @ c)"
  by (simp add: prints_def print_then_def)

lemma prints_if [print_intros]: "prints (if c then write_bytes w b else print_done) w (if c then b else [])"
  by (auto intro: print_intros)

lemma prints_yaml_docs:
  "list_all (\<lambda>m. \<not> isl (marshal m)) ms \<Longrightarrow>
   prints (write_yaml_docs marshal w i ms :: 'e printer) w
     (case map (projr \<circ> marshal) ms of
        [] \<Rightarrow> []
      | b # bs \<Rightarrow> (if i > 0 then ''---'' @ newline else []) @ b @ concat (map (\<lambda>b. ''---'' @ newline @ b) bs))"
proof (induction ms arbitrary: i)
  case (Cons m ms)
  obtain b where b: "marshal m = Inr b"
    using Cons.prems by (auto simp: not_isl_iff)
  have "prints (write_yaml_docs marshal w (Suc i) ms :: 'e printer) w
      (concat (map (\<lambda>b. ''---'' @ newline @ b) (map (projr \<circ> marshal) ms)))"
    using Cons.IH [of "Suc i"] Cons.prems by (cases ms) (auto simp: comp_def intro: print_intros)
  from prints_then [OF prints_if [of "i > 0" w "''---'' @ newline"] prints_then [OF prints_write [of w b] this]] b
  show ?case
    by (simp add: comp_def)
qed (simp add: print_intros)

lemma prints_tree_maps:
  assumes "format = ''yaml'' \<or> format = ''json''"
    "if format = ''yaml'' then list_all (\<lambda>m. \<not> isl (ce_MarshalYAML E m)) ms else \<not> isl (ce_MarshalJSON E ms)"
  shows "prints (writeTreeMaps E w ms format) w (docs_text E format ms)"
proof (cases "format = ''yaml''")
  case True
  then show ?thesis
    using assms prints_yaml_docs [of "ce_MarshalYAML E" ms w 0]
    by (auto simp: writeTreeMaps_def docs_text_def cong: list.case_cong)
next
  case False
  then obtain b where "ce_MarshalJSON E ms = Inr b"
    using assms by (auto simp: not_isl_iff)
  then show ?thesis
    using False assms prints_then [OF prints_write [of w b] prints_write [of w newline]]
    by (simp add: writeTreeMaps_def docs_text_def)
qed

lemma prints_configs:
  assumes "format = ''yaml'' \<or> format = ''json''"
    "if format = ''yaml'' then \<not> isl (ce_ConfigsYAML E cfgs) else \<not> isl (ce_ConfigsJSON E cfgs)"
  shows "prints (writeConfigs E w cfgs format) w (configs_text E format cfgs)"
  using assms by (auto simp: writeConfigs_def configs_text_def not_isl_iff intro: print_intros split: if_splits)

lemma write_dump_streams:
  assumes "format = ''yaml'' \<or> format = ''json''" "st_left st = None"
    "if format = ''yaml'' then list_all (\<lambda>m. \<not> isl (ce_MarshalYAML E m)) ms \<and> \<not> isl (ce_ConfigsYAML E cfgs)
     else \<not> isl (ce_ConfigsJSON E cfgs) \<and> (ms = [] \<or> \<not> isl (ce_MarshalJSON E ms))"
  shows "writeDump E ms cfgs format dim st =
    (None, st\<lparr>st_out := st_out st @ configs_text E format cfgs, st_err := st_err st @ pre_edit_text E format dim ms\<rparr>)"
proof -
  have docs: "prints (writeTreeMaps E Stderr ms format) Stderr (docs_text E format ms)" if "ms \<noteq> []"
    using assms that by (intro prints_tree_maps) (auto split: if_splits)
  have cfgs: "prints (writeConfigs E Stdout cfgs format) Stdout (configs_text E format cfgs)"
    using assms by (intro prints_configs) (auto split: if_splits)
  have "prints (if ms \<noteq> [] then
          print_then (if dim then write_bytes Stderr ansiDim else print_done)
         (print_then (writeTreeMaps E Stderr ms format)
         (print_then (write_bytes Stderr newline)
                     (if dim then write_bytes Stderr ansiReset else print_done)))
        else print_done) Stderr (pre_edit_text E format dim ms)"
    unfolding pre_edit_text_def using docs by (cases "ms = []") (simp_all add: print_intros)
  with cfgs assms(2) show ?thesis
    unfolding writeDump_def prints_def by (simp add: print_then_def) (simp add: put_bytes_def)
qed

section \<open>The configuration stage\<close>

text \<open>The configuration test and the server go through the same stages: \<open>-t\<close> and \<open>-T\<close> fail, panic or diverge as the
  start of the server would, with the same error, and otherwise report or dump the configurations that it would serve.\<close>

lemma test_agrees_with_run:
  "testOrDump E d dim st =
     and_then (run_configs E d) (\<lambda>cfgs. Returns
       (if dumpFormat d = [] then write_bytes Stderr (''configuration test is successful'' @ newline) st
        else writeDump E
               (case loadTreeMaps E d of
                  Returns ms \<Rightarrow> if editExprs d \<noteq> [] then cloneTreeMaps E ms else []
                | _ \<Rightarrow> [])
               cfgs (dumpFormat d) dim st))"
proof (cases "loadTreeMaps E d")
  case (Returns ms)
  have assoc: "and_then (and_then x f) g = and_then x (\<lambda>y. and_then (f y) g)" for x :: "('x, 'y) outcome" and f :: "'y \<Rightarrow> ('x, 'z) outcome"
      and g :: "'z \<Rightarrow> ('x, 'w) outcome"
    by (cases x) simp_all
  show ?thesis
    unfolding testOrDump_def run_configs_def Let_def Returns and_then.simps assoc
    by (cases "dumpFormat d = []"; cases "editExprs d = []") simp_all
qed (simp_all add: testOrDump_def run_configs_def)


text \<open>What \<open>Normalize\<close> makes sure of.\<close>

definition normalized :: "parse_duration \<Rightarrow> 't Config \<Rightarrow> bool" where
  "normalized ParseDuration cfg \<longleftrightarrow>
     (AutoCert (cfg_SSL cfg) \<longrightarrow> AutoCertCacheDir (cfg_SSL cfg) \<noteq> []) \<and>
     (cfg_ShutdownTimeout cfg \<noteq> [] \<longrightarrow> \<not> isl (ParseDuration (cfg_ShutdownTimeout cfg))) \<and>
     (\<forall>route \<in> set (cfg_Routes cfg). rt_Handler route \<noteq> [] \<longrightarrow> rt_Handler route \<in> fst ` set (cfg_Handlers cfg))"

lemma unknown_handler_None:
  "unknown_handler hs routes = None \<Longrightarrow> route \<in> set routes \<Longrightarrow> rt_Handler route \<noteq> [] \<Longrightarrow>
   rt_Handler route \<in> fst ` set hs"
  by (induction hs routes rule: unknown_handler.induct) (auto simp: map_of_eq_None_iff split: if_splits)

lemma Normalize_normalized:
  assumes "Config_Normalize userCacheDir ParseDuration cfg = Inr cfg'"
  shows "normalized ParseDuration cfg'"
proof -
  obtain ssl where ssl: "SSL_Normalize userCacheDir (cfg_SSL cfg) = Inr ssl"
    using assms by (auto simp: Config_Normalize_def split: sum.splits)
  then have "AutoCert ssl \<Longrightarrow> AutoCertCacheDir ssl \<noteq> []"
    by (auto simp: SSL_Normalize_def split: if_splits sum.splits)
  moreover have "cfg' = cfg\<lparr>cfg_SSL := ssl\<rparr>" "unknown_handler (cfg_Handlers cfg) (cfg_Routes cfg) = None"
    "cfg_ShutdownTimeout cfg \<noteq> [] \<longrightarrow> \<not> isl (ParseDuration (cfg_ShutdownTimeout cfg))"
    using assms ssl by (auto simp: Config_Normalize_def Let_def split: if_splits option.splits)
  ultimately show ?thesis
    using unknown_handler_None by (auto simp: normalized_def)
qed

lemma FromTreeMaps_normalized:
  "FromTreeMaps marshal unmarshal userCacheDir ParseDuration ms = Inr cfgs \<Longrightarrow>
   length cfgs = length ms \<and> list_all (normalized ParseDuration) cfgs"
proof (induction ms arbitrary: cfgs)
  case (Cons m ms)
  then obtain cfg cfgs' where "FromTreeMap marshal unmarshal userCacheDir ParseDuration m = Inr cfg"
    "FromTreeMaps marshal unmarshal userCacheDir ParseDuration ms = Inr cfgs'" "cfgs = cfg # cfgs'"
    by (auto split: sum.splits simp: map_sum_def)
  moreover then have "normalized ParseDuration cfg"
    by (auto simp: FromTreeMap_def map_sum_def Let_def split: sum.splits intro: Normalize_normalized)
  ultimately show ?case
    using Cons.IH by auto
qed simp

lemma ValidateTreeMaps_no_panic: "\<exists>r. ValidateTreeMaps V is_ErrQuery ms = Inr r"
proof -
  obtain root where "rootRules = Inr [(''.'', RuleMap (Some root))]"
    using rootRules_keys by blast
  from this show ?thesis
    by (simp add: ValidateTreeMaps_def Let_def \<open>rootRules = _\<close>)
qed

text \<open>A computation that ends with an error or with a value.\<close>

definition ends :: "('e, 'a) outcome \<Rightarrow> bool" where
  "ends x \<longleftrightarrow> (\<exists>e. x = Fails e) \<or> (\<exists>a. x = Returns a)"

named_theorems ends_intros \<open>computations that end\<close>

lemma ends_Returns [ends_intros]: "ends (Returns a)"
  by (simp add: ends_def)

lemma ends_Fails [ends_intros]: "ends (Fails e)"
  by (simp add: ends_def)

lemma ends_and_then [ends_intros]: "ends x \<Longrightarrow> (\<And>a. ends (k a)) \<Longrightarrow> ends (and_then x k)"
  by (cases x) (simp_all add: ends_def)

lemma ends_of_result [ends_intros]: "ends (of_result err r)"
  by (cases r) (simp_all add: ends_def of_result_def)

lemma ends_of_check [ends_intros]: "ends (of_check err (ValidateTreeMaps V is_ErrQuery ms))"
  using ValidateTreeMaps_no_panic [of V is_ErrQuery ms] by (auto simp: ends_def of_check_def split: option.splits)

definition readable_finite :: "'m loader \<Rightarrow> bool" where
  "readable_finite L \<longleftrightarrow> finite {a. \<exists>data. ReadFile L a = Inr data}"

lemma ends_load: "readable_finite L \<Longrightarrow> ends (of_partial err (LoadTreeMaps L path))"
  using load_total_aux [of L "[]" "LoadPath path"]
  by (auto simp: readable_finite_def LoadTreeMaps_def of_partial_def intro: ends_of_result)

lemma ends_loadTreeMaps:
  assumes "readable_finite (ce_here E)" "\<And>dir L. ce_Chdir E dir = Inr L \<Longrightarrow> readable_finite L"
  shows "ends (loadTreeMaps E d)"
proof -
  obtain dir base where "split_path (configFile d) = (dir, base)"
    by fastforce
  then show ?thesis
    using assms by (auto simp: loadTreeMaps_def intro: ends_intros ends_load split: sum.splits)
qed

lemma and_then_Returns: "and_then x k = Returns b \<longleftrightarrow> (\<exists>a. x = Returns a \<and> k a = Returns b)"
  by (cases x) simp_all

lemma of_result_Returns [simp]: "of_result err r = Returns a \<longleftrightarrow> r = Inr a"
  by (auto simp: of_result_def split: sum.splits)

text \<open>C35. The configuration stage always ends, with an error or with configurations, over any file system with finitely
  many readable files, and never panics; the configurations it ends with are normalized: every route's handler is declared,
  the shutdown timeout parses, and automatic certificates have a directory.\<close>

theorem config_stage_ends:
  assumes "readable_finite (ce_here E)" "\<And>dir L. ce_Chdir E dir = Inr L \<Longrightarrow> readable_finite L"
  shows "(\<exists>e. run_configs E d = Fails e) \<or>
    (\<exists>cfgs. run_configs E d = Returns cfgs \<and> list_all (normalized (ce_ParseDuration E)) cfgs)"
proof -
  have "ends (run_configs E d)"
    unfolding run_configs_def by (intro ends_intros ends_loadTreeMaps assms)
  moreover have "list_all (normalized (ce_ParseDuration E)) cfgs" if "run_configs E d = Returns cfgs" for cfgs
    using that by (auto simp: run_configs_def and_then_Returns env_FromTreeMaps_def dest: FromTreeMaps_normalized)
  ultimately show ?thesis
    by (auto simp: ends_def)
qed

text \<open>An environment whose documents are trees: no file can be read, and an edit replaces every document by its text.\<close>

definition sample_env :: "(rtree, rtree list, rtree, unit, rtree) cmd_env" where
  "sample_env =
     \<lparr>ce_here = \<lparr>Abs = Inr, ReadFile = (\<lambda>a. Inl ''no such file''), Glob = (\<lambda>p. Inr []), Decode = (\<lambda>data. []),
        include_of = (\<lambda>m. [])\<rparr>,
      ce_Chdir = (\<lambda>dir. Inl ''no such directory''), ce_tree = (\<lambda>t. t), ce_CloneDeep = Some, ce_nil = RNil,
      ce_to_array = (\<lambda>ms. ms), ce_from_array = Some, ce_as_map = Some, ce_Edit = (\<lambda>ms expr. Inr (map (\<lambda>m. RStr expr) ms)),
      ce_Quote = (\<lambda>s. s), ce_is_int = (\<lambda>s. True), ce_Validate = (\<lambda>m rules prefix. None), ce_is_ErrQuery = (\<lambda>e. False),
      ce_MarshalYAML = (\<lambda>m. case m of RStr s \<Rightarrow> Inr s | _ \<Rightarrow> Inr ''minimal''), ce_MarshalJSON = (\<lambda>ms. Inr ''[]''),
      ce_Unmarshal = (\<lambda>data cfg. Inr (cfg\<lparr>cfg_Host := data\<rparr>)), ce_UserCacheDir = Inr ''/cache'',
      ce_ParseDuration = (\<lambda>s. Inr 30), ce_ConfigsYAML = (\<lambda>cfgs. Inr (concat (map cfg_Host cfgs))),
      ce_ConfigsJSON = (\<lambda>cfgs. Inr ''[]'')\<rparr>"

definition sample_run :: FastHttpd where
  "sample_run = (NewFastHttpd [])\<lparr>editExprs := [''host=x'']\<rparr>"

lemma validate_loop_accepts: "validate_loop (\<lambda>m rules prefix. None) rules n i ms [] = []"
  by (induction ms arbitrary: i) simp_all

lemma ValidateTreeMaps_accepts: "ValidateTreeMaps (\<lambda>m rules prefix. None) is_ErrQuery ms = Inr None"
proof -
  obtain root where root: "rootRules = Inr [(''.'', RuleMap (Some root))]"
    using rootRules_keys by blast
  show ?thesis
    by (simp add: ValidateTreeMaps_def root validate_loop_accepts)
qed

theorem config_stage_ends_witness:
  "\<exists>cfgs. run_configs sample_env sample_run = Returns cfgs \<and> list_all (normalized (ce_ParseDuration sample_env)) cfgs"
proof -
  have "\<exists>cfgs. run_configs sample_env sample_run = Returns cfgs"
    by (simp add: run_configs_def sample_env_def sample_run_def loadTreeMaps_def NewFastHttpd_def env_Edit_def Edit_def
        of_result_def of_check_def ValidateTreeMaps_accepts env_FromTreeMaps_def FromTreeMap_def Config_Normalize_def
        SSL_Normalize_def Config_SetDefaults_def zero_config_def SSL_SetDefaults_def Let_def)
  moreover have "readable_finite (ce_here sample_env)"
    by (simp add: readable_finite_def sample_env_def)
  ultimately show ?thesis
    using config_stage_ends [of sample_env sample_run] by (auto simp: sample_env_def)
qed

lemma cloneTreeMaps_same: "\<forall>m \<in> set ms. ce_CloneDeep E m = Some m \<Longrightarrow> cloneTreeMaps E ms = ms"
  by (simp add: cloneTreeMaps_def map_idI)

text \<open>C40. What \<open>-T\<close> writes. Let the configuration stage succeed, with the documents \<open>ms\<close> loaded and the
  configurations \<open>cfgs\<close> at its end (after the edits), let a deep copy be equal to its original, and let no write and no
  marshalling fail. Then the dump succeeds: standard output gets exactly the final configurations, whatever was
  edited; the documents as they were loaded, before the edits, go to standard error when there are edits,
  separated by \<open>---\<close> in YAML, followed by a blank line, and dimmed as a whole on a terminal. So standard output stays
  one document of the format asked for.\<close>

theorem dump_streams:
  assumes load: "loadTreeMaps E d = Returns ms" and run: "run_configs E d = Returns cfgs"
    and format: "dumpFormat d = ''yaml'' \<or> dumpFormat d = ''json''"
    and writes: "st_left st = None" and clones: "\<forall>m \<in> set ms. ce_CloneDeep E m = Some m"
    and docs: "editExprs d \<noteq> [] \<Longrightarrow> if dumpFormat d = ''yaml'' then list_all (\<lambda>m. \<not> isl (ce_MarshalYAML E m)) ms
      else \<not> isl (ce_MarshalJSON E ms)"
    and cfgs: "\<not> isl (if dumpFormat d = ''yaml'' then ce_ConfigsYAML E cfgs else ce_ConfigsJSON E cfgs)"
  shows "testOrDump E d dim st = Returns (None, st\<lparr>st_out := st_out st @ configs_text E (dumpFormat d) cfgs,
    st_err := st_err st @ (if editExprs d = [] then [] else pre_edit_text E (dumpFormat d) dim ms)\<rparr>)"
proof -
  define pre where "pre = (if editExprs d \<noteq> [] then ms else [])"
  have some: "dumpFormat d \<noteq> []"
    using format by auto
  have "testOrDump E d dim st = Returns (writeDump E pre cfgs (dumpFormat d) dim st)"
    by (simp add: test_agrees_with_run load run some pre_def cloneTreeMaps_same [OF clones])
  moreover have "if dumpFormat d = ''yaml'' then list_all (\<lambda>m. \<not> isl (ce_MarshalYAML E m)) pre \<and> \<not> isl (ce_ConfigsYAML E cfgs)
      else \<not> isl (ce_ConfigsJSON E cfgs) \<and> (pre = [] \<or> \<not> isl (ce_MarshalJSON E pre))"
    using docs cfgs by (auto simp: pre_def)
  ultimately show ?thesis
    using write_dump_streams [OF format writes, of E pre cfgs dim] by (auto simp: pre_def pre_edit_text_def)
qed

text \<open>The minimal configuration, edited, dumped on a terminal.\<close>

definition sample_dump :: FastHttpd where
  "sample_dump = sample_run\<lparr>dumpFormat := ''yaml''\<rparr>"

theorem dump_streams_witness:
  "testOrDump sample_env sample_dump True \<lparr>st_out = [], st_err = [], st_left = None, st_short = 0\<rparr> =
    Returns (None, \<lparr>st_out = ''.[].host=x'', st_err = ansiDim @ ''minimal'' @ newline @ ansiReset, st_left = None, st_short = 0\<rparr>)"
proof -
  have expr: "edit_expr (\<lambda>s. s) (\<lambda>s. True) ''host=x'' = ''.[].host=x''"
    by code_simp
  have load: "loadTreeMaps sample_env sample_dump = Returns [minimalTreeMap]"
    by (simp add: loadTreeMaps_def sample_dump_def sample_run_def NewFastHttpd_def sample_env_def)
  have "\<exists>cfg. run_configs sample_env sample_dump = Returns [cfg] \<and> cfg_Host cfg = ''.[].host=x''"
    by (simp add: expr run_configs_def sample_env_def sample_dump_def sample_run_def loadTreeMaps_def NewFastHttpd_def env_Edit_def
        Edit_def of_result_def of_check_def ValidateTreeMaps_accepts env_FromTreeMaps_def FromTreeMap_def Config_Normalize_def
        SSL_Normalize_def Config_SetDefaults_def zero_config_def SSL_SetDefaults_def Let_def)
  then obtain cfg where run: "run_configs sample_env sample_dump = Returns [cfg]" "cfg_Host cfg = ''.[].host=x''"
    by blast
  show ?thesis
    using dump_streams [OF load run(1), of "\<lparr>st_out = [], st_err = [], st_left = None, st_short = 0\<rparr>" True] run(2)
    by (simp add: sample_env_def sample_dump_def sample_run_def NewFastHttpd_def configs_text_def pre_edit_text_def
        docs_text_def minimalTreeMap_def)
qed

end
