(* ===== verification/Process.thy ===== *)
theory Process
  imports Dump Listeners Server
begin

text \<open>
  \<open>pkg/cmd/fasthttpd.go\<close> after the configuration stage: the configurations of each listen address, the server and the
  listener of an address, and the process that starts them, waits for them and shuts them down on a signal. The
  goroutines of \<open>run\<close> are the actions of a step relation; a \<open>fasthttp.Server\<close> is a state with the operations its
  documentation describes.
\<close>

section \<open>The configurations of a listen address\<close>

definition listenedCfgs :: "'t Config list \<Rightarrow> (string \<times> 't Config list) list" where
  "listenedCfgs cfgs = foldl (\<lambda>m cfg. map_append (cfg_Listen cfg) cfg m) [] cfgs"

definition hosts_on :: "'t Config list \<Rightarrow> string \<Rightarrow> 't Config list" where
  "hosts_on cfgs listen = filter (\<lambda>cfg. cfg_Listen cfg = listen) cfgs"

lemma listenedCfgs_groups:
  "distinct (map fst (listenedCfgs cfgs)) \<and>
   map_of (listenedCfgs cfgs) listen = (if hosts_on cfgs listen = [] then None else Some (hosts_on cfgs listen))"
proof (induction cfgs rule: rev_induct)
  case Nil
  then show ?case
    by (simp add: listenedCfgs_def hosts_on_def)
next
  case (snoc cfg cfgs)
  have "listenedCfgs (cfgs @ [cfg]) = map_append (cfg_Listen cfg) cfg (listenedCfgs cfgs)"
    by (simp add: listenedCfgs_def)
  moreover have "hosts_on (cfgs @ [cfg]) listen = hosts_on cfgs listen @ (if cfg_Listen cfg = listen then [cfg] else [])"
    by (simp add: hosts_on_def)
  ultimately show ?case
    using snoc by (auto simp: map_of_append map_append_distinct)
qed

lemma listenedCfgs_entry:
  "(listen, cs) \<in> set (listenedCfgs cfgs) \<longleftrightarrow> cs = hosts_on cfgs listen \<and> cs \<noteq> []"
  using listenedCfgs_groups [of cfgs listen] map_of_eq_Some_iff [of "listenedCfgs cfgs" listen cs]
  by (auto split: if_splits)

section \<open>The server and the listener of an address\<close>

text \<open>\<open>Config\<close> of a host and of a virtual-host server; the latter indexes its handlers.\<close>

definition virtualHandler_Config :: "('t, 'c) hostHandler list \<Rightarrow> ServerConfig go" where
  "virtualHandler_Config hs = (if hs = [] then Inl IndexOutOfRange else Inr (cfg_Server (hh_cfg (hs ! 0))))"

definition ServerHandler_Config :: "('t, 'c) ServerHandler \<Rightarrow> ServerConfig go" where
  "ServerHandler_Config h =
     (case h of HostServer h \<Rightarrow> Inr (cfg_Server (hh_cfg h)) | VirtualServer hs outs \<Rightarrow> virtualHandler_Config hs)"

definition zero_server :: "'s \<Rightarrow> 's fasthttp_server" where
  "zero_server wired =
     \<lparr>fs_Name = [], fs_Concurrency = 0, fs_ReadBufferSize = 0, fs_WriteBufferSize = 0, fs_MaxConnsPerIP = 0,
      fs_MaxRequestsPerConn = 0, fs_MaxRequestBodySize = 0, fs_ReadTimeout = 0, fs_WriteTimeout = 0, fs_IdleTimeout = 0,
      fs_MaxIdleWorkerDuration = 0, fs_TCPKeepalivePeriod = 0, fs_SleepWhenConcurrencyLimitsExceeded = 0,
      fs_DisableKeepalive = False, fs_TCPKeepalive = False, fs_ReduceMemoryUsage = False,
      fs_DisablePreParseMultipartForm = False, fs_LogAllErrors = False, fs_SecureErrorLogMessage = False,
      fs_DisableHeaderNamesNormalizing = False, fs_NoDefaultServerHeader = False, fs_NoDefaultDate = False,
      fs_NoDefaultContentType = False, fs_CloseOnShutdown = False, fs_StreamRequestBody = False, fs_wired = wired\<rparr>"

text \<open>The callbacks of the server are those of the handler.\<close>

definition newServer :: "('t, 'c) ServerHandler \<Rightarrow> ('t, 'c) ServerHandler fasthttp_server go" where
  "newServer h = go_bind (ServerHandler_Config h) (\<lambda>cfg. Inr (ApplyTo cfg (zero_server h)))"

datatype ('l, 'c, 'h) listener =
    PlainListener 'l
  | KeepaliveListener TcpKeepaliveListener 'l
  | TLSListener "('l, 'c, 'h) listener" "('c, 'h) tls_Config"

datatype run_error = HandlerError server_error | NetListenError string | ListenTLSError tls_error

text \<open>\<open>netListen\<close> is \<open>net.Listen\<close>; \<open>is_tcp\<close> tells whether its listener is a \<open>*net.TCPListener\<close>.\<close>

definition FastHttpd_listen :: "(string \<Rightarrow> string \<Rightarrow> string + 'l) \<Rightarrow> ('l \<Rightarrow> bool) \<Rightarrow> ('c, 'h) tls_api \<Rightarrow>
    ((string \<times> string list) list \<Rightarrow> (string \<times> string list) list) \<Rightarrow> string \<Rightarrow> 't Config list \<Rightarrow> 's fasthttp_server \<Rightarrow>
    run_error + ('l, 'c, 'h) listener" where
  "FastHttpd_listen netListen is_tcp A dir_order listen cfgs server =
     (case netListen (GetNetwork listen) listen of
        Inl err \<Rightarrow> Inl (NetListenError err)
      | Inr l \<Rightarrow>
          let ln = (if is_tcp l
                    then KeepaliveListener \<lparr>ln_Keepalive = fs_TCPKeepalive server,
                           ln_KeepalivePeriod = fs_TCPKeepalivePeriod server\<rparr> l
                    else PlainListener l)
          in case MultiTLSConfig A dir_order cfgs of
               Inl err \<Rightarrow> Inl (ListenTLSError err)
             | Inr None \<Rightarrow> Inr ln
             | Inr (Some tlsCfg) \<Rightarrow> Inr (TLSListener ln tlsCfg))"

record ('t, 'c, 'l, 'k, 'h) started =
  sd_server :: "('t, 'c) ServerHandler fasthttp_server"
  sd_listener :: "('l, 'k, 'h) listener"
  sd_timeout :: int

text \<open>One round of the loop of \<open>run\<close>.\<close>

definition start_listener :: "('t Config \<Rightarrow> (server_error + ('t, 'c) hostHandler) go) \<Rightarrow> (string \<Rightarrow> string \<Rightarrow> string + 'l) \<Rightarrow>
    ('l \<Rightarrow> bool) \<Rightarrow> ('k, 'h) tls_api \<Rightarrow> ((string \<times> string list) list \<Rightarrow> (string \<times> string list) list) \<Rightarrow>
    parse_duration \<Rightarrow> string \<times> 't Config list \<Rightarrow> (run_error, ('t, 'c, 'l, 'k, 'h) started) outcome" where
  "start_listener new netListen is_tcp A dir_order ParseDuration entry =
     (case entry of (listen, cfgs) \<Rightarrow>
        and_then (of_try HandlerError (NewServerHandler new cfgs)) (\<lambda>h.
          case newServer h of
            Inl p \<Rightarrow> Panics p
          | Inr server \<Rightarrow>
              and_then (of_result id (FastHttpd_listen netListen is_tcp A dir_order listen cfgs server)) (\<lambda>ln.
                if cfgs = [] then Panics IndexOutOfRange
                else Returns \<lparr>sd_server = server, sd_listener = ln,
                              sd_timeout = ShutdownTimeoutDuration ParseDuration (cfgs ! 0)\<rparr>)))"

lemma new_host_handlers_cfgs:
  "new_host_handlers new cfgs outs = Inr (Inr (hs, outs')) \<Longrightarrow> (\<And>cfg h. new cfg = Inr (Inr h) \<Longrightarrow> hh_cfg h = cfg) \<Longrightarrow>
   map hh_cfg hs = cfgs"
  by (induction new cfgs outs arbitrary: hs outs' rule: new_host_handlers.induct) (fastforce simp: go_try_Inr_iff)+

lemma NewServerHandler_Config:
  assumes "NewServerHandler new cfgs = Inr (Inr h)" "cfgs \<noteq> []" "\<And>cfg h. new cfg = Inr (Inr h) \<Longrightarrow> hh_cfg h = cfg"
  shows "ServerHandler_Config h = Inr (cfg_Server (hd cfgs))"
proof (cases "length cfgs = 1")
  case True
  then obtain cfg where "cfgs = [cfg]"
    by (auto simp: length_Suc_conv)
  with assms show ?thesis
    by (auto simp: NewServerHandler_def ServerHandler_Config_def go_try_Inr_iff)
next
  case False
  then obtain hs outs where h: "h = VirtualServer hs outs" "newVirtualHandler new cfgs = Inr (Inr (hs, outs))"
    using assms(1) by (auto simp: NewServerHandler_def go_try_Inr_iff)
  then have "map hh_cfg hs = cfgs"
    using assms(3) by (auto simp: newVirtualHandler_def intro: new_host_handlers_cfgs)
  with h(1) assms(2) show ?thesis
    by (cases hs) (auto simp: ServerHandler_Config_def virtualHandler_Config_def)
qed

text \<open>A server handler is not built only because one of its hosts is not.\<close>

lemma new_host_handlers_fails:
  "new_host_handlers new cfgs outs = Inl p \<Longrightarrow> \<exists>cfg \<in> set cfgs. new cfg = Inl p"
  "new_host_handlers new cfgs outs = Inr (Inl err) \<Longrightarrow> \<exists>cfg \<in> set cfgs. new cfg = Inr (Inl err)"
  by (induction new cfgs outs rule: new_host_handlers.induct) (auto simp: go_try_def go_bind_def split: sum.splits)

lemma NewServerHandler_fails:
  shows "NewServerHandler new cfgs = Inl p \<Longrightarrow> \<exists>cfg \<in> set cfgs. new cfg = Inl p"
    and "NewServerHandler new cfgs = Inr (Inl err) \<Longrightarrow> \<exists>cfg \<in> set cfgs. new cfg = Inr (Inl err)"
proof -
  have one: "cfgs ! 0 \<in> set cfgs" if "length cfgs = 1"
    using that by simp
  show "\<exists>cfg \<in> set cfgs. new cfg = Inl p" if "NewServerHandler new cfgs = Inl p"
    using that one new_host_handlers_fails(1) [of new cfgs "[]" p]
    by (auto simp: NewServerHandler_def newVirtualHandler_def go_try_def go_bind_def split: if_splits sum.splits)
  show "\<exists>cfg \<in> set cfgs. new cfg = Inr (Inl err)" if "NewServerHandler new cfgs = Inr (Inl err)"
    using that one new_host_handlers_fails(2) [of new cfgs "[]" err]
    by (auto simp: NewServerHandler_def newVirtualHandler_def go_try_def go_bind_def split: if_splits sum.splits)
qed

lemma newHostHandler_cfg:
  "newHostHandler newLogger newAccessLog newFS T filterReg handlerReg compile now cfg = Inr (Inr h) \<Longrightarrow> hh_cfg h = cfg"
  by (cases "NewRoutes compile now cfg") (auto simp: newHostHandler_def go_try_Inr_iff split: option.splits sum.splits)

lemma FastHttpd_listen_result:
  assumes "FastHttpd_listen netListen is_tcp A dir_order listen cs server = Inr ln" "\<And>dirs. mset (dir_order dirs) = mset dirs"
  shows "\<exists>l c. netListen (GetNetwork listen) listen = Inr l \<and>
    (let base = (if is_tcp l then KeepaliveListener \<lparr>ln_Keepalive = fs_TCPKeepalive server,
                   ln_KeepalivePeriod = fs_TCPKeepalivePeriod server\<rparr> l else PlainListener l)
     in ln = (if list_ex wants_autocert cs \<or> list_ex wants_files cs then TLSListener base c else base))"
proof -
  obtain l where l: "netListen (GetNetwork listen) listen = Inr l"
    using assms(1) by (auto simp: FastHttpd_listen_def split: sum.splits)
  obtain res where res: "MultiTLSConfig A dir_order cs = Inr res"
    using assms(1) l by (auto simp: FastHttpd_listen_def Let_def split: sum.splits)
  have "res = None \<longleftrightarrow> \<not> list_ex wants_autocert cs \<and> \<not> list_ex wants_files cs"
    using MultiTLSConfig_result [OF assms(2) res] by blast
  then show ?thesis
    using assms(1) l res by (cases res) (auto simp: FastHttpd_listen_def Let_def)
qed

lemma FastHttpd_listen_error:
  assumes "FastHttpd_listen netListen is_tcp A dir_order listen cs server = Inl err"
  shows "case err of HandlerError e \<Rightarrow> False | NetListenError e \<Rightarrow> netListen (GetNetwork listen) listen = Inl e
    | ListenTLSError e \<Rightarrow> MultiTLSConfig A dir_order cs = Inl e"
  using assms by (auto simp: FastHttpd_listen_def Let_def split: sum.splits option.splits)

text \<open>C36. The listeners: every listen address of the configurations has exactly one entry in the groups \<open>run\<close> goes
  through, with exactly the hosts of that address, in order. Starting an entry panics only where the construction of
  one of its hosts does (a proxy's health check interval can make it), and fails only with the error of a host, of
  \<open>net.Listen\<close> or of the TLS configuration. Otherwise the server has the settings, and the shutdown timeout, of the
  first host; its listener sets the keep-alive of that host under TLS, and it is a TLS listener exactly when one of the
  hosts has certificates: then it is for all of them.\<close>

theorem listener_of_group:
  fixes cfgs :: "'t Config list" and listen :: string
  defines "cs \<equiv> filter (\<lambda>cfg. cfg_Listen cfg = listen) cfgs"
  assumes new: "\<And>cfg h. new cfg = Inr (Inr h) \<Longrightarrow> hh_cfg h = cfg" and order: "\<And>dirs. mset (dir_order dirs) = mset dirs"
  shows "distinct (map fst (listenedCfgs cfgs)) \<and>
    map_of (listenedCfgs cfgs) listen = (if cs = [] then None else Some cs) \<and>
    (cs \<noteq> [] \<longrightarrow>
      (case start_listener new netListen is_tcp A dir_order ParseDuration (listen, cs) of
         Returns st \<Rightarrow>
           (\<exists>h l c. NewServerHandler new cs = Inr (Inr h) \<and> sd_server st = ApplyTo (cfg_Server (hd cs)) (zero_server h) \<and>
              sd_timeout st = ShutdownTimeoutDuration ParseDuration (hd cs) \<and> netListen (GetNetwork listen) listen = Inr l \<and>
              (let base = (if is_tcp l then KeepaliveListener \<lparr>ln_Keepalive = srv_TCPKeepalive (cfg_Server (hd cs)),
                             ln_KeepalivePeriod = srv_TCPKeepalivePeriod (cfg_Server (hd cs))\<rparr> l else PlainListener l)
               in sd_listener st = (if list_ex wants_autocert cs \<or> list_ex wants_files cs then TLSListener base c else base)))
       | Fails (HandlerError err) \<Rightarrow> \<exists>cfg \<in> set cs. new cfg = Inr (Inl err)
       | Fails (NetListenError err) \<Rightarrow> netListen (GetNetwork listen) listen = Inl err
       | Fails (ListenTLSError err) \<Rightarrow> MultiTLSConfig A dir_order cs = Inl err
       | Panics p \<Rightarrow> \<exists>cfg \<in> set cs. new cfg = Inl p
       | Diverges \<Rightarrow> False))"
proof (intro conjI impI)
  show "distinct (map fst (listenedCfgs cfgs))" "map_of (listenedCfgs cfgs) listen = (if cs = [] then None else Some cs)"
    using listenedCfgs_groups [of cfgs listen] by (simp_all add: cs_def hosts_on_def)
  assume cs: "cs \<noteq> []"
  note start = start_listener_def of_try_def of_result_def
  consider (panic) p where "NewServerHandler new cs = Inl p" | (err) err where "NewServerHandler new cs = Inr (Inl err)"
    | (ok) h where "NewServerHandler new cs = Inr (Inr h)"
    by (metis sum.exhaust)
  then show "case start_listener new netListen is_tcp A dir_order ParseDuration (listen, cs) of
         Returns st \<Rightarrow>
           (\<exists>h l c. NewServerHandler new cs = Inr (Inr h) \<and> sd_server st = ApplyTo (cfg_Server (hd cs)) (zero_server h) \<and>
              sd_timeout st = ShutdownTimeoutDuration ParseDuration (hd cs) \<and> netListen (GetNetwork listen) listen = Inr l \<and>
              (let base = (if is_tcp l then KeepaliveListener \<lparr>ln_Keepalive = srv_TCPKeepalive (cfg_Server (hd cs)),
                             ln_KeepalivePeriod = srv_TCPKeepalivePeriod (cfg_Server (hd cs))\<rparr> l else PlainListener l)
               in sd_listener st = (if list_ex wants_autocert cs \<or> list_ex wants_files cs then TLSListener base c else base)))
       | Fails (HandlerError err) \<Rightarrow> \<exists>cfg \<in> set cs. new cfg = Inr (Inl err)
       | Fails (NetListenError err) \<Rightarrow> netListen (GetNetwork listen) listen = Inl err
       | Fails (ListenTLSError err) \<Rightarrow> MultiTLSConfig A dir_order cs = Inl err
       | Panics p \<Rightarrow> \<exists>cfg \<in> set cs. new cfg = Inl p
       | Diverges \<Rightarrow> False"
  proof cases
    case panic
    then show ?thesis
      using NewServerHandler_fails(1) by (simp add: start)
  next
    case err
    then show ?thesis
      using NewServerHandler_fails(2) by (simp add: start)
  next
    case ok
    let ?server = "ApplyTo (cfg_Server (hd cs)) (zero_server h)"
    have server: "newServer h = Inr ?server"
      using NewServerHandler_Config [OF ok cs new] by (simp add: newServer_def)
    have keep: "fs_TCPKeepalive ?server = srv_TCPKeepalive (cfg_Server (hd cs))"
      "fs_TCPKeepalivePeriod ?server = srv_TCPKeepalivePeriod (cfg_Server (hd cs))"
      by (simp_all add: ApplyTo_def)
    show ?thesis
    proof (cases "FastHttpd_listen netListen is_tcp A dir_order listen cs ?server")
      case (Inl err)
      then show ?thesis
        using ok server FastHttpd_listen_error [OF Inl] by (cases err) (simp_all add: start)
    next
      case (Inr ln)
      have returns: "start_listener new netListen is_tcp A dir_order ParseDuration (listen, cs) =
          Returns \<lparr>sd_server = ?server, sd_listener = ln, sd_timeout = ShutdownTimeoutDuration ParseDuration (hd cs)\<rparr>"
        using ok server Inr cs by (simp add: start hd_conv_nth)
      show ?thesis
        using FastHttpd_listen_result [OF Inr order] ok unfolding returns keep by auto
    qed
  qed
qed

definition start_new :: "rtree Config \<Rightarrow> (server_error + (rtree, refctx) hostHandler) go" where
  "start_new = newHostHandler (\<lambda>_. None) (\<lambda>_. Inr quiet_log) ref_fs ref_tree demo_filters demo_handlers no_regexp 0"

definition start_host :: "string \<Rightarrow> string \<Rightarrow> string \<Rightarrow> rtree Config" where
  "start_host host listen pem = zero_config\<lparr>cfg_Host := host, cfg_Listen := listen,
     cfg_SSL := \<lparr>CertFile = pem, KeyFile = pem, AutoCert = False, AutoCertCacheDir = []\<rparr>\<rparr>"

definition start_hosts :: "rtree Config list" where
  "start_hosts = [start_host ''a'' '':443'' [], start_host ''b'' '':80'' [], start_host ''c'' '':443'' ''c.pem'']"

lemma start_hosts_groups:
  "listenedCfgs start_hosts = [('':443'', [start_host ''a'' '':443'' [], start_host ''c'' '':443'' ''c.pem'']),
     ('':80'', [start_host ''b'' '':80'' []])]"
  by (simp add: listenedCfgs_def start_hosts_def start_host_def)

lemma start_hosts_started:
  "\<exists>st. start_listener start_new (\<lambda>network listen. Inr listen) (\<lambda>l. True) sample_tls id (\<lambda>s. Inr 0)
     ('':443'', [start_host ''a'' '':443'' [], start_host ''c'' '':443'' ''c.pem'']) = Returns st"
  by (simp add: start_listener_def NewServerHandler_def newVirtualHandler_def start_new_def newHostHandler_def
      start_host_def zero_config_def NewRoutes_def newServer_def ServerHandler_Config_def virtualHandler_Config_def
      FastHttpd_listen_def MultiTLSConfig_def sample_tls_def of_try_def of_result_def Let_def)

theorem listener_of_group_witness:
  "map_of (listenedCfgs start_hosts) '':80'' = Some [start_host ''b'' '':80'' []] \<and>
   (\<exists>st c. start_listener start_new (\<lambda>network listen. Inr listen) (\<lambda>l. True) sample_tls id (\<lambda>s. Inr 0)
       ('':443'', [start_host ''a'' '':443'' [], start_host ''c'' '':443'' ''c.pem'']) = Returns st \<and>
     sd_listener st = TLSListener (KeepaliveListener \<lparr>ln_Keepalive = False, ln_KeepalivePeriod = 0\<rparr> '':443'') c)"
proof -
  let ?cs = "[start_host ''a'' '':443'' [], start_host ''c'' '':443'' ''c.pem'']"
  obtain st where st: "start_listener start_new (\<lambda>network listen. Inr listen) (\<lambda>l. True) sample_tls id (\<lambda>s. Inr 0)
      ('':443'', ?cs) = Returns st"
    using start_hosts_started by blast
  have new: "hh_cfg h = cfg" if "start_new cfg = Inr (Inr h)" for cfg h
    using that by (auto simp: start_new_def intro: newHostHandler_cfg)
  have hosts: "filter (\<lambda>cfg. cfg_Listen cfg = '':443'') start_hosts = ?cs"
    "filter (\<lambda>cfg. cfg_Listen cfg = '':80'') start_hosts = [start_host ''b'' '':80'' []]"
    by (simp_all add: start_hosts_def start_host_def)
  have wants: "wants_files (start_host ''c'' '':443'' ''c.pem'')"
    "srv_TCPKeepalive (cfg_Server (start_host ''a'' '':443'' [])) = False"
    "srv_TCPKeepalivePeriod (cfg_Server (start_host ''a'' '':443'' [])) = 0"
    by (simp_all add: wants_files_def start_host_def zero_config_def zero_server_config_def)
  note group = listener_of_group [where new = start_new, OF new, where dir_order = id and
      netListen = "\<lambda>network listen. Inr listen" and is_tcp = "\<lambda>l. True" and A = sample_tls and
      ParseDuration = "\<lambda>s. Inr 0" and cfgs = start_hosts]
  show ?thesis
    using group [of "'':443''"] group [of "'':80''"] wants unfolding hosts st by (auto simp: Let_def)
qed

section \<open>The process\<close>

text \<open>
  What the documentation of \<open>fasthttp.Server\<close> says: \<open>Shutdown\<close> changes the server; \<open>Serve\<close> has returned, with an error
  or not; no connection is open; and how a server goes on by itself.
\<close>

record 's server_api =
  sa_Shutdown :: "'s \<Rightarrow> 's"
  sa_Serve_result :: "'s \<Rightarrow> string option option"
  sa_idle :: "'s \<Rightarrow> bool"
  sa_step :: "'s \<Rightarrow> 's \<Rightarrow> bool"

text \<open>The goroutine that waits for the signal: then it shuts down the servers it finds, one goroutine per server.\<close>

datatype signal_state = NoSignal | Signalled | Stopping "nat set" "nat set"

text \<open>
  The main goroutine: \<open>Adding t\<close> is the moment between the two \<open>append\<close>s for a server it has started, to \<open>servers\<close> and
  then of its timeout \<open>t\<close> to \<open>shutdownTimeouts\<close>; a panic in any goroutine ends the process.
\<close>

datatype main_state = Starting | Adding int | Collecting | Exited "string list" | Crashed go_panic

record ('x, 's) process =
  p_todo :: "'x list"
  p_servers :: "'s list"
  p_timeouts :: "int list"
  p_received :: "nat set"
  p_errs :: "string list"
  p_signal :: signal_state
  p_main :: main_state

definition running :: "('x, 's) process \<Rightarrow> bool" where
  "running p \<longleftrightarrow> (case p_main p of Exited errs \<Rightarrow> False | Crashed e \<Rightarrow> False | _ \<Rightarrow> True)"

definition errs_of :: "string option \<Rightarrow> string list" where
  "errs_of r = (case r of None \<Rightarrow> [] | Some err \<Rightarrow> [err])"

text \<open>\<open>Shutdown\<close>: one goroutine for each server there is when its loop begins. A goroutine reads the timeout of its
  server, which is not there yet when the server is the one being added: then it panics. Otherwise it calls
  \<open>ShutdownWithContext\<close>, which returns when the server is idle or, if there is one, at the deadline.\<close>

definition timeout_missing :: "('x, 's) process \<Rightarrow> nat \<Rightarrow> bool" where
  "timeout_missing p i \<longleftrightarrow> (case p_main p of Adding t \<Rightarrow> Suc i = length (p_servers p) | _ \<Rightarrow> False)"

definition Shutdown_begin :: "('x, 's) process \<Rightarrow> ('x, 's) process" where
  "Shutdown_begin p = p\<lparr>p_signal := Stopping {..<length (p_servers p)} {}\<rparr>"

definition Shutdown_call :: "'s server_api \<Rightarrow> nat set \<Rightarrow> nat set \<Rightarrow> nat \<Rightarrow> ('x, 's) process \<Rightarrow> ('x, 's) process" where
  "Shutdown_call S calls waits i p =
     p\<lparr>p_servers := (p_servers p)[i := sa_Shutdown S (p_servers p ! i)], p_signal := Stopping (calls - {i}) (insert i waits)\<rparr>"

definition Shutdown_returns :: "'s server_api \<Rightarrow> ('x, 's) process \<Rightarrow> nat \<Rightarrow> bool" where
  "Shutdown_returns S p i \<longleftrightarrow> sa_idle S (p_servers p ! i) \<or> p_timeouts p ! i > 0"

lemmas Shutdown_defs [simp] = Shutdown_begin_def Shutdown_call_def Shutdown_returns_def

text \<open>
  \<open>start x\<close> is one round of the loop of \<open>run\<close> up to the \<open>append\<close>s, which panics or ends with an error or with a server
  and its timeout. \<open>Stopping calls waits\<close> are the servers whose \<open>ShutdownWithContext\<close> is still
  to be called and those whose call has not returned; with a timeout it may return before the server is idle. A signal after
  the first is taken and dropped. The process ends when \<open>run\<close> returns.
\<close>

inductive proc_step :: "'s server_api \<Rightarrow> ('x \<Rightarrow> (string + 's \<times> int) go) \<Rightarrow> ('x, 's) process \<Rightarrow> ('x, 's) process \<Rightarrow> bool"
  for S :: "'s server_api" and start :: "'x \<Rightarrow> (string + 's \<times> int) go" where
  start_server: "p_main p = Starting \<Longrightarrow> p_todo p = x # xs \<Longrightarrow> start x = Inr (Inr (s, t)) \<Longrightarrow>
    proc_step S start p (p\<lparr>p_todo := xs, p_servers := p_servers p @ [s], p_main := Adding t\<rparr>)"
| add_timeout: "p_main p = Adding t \<Longrightarrow>
    proc_step S start p (p\<lparr>p_timeouts := p_timeouts p @ [t], p_main := Starting\<rparr>)"
| start_fails: "p_main p = Starting \<Longrightarrow> p_todo p = x # xs \<Longrightarrow> start x = Inr (Inl err) \<Longrightarrow>
    proc_step S start p (p\<lparr>p_main := Exited [err]\<rparr>)"
| start_panics: "p_main p = Starting \<Longrightarrow> p_todo p = x # xs \<Longrightarrow> start x = Inl e \<Longrightarrow>
    proc_step S start p (p\<lparr>p_main := Crashed e\<rparr>)"
| started_all: "p_main p = Starting \<Longrightarrow> p_todo p = [] \<Longrightarrow> proc_step S start p (p\<lparr>p_main := Collecting\<rparr>)"
| receive: "p_main p = Collecting \<Longrightarrow> i < length (p_servers p) \<Longrightarrow> i \<notin> p_received p \<Longrightarrow>
    sa_Serve_result S (p_servers p ! i) = Some r \<Longrightarrow>
    proc_step S start p (p\<lparr>p_received := insert i (p_received p), p_errs := p_errs p @ errs_of r\<rparr>)"
| exits: "p_main p = Collecting \<Longrightarrow> card (p_received p) = length (p_servers p) \<Longrightarrow>
    proc_step S start p (p\<lparr>p_main := Exited (p_errs p)\<rparr>)"
| signal: "running p \<Longrightarrow> p_signal p = NoSignal \<Longrightarrow> proc_step S start p (p\<lparr>p_signal := Signalled\<rparr>)"
| signal_again: "running p \<Longrightarrow> p_signal p \<noteq> NoSignal \<Longrightarrow> proc_step S start p p"
| shutdown: "running p \<Longrightarrow> p_signal p = Signalled \<Longrightarrow>
    proc_step S start p (Shutdown_begin p)"
| shutdown_call: "running p \<Longrightarrow> p_signal p = Stopping calls waits \<Longrightarrow> i \<in> calls \<Longrightarrow> \<not> timeout_missing p i \<Longrightarrow>
    proc_step S start p (Shutdown_call S calls waits i p)"
| shutdown_panics: "running p \<Longrightarrow> p_signal p = Stopping calls waits \<Longrightarrow> i \<in> calls \<Longrightarrow> timeout_missing p i \<Longrightarrow>
    proc_step S start p (p\<lparr>p_main := Crashed IndexOutOfRange\<rparr>)"
| shutdown_return: "running p \<Longrightarrow> p_signal p = Stopping calls waits \<Longrightarrow> i \<in> waits \<Longrightarrow>
    Shutdown_returns S p i \<Longrightarrow>
    proc_step S start p (p\<lparr>p_signal := Stopping calls (waits - {i})\<rparr>)"
| server: "running p \<Longrightarrow> i < length (p_servers p) \<Longrightarrow> sa_step S (p_servers p ! i) s' \<Longrightarrow>
    proc_step S start p (p\<lparr>p_servers := (p_servers p)[i := s']\<rparr>)"

inductive_cases proc_stepE: "proc_step S start p p'"

abbreviation proc_steps :: "'s server_api \<Rightarrow> ('x \<Rightarrow> (string + 's \<times> int) go) \<Rightarrow> ('x, 's) process \<Rightarrow> ('x, 's) process \<Rightarrow> bool" where
  "proc_steps S start \<equiv> (proc_step S start)\<^sup>*\<^sup>*"

definition proc_init :: "'x list \<Rightarrow> ('x, 's) process" where
  "proc_init todo = \<lparr>p_todo = todo, p_servers = [], p_timeouts = [], p_received = {}, p_errs = [], p_signal = NoSignal,
     p_main = Starting\<rparr>"


section \<open>The process: properties\<close>

text \<open>\<open>Serve\<close> returns \<open>nil\<close> as soon as \<open>Shutdown\<close> is called, as the documentation of \<open>fasthttp.Server\<close> says.\<close>

definition shutdown_ends_serve :: "'s server_api \<Rightarrow> bool" where
  "shutdown_ends_serve S \<longleftrightarrow> (\<forall>s. sa_Serve_result S s = None \<longrightarrow> sa_Serve_result S (sa_Shutdown S s) = Some None)"

text \<open>The process after \<open>j\<close> calls of \<open>ShutdownWithContext\<close>.\<close>

definition after_calls :: "'s server_api \<Rightarrow> ('x, 's) process \<Rightarrow> nat \<Rightarrow> ('x, 's) process" where
  "after_calls S p j = p\<lparr>p_servers := map (sa_Shutdown S) (take j (p_servers p)) @ drop j (p_servers p),
     p_signal := Stopping {j..<length (p_servers p)} {..<j}\<rparr>"

lemma map_take_drop_update:
  assumes "j < length xs"
  shows "(map f (take j xs) @ drop j xs)[j := f ((map f (take j xs) @ drop j xs) ! j)] =
    map f (take (Suc j) xs) @ drop (Suc j) xs"
proof -
  have "drop j xs = xs ! j # drop (Suc j) xs"
    using assms by (simp add: Cons_nth_drop_Suc)
  then show ?thesis
    using assms by (simp add: list_update_append nth_append take_Suc_conv_app_nth min_def)
qed

lemma shutdown_calls:
  assumes "p_main p = Collecting" "p_signal p = Stopping {..<length (p_servers p)} {}" "j \<le> length (p_servers p)"
  shows "proc_steps S start p (after_calls S p j)"
  using assms(3)
proof (induction j)
  case 0
  have "{..<length (p_servers p)} = {0..<length (p_servers p)}"
    by auto
  then have "after_calls S p 0 = p"
    using assms(2) by (simp add: after_calls_def)
  then show ?case
    by simp
next
  case (Suc j)
  let ?q = "after_calls S p j"
  have j: "j < length (p_servers p)"
    using Suc.prems by simp
  have rest: "{j..<length (p_servers p)} - {j} = {Suc j..<length (p_servers p)}"
    by auto
  have "proc_step S start ?q (Shutdown_call S {j..<length (p_servers p)} {..<j} j ?q)"
    using assms(1) j by (intro proc_step.shutdown_call) (auto simp: after_calls_def running_def timeout_missing_def)
  also have "Shutdown_call S {j..<length (p_servers p)} {..<j} j ?q = after_calls S p (Suc j)"
    using map_take_drop_update [OF j, of "sa_Shutdown S"] rest
    by (simp add: after_calls_def lessThan_Suc)
  finally show ?case
    using Suc by (meson Suc_leD rtranclp.rtrancl_into_rtrancl)
qed

lemma receive_nil:
  assumes "p_main p = Collecting" "p_received p = {}" "j \<le> length (p_servers p)"
    "\<And>i. i < length (p_servers p) \<Longrightarrow> sa_Serve_result S (p_servers p ! i) = Some None"
  shows "proc_steps S start p (p\<lparr>p_received := {..<j}\<rparr>)"
  using assms(3)
proof (induction j)
  case 0
  have "p\<lparr>p_received := {..<0}\<rparr> = p"
    using assms(2) by (cases p) simp
  then show ?case
    by simp
next
  case (Suc j)
  let ?q = "p\<lparr>p_received := {..<j}\<rparr>"
  have "proc_step S start ?q (?q\<lparr>p_received := insert j (p_received ?q), p_errs := p_errs ?q @ errs_of None\<rparr>)"
    using Suc.prems assms(1,4) by (intro proc_step.receive) auto
  also have "?q\<lparr>p_received := insert j (p_received ?q), p_errs := p_errs ?q @ errs_of None\<rparr> = p\<lparr>p_received := {..<Suc j}\<rparr>"
    by (simp add: errs_of_def lessThan_Suc)
  finally show ?case
    using Suc by (meson Suc_leD rtranclp.rtrancl_into_rtrancl)
qed

text \<open>In a process that has been started the timeout of a server is missing exactly when the index is out of the range
  of \<open>shutdownTimeouts\<close>.\<close>

lemma timeouts_added:
  assumes "proc_steps S start (proc_init todo) p"
  shows "(case p_main p of Adding t \<Rightarrow> Suc (length (p_timeouts p)) = length (p_servers p)
      | Crashed e \<Rightarrow> True | _ \<Rightarrow> length (p_timeouts p) = length (p_servers p))"
  using assms
proof (induction rule: rtranclp_induct)
  case base
  then show ?case
    by (simp add: proc_init_def)
next
  case (step p p')
  from step(2,3) show ?case
    by (cases rule: proc_step.cases) (auto split: main_state.splits)
qed

lemma timeout_missing_index:
  assumes "proc_steps S start (proc_init todo) p" "running p" "i < length (p_servers p)"
  shows "timeout_missing p i \<longleftrightarrow> \<not> i < length (p_timeouts p)"
  using timeouts_added [OF assms(1)] assms(2,3)
  by (auto simp: timeout_missing_def running_def split: main_state.splits)

text \<open>And it can happen: a signal between the two \<open>append\<close>s of the first server that starts, and the goroutine of that
  server indexes \<open>shutdownTimeouts\<close> beyond its end; the process dies of the panic instead of shutting down.\<close>

lemma registration_race:
  assumes "start x = Inr (Inr (s, t))"
  shows "\<exists>p. proc_steps S start (proc_init (x # xs)) p \<and> p_main p = Crashed IndexOutOfRange"
proof -
  let ?i = "proc_init (x # xs)"
  let ?a = "?i\<lparr>p_todo := xs, p_servers := p_servers ?i @ [s], p_main := Adding t\<rparr>"
  let ?b = "Shutdown_begin (?a\<lparr>p_signal := Signalled\<rparr>)"
  have "proc_step S start ?i ?a"
    using assms by (intro proc_step.start_server) (simp_all add: proc_init_def)
  moreover have "proc_step S start ?a (?a\<lparr>p_signal := Signalled\<rparr>)"
    by (intro proc_step.signal) (simp_all add: proc_init_def running_def)
  moreover have "proc_step S start (?a\<lparr>p_signal := Signalled\<rparr>) ?b"
    by (intro proc_step.shutdown) (simp_all add: running_def)
  moreover have "proc_step S start ?b (?b\<lparr>p_main := Crashed IndexOutOfRange\<rparr>)"
    by (rule proc_step.shutdown_panics [where i = 0]) (auto simp: proc_init_def running_def timeout_missing_def)
  ultimately have "proc_steps S start ?i (?b\<lparr>p_main := Crashed IndexOutOfRange\<rparr>)"
    by (meson converse_rtranclp_into_rtranclp r_into_rtranclp)
  then show ?thesis
    by (intro exI [of _ "?b\<lparr>p_main := Crashed IndexOutOfRange\<rparr>"]) simp
qed

text \<open>C38. A graceful shutdown is cut short: as \<open>Serve\<close> returns when \<open>Shutdown\<close> is called, \<open>run\<close> can return, without error,
  while the shutdown still waits for the open connections of a server; the process then ends under them, whatever the
  shutdown timeout.\<close>

theorem shutdown_cut:
  assumes "shutdown_ends_serve S" "p_main p = Collecting" "p_signal p = NoSignal" "p_received p = {}" "p_errs p = []"
    "list_all (\<lambda>s. sa_Serve_result S s = None) (p_servers p)"
    "k < length (p_servers p)" "\<not> sa_idle S (sa_Shutdown S (p_servers p ! k))"
  shows "\<exists>p' waits. proc_steps S start p p' \<and> p_main p' = Exited [] \<and> p_signal p' = Stopping {} waits \<and> k \<in> waits \<and>
    p_timeouts p' = p_timeouts p \<and> \<not> sa_idle S (p_servers p' ! k)"
proof -
  let ?n = "length (p_servers p)"
  let ?q = "p\<lparr>p_signal := Stopping {..<?n} {}\<rparr>"
  let ?r = "after_calls S ?q ?n"
  have run: "running p"
    using assms(2) by (simp add: running_def)
  have "proc_step S start p (p\<lparr>p_signal := Signalled\<rparr>)"
    using run assms(3) by (rule proc_step.signal)
  moreover have "proc_step S start (p\<lparr>p_signal := Signalled\<rparr>) (Shutdown_begin (p\<lparr>p_signal := Signalled\<rparr>))"
    using run by (intro proc_step.shutdown) (simp_all add: running_def)
  ultimately have q: "proc_steps S start p ?q"
    by (simp add: converse_rtranclp_into_rtranclp)
  have r: "proc_steps S start ?q ?r"
    using assms(2) by (intro shutdown_calls) simp_all
  have rf: "p_main ?r = Collecting" "p_received ?r = {}" "p_errs ?r = []" "p_servers ?r = map (sa_Shutdown S) (p_servers p)"
    "p_timeouts ?r = p_timeouts p" "p_signal ?r = Stopping {} {..<?n}"
    using assms(2,4,5) by (simp_all add: after_calls_def)
  have "sa_Serve_result S (p_servers ?r ! i) = Some None" if "i < length (p_servers ?r)" for i
    using that assms(1,6) rf(4) by (simp add: shutdown_ends_serve_def list_all_length)
  then have v: "proc_steps S start ?r (?r\<lparr>p_received := {..<?n}\<rparr>)"
    using receive_nil [of ?r ?n S start] rf by simp
  have "proc_step S start (?r\<lparr>p_received := {..<?n}\<rparr>)
      (?r\<lparr>p_received := {..<?n}\<rparr>\<lparr>p_main := Exited (p_errs (?r\<lparr>p_received := {..<?n}\<rparr>))\<rparr>)"
    using rf by (intro proc_step.exits) simp_all
  with q r v have "proc_steps S start p (?r\<lparr>p_received := {..<?n}\<rparr>
      \<lparr>p_main := Exited (p_errs (?r\<lparr>p_received := {..<?n}\<rparr>))\<rparr>)"
    by (meson rtranclp.rtrancl_into_rtrancl rtranclp_trans)
  then show ?thesis
    using rf assms(7,8) by - (rule exI, rule exI [of _ "{..<?n}"], rule conjI, assumption, simp)
qed


text \<open>Servers that count their open connections: the process with one server and one connection.\<close>

definition sample_servers :: "(nat \<times> bool) server_api" where
  "sample_servers =
     \<lparr>sa_Shutdown = (\<lambda>(n, b). (n, True)), sa_Serve_result = (\<lambda>(n, b). if b then Some None else None),
      sa_idle = (\<lambda>(n, b). n = 0),
      sa_step = (\<lambda>(n, b) (n', b'). b' = b \<and> (n = Suc n' \<or> (n' = Suc n \<and> \<not> b)))\<rparr>"

definition sample_process :: "(unit, nat \<times> bool) process" where
  "sample_process = \<lparr>p_todo = [], p_servers = [(1, False)], p_timeouts = [30], p_received = {}, p_errs = [],
     p_signal = NoSignal, p_main = Collecting\<rparr>"

theorem shutdown_cut_witness:
  "\<exists>p' waits. proc_steps sample_servers (\<lambda>x. Inr (Inr ((0, False), 30))) sample_process p' \<and> p_main p' = Exited [] \<and>
     p_signal p' = Stopping {} waits \<and> 0 \<in> waits \<and> p_timeouts p' = [30] \<and> \<not> sa_idle sample_servers (p_servers p' ! 0)"
  using shutdown_cut [of sample_servers sample_process 0 "\<lambda>x. Inr (Inr ((0, False), 30))"]
  by (simp add: shutdown_ends_serve_def sample_servers_def sample_process_def)

text \<open>The process when the servers \<open>ss\<close> have been started, after a signal that found none.\<close>

definition after_starts :: "'x list \<Rightarrow> 's list \<Rightarrow> int list \<Rightarrow> ('x, 's) process" where
  "after_starts todo ss ts = \<lparr>p_todo = todo, p_servers = ss, p_timeouts = ts, p_received = {}, p_errs = [],
     p_signal = Stopping {} {}, p_main = Starting\<rparr>"

lemma starts_all:
  "list_all (\<lambda>x. \<exists>s t. start x = Inr (Inr (s, t)) \<and> sa_Serve_result S s = None) todo \<Longrightarrow>
   \<exists>ss' ts'. proc_steps S start (after_starts todo ss ts) (after_starts [] (ss @ ss') ts') \<and> length ss' = length todo \<and>
     list_all (\<lambda>s. sa_Serve_result S s = None) ss'"
proof (induction todo arbitrary: ss ts)
  case Nil
  then show ?case
    by (intro exI [of _ "[]"] exI [of _ ts]) simp
next
  case (Cons x todo)
  obtain s t where s: "start x = Inr (Inr (s, t))" "sa_Serve_result S s = None"
    using Cons.prems by auto
  let ?p = "after_starts (x # todo) ss ts"
  let ?q = "?p\<lparr>p_todo := todo, p_servers := p_servers ?p @ [s], p_main := Adding t\<rparr>"
  have "proc_step S start ?p ?q"
    using s by (intro proc_step.start_server) (simp_all add: after_starts_def)
  moreover have "proc_step S start ?q (?q\<lparr>p_timeouts := p_timeouts ?q @ [t], p_main := Starting\<rparr>)"
    by (intro proc_step.add_timeout) simp
  ultimately have step: "proc_steps S start ?p (after_starts todo (ss @ [s]) (ts @ [t]))"
    by (simp add: after_starts_def)
  obtain ss' ts' where "proc_steps S start (after_starts todo (ss @ [s]) (ts @ [t])) (after_starts [] ((ss @ [s]) @ ss') ts')"
    "length ss' = length todo" "list_all (\<lambda>s. sa_Serve_result S s = None) ss'"
    using Cons.IH [of "ss @ [s]" "ts @ [t]"] Cons.prems by auto
  with step s(2) show ?case
    by (intro exI [of _ "s # ss'"] exI [of _ ts']) (auto intro: rtranclp_trans)
qed

text \<open>The signal has been dealt with, the servers serve and the main goroutine waits for them.\<close>

definition unstoppable :: "'s server_api \<Rightarrow> ('x, 's) process \<Rightarrow> bool" where
  "unstoppable S p \<longleftrightarrow> p_main p = Collecting \<and> p_signal p = Stopping {} {} \<and> p_received p = {} \<and> p_servers p \<noteq> [] \<and>
     list_all (\<lambda>s. sa_Serve_result S s = None) (p_servers p)"

lemma unstoppable_step:
  assumes "proc_step S start p p'" "unstoppable S p"
    "\<And>s s'. sa_step S s s' \<Longrightarrow> sa_Serve_result S s = None \<Longrightarrow> sa_Serve_result S s' = None"
  shows "unstoppable S p'"
  using assms(1)
proof (cases rule: proc_step.cases)
  case (server i s')
  then show ?thesis
    using assms(2,3) by (auto simp: unstoppable_def list_all_length nth_list_update)
qed (use assms(2) in \<open>auto simp: unstoppable_def list_all_length\<close>)

text \<open>C39. A signal during the start is lost for good: the shutdown it starts finds no servers, or some of them, and later
  signals are taken without effect. With servers that do not stop by themselves the process can reach a state from which
  no sequence of steps, with any number of signals, ends it.\<close>

theorem early_signal_lost:
  fixes S :: "'s server_api" and start :: "'x \<Rightarrow> (string + 's \<times> int) go"
  assumes "todo \<noteq> []" "list_all (\<lambda>x. \<exists>s t. start x = Inr (Inr (s, t)) \<and> sa_Serve_result S s = None) todo"
    "\<And>s s'. sa_step S s s' \<Longrightarrow> sa_Serve_result S s = None \<Longrightarrow> sa_Serve_result S s' = None"
  shows "\<exists>p. proc_steps S start (proc_init todo) p \<and> p_signal p \<noteq> NoSignal \<and> length (p_servers p) = length todo \<and>
    (\<forall>p'. proc_steps S start p p' \<longrightarrow> p_main p' = Collecting \<and> list_all (\<lambda>s. sa_Serve_result S s = None) (p_servers p'))"
proof -
  let ?i = "proc_init todo :: ('x, 's) process"
  have "proc_step S start ?i (?i\<lparr>p_signal := Signalled\<rparr>)"
    by (intro proc_step.signal) (simp_all add: proc_init_def running_def)
  moreover have "proc_step S start (?i\<lparr>p_signal := Signalled\<rparr>) (Shutdown_begin (?i\<lparr>p_signal := Signalled\<rparr>))"
    by (intro proc_step.shutdown) (simp_all add: proc_init_def running_def)
  ultimately have lost: "proc_steps S start ?i (after_starts todo [] [])"
    by (simp add: converse_rtranclp_into_rtranclp proc_init_def after_starts_def)
  obtain ss ts where ss: "proc_steps S start (after_starts todo [] []) (after_starts [] ss ts)" "length ss = length todo"
      "list_all (\<lambda>s. sa_Serve_result S s = None) ss"
    using starts_all [OF assms(2), of "[]" "[]"] by auto
  let ?p = "after_starts [] ss ts\<lparr>p_main := Collecting\<rparr>"
  have "proc_step S start (after_starts [] ss ts) ?p"
    by (intro proc_step.started_all) (simp_all add: after_starts_def)
  then have reach: "proc_steps S start ?i ?p"
    using lost ss(1) by (meson rtranclp.rtrancl_into_rtrancl rtranclp_trans)
  have "unstoppable S p'" if "proc_steps S start ?p p'" for p'
    using that
  proof (induction rule: rtranclp_induct)
    case base
    then show ?case
      using ss assms(1) by (auto simp: unstoppable_def after_starts_def)
  qed (rule unstoppable_step [OF _ _ assms(3)])
  then show ?thesis
    using reach ss(2) by (intro exI [of _ ?p]) (auto simp: unstoppable_def after_starts_def)
qed

theorem early_signal_lost_witness:
  "\<exists>p. proc_steps sample_servers (\<lambda>x. Inr (Inr ((0, False), 30))) (proc_init [''a'', ''b'']) p \<and> p_signal p \<noteq> NoSignal \<and>
     length (p_servers p) = length [''a'', ''b'']"
proof -
  have "list_all (\<lambda>x. \<exists>s t. Inr (Inr ((0, False), 30)) = (Inr (Inr (s, t)) :: (string + (nat \<times> bool) \<times> int) go) \<and>
      sa_Serve_result sample_servers s = None) [''a'', ''b'']"
    by (simp add: sample_servers_def)
  moreover have "sa_Serve_result sample_servers s' = None"
    if "sa_step sample_servers s s'" "sa_Serve_result sample_servers s = None" for s s'
    using that by (cases s; cases s') (simp add: sample_servers_def split: if_splits)
  ultimately show ?thesis
    using early_signal_lost [of "[''a'', ''b'']" "\<lambda>x. Inr (Inr ((0, False), 30))" sample_servers] by blast
qed

text \<open>What the main goroutine has received, and how many listeners are still to be started.\<close>

definition collected_ok :: "'s server_api \<Rightarrow> nat \<Rightarrow> ('x, 's) process \<Rightarrow> bool" where
  "collected_ok S n p \<longleftrightarrow> length (p_servers p) + length (p_todo p) = n \<and> (p_main p = Collecting \<longrightarrow> p_todo p = []) \<and>
     p_received p \<subseteq> {..<length (p_servers p)} \<and>
     (\<forall>calls waits. p_signal p = Stopping calls waits \<longrightarrow> calls \<subseteq> {..<length (p_servers p)}) \<and>
     (\<forall>i \<in> p_received p. \<exists>r. sa_Serve_result S (p_servers p ! i) = Some r \<and> set (errs_of r) \<subseteq> set (p_errs p))"

text \<open>\<open>Serve\<close> returns once.\<close>

definition serve_returns_once :: "'s server_api \<Rightarrow> bool" where
  "serve_returns_once S \<longleftrightarrow> (\<forall>s r. sa_Serve_result S s = Some r \<longrightarrow>
     sa_Serve_result S (sa_Shutdown S s) = Some r \<and> (\<forall>s'. sa_step S s s' \<longrightarrow> sa_Serve_result S s' = Some r))"

lemma serve_shutdown:
  "serve_returns_once S \<Longrightarrow> sa_Serve_result S s = Some r \<Longrightarrow> sa_Serve_result S (sa_Shutdown S s) = Some r"
  unfolding serve_returns_once_def by blast

lemma serve_step:
  "serve_returns_once S \<Longrightarrow> sa_step S s s' \<Longrightarrow> sa_Serve_result S s = Some r \<Longrightarrow> sa_Serve_result S s' = Some r"
  unfolding serve_returns_once_def by blast

lemma collected_ok_update:
  assumes "collected_ok S n p" "i < length (p_servers p)"
    "\<And>r. sa_Serve_result S (p_servers p ! i) = Some r \<Longrightarrow> sa_Serve_result S s' = Some r"
  shows "collected_ok S n (p\<lparr>p_servers := (p_servers p)[i := s']\<rparr>)"
  using assms by (fastforce simp: collected_ok_def nth_list_update)


lemma collected_ok_step:
  assumes "proc_step S start p p'" "collected_ok S n p" "serve_returns_once S"
  shows "collected_ok S n p'"
  using assms(1)
proof (cases rule: proc_step.cases)
  case (server i s')
  then show ?thesis
    using assms(2) serve_step [OF assms(3)] by (auto intro: collected_ok_update)
next
  case (shutdown_call calls waits i)
  have "i < length (p_servers p)"
    using assms(2) shutdown_call unfolding collected_ok_def by blast
  then have "collected_ok S n (p\<lparr>p_servers := (p_servers p)[i := sa_Shutdown S (p_servers p ! i)]\<rparr>)"
    using assms(2) serve_shutdown [OF assms(3)] by (intro collected_ok_update) blast+
  moreover have "calls - {i} \<subseteq> {..<length (p_servers p)}"
    using assms(2) shutdown_call unfolding collected_ok_def by blast
  ultimately show ?thesis
    using shutdown_call(1) by (simp add: collected_ok_def)
next
  case (start_server x xs s t)
  have "A \<subseteq> {..<Suc m}" if "A \<subseteq> {..<m}" for A and m :: nat
    using that by auto
  then show ?thesis
    using assms(2) start_server by (auto simp: collected_ok_def nth_append)
next
  case (receive i r)
  then show ?thesis
    using assms(2) by (auto simp: collected_ok_def) blast
qed (use assms(2) in \<open>auto simp: collected_ok_def\<close>)

text \<open>Once the process has exited it stays as it is.\<close>

lemma exited_stuck: "p_main p = Exited errs \<Longrightarrow> \<not> proc_step S start p p'"
  by (auto simp: running_def elim: proc_stepE)

text \<open>How the process came to exit.\<close>

definition exit_ok :: "'s server_api \<Rightarrow> ('x \<Rightarrow> (string + 's \<times> int) go) \<Rightarrow> nat \<Rightarrow> ('x, 's) process \<Rightarrow> bool" where
  "exit_ok S start n p \<longleftrightarrow> (\<forall>errs. p_main p = Exited errs \<longrightarrow>
     (\<exists>x err. start x = Inr (Inl err) \<and> errs = [err]) \<or>
     (length (p_servers p) = n \<and>
      (\<forall>i < n. \<exists>r. sa_Serve_result S (p_servers p ! i) = Some r \<and> set (errs_of r) \<subseteq> set errs)))"

lemma exit_ok_step:
  assumes "proc_step S start p p'" "collected_ok S n p"
  shows "exit_ok S start n p'"
  using assms(1)
proof (cases rule: proc_step.cases)
  case exits
  have "finite {..<length (p_servers p)}" "p_received p \<subseteq> {..<length (p_servers p)}"
    using assms(2) by (simp_all add: collected_ok_def)
  then have "p_received p = {..<length (p_servers p)}"
    using exits by (intro card_subset_eq) simp_all
  then show ?thesis
    using assms(2) exits by (auto simp: exit_ok_def collected_ok_def)
next
  case (start_fails x xs err)
  then show ?thesis
    by (auto simp: exit_ok_def)
qed (auto simp: exit_ok_def running_def)

text \<open>C37. \<open>run\<close> returns only with the error of a listener that could not be started, or when every listener has been
  started and \<open>Serve\<close> has returned on every server; without error only when none of these returned an error, for any
  order of starts, signals, shutdowns and returns.\<close>

theorem run_returns_last:
  assumes "serve_returns_once S" "proc_steps S start (proc_init todo) p" "p_main p = Exited errs"
  shows "(\<exists>x err. start x = Inr (Inl err) \<and> errs = [err]) \<or>
    (length (p_servers p) = length todo \<and>
     list_all (\<lambda>s. \<exists>r. sa_Serve_result S s = Some r \<and> set (errs_of r) \<subseteq> set errs) (p_servers p))"
proof -
  have "collected_ok S (length todo) p \<and> exit_ok S start (length todo) p"
    using assms(2)
  proof (induction rule: rtranclp_induct)
    case base
    then show ?case
      by (simp add: proc_init_def collected_ok_def exit_ok_def)
  next
    case (step p p')
    then show ?case
      using collected_ok_step [OF _ _ assms(1)] exit_ok_step by blast
  qed
  then show ?thesis
    using assms(3) by (auto simp: exit_ok_def list_all_length)
qed

theorem run_returns_last_witness:
  "\<exists>p. proc_steps sample_servers (\<lambda>x. Inr (Inl ''address already in use'')) (proc_init [''a'']) p \<and>
     p_main p = Exited [''address already in use''] \<and>
     (\<exists>x err. (\<lambda>x. Inr (Inl ''address already in use'') :: (string + (nat \<times> bool) \<times> int) go) x = Inr (Inl err) \<and>
        [''address already in use''] = [err])"
proof -
  let ?start = "\<lambda>x :: string. Inr (Inl ''address already in use'') :: (string + (nat \<times> bool) \<times> int) go"
  have "proc_step sample_servers ?start (proc_init [''a'']) (proc_init [''a'']\<lparr>p_main := Exited [''address already in use'']\<rparr>)"
    by (intro proc_step.start_fails) (simp_all add: proc_init_def)
  then have steps: "proc_steps sample_servers ?start (proc_init [''a'']) (proc_init [''a'']\<lparr>p_main := Exited [''address already in use'']\<rparr>)"
    by simp
  have "serve_returns_once sample_servers"
    by (auto simp: serve_returns_once_def sample_servers_def split: if_splits)
  from run_returns_last [OF this steps, of "[''address already in use'']"] steps show ?thesis
    by (intro exI [of _ "proc_init [''a'']\<lparr>p_main := Exited [''address already in use'']\<rparr>"]) simp
qed

section \<open>Log rotation on SIGHUP\<close>

text \<open>
  The channel holds one signal; more are dropped while it is full. \<open>h_signals\<close> counts the signals delivered to the
  channel's process, \<open>h_seen\<close> how many of them had been delivered when the last rotation began.
\<close>

record hup =
  h_channel :: bool
  h_open :: bool
  h_pending :: bool
  h_signals :: nat
  h_seen :: nat

definition handleHUP :: hup where
  "handleHUP = \<lparr>h_channel = True, h_open = True, h_pending = False, h_signals = 0, h_seen = 0\<rparr>"

definition stopHUP :: "hup \<Rightarrow> hup" where
  "stopHUP h = (if \<not> h_channel h then h else if h_open h then h\<lparr>h_open := False\<rparr> else h)"

inductive hup_step :: "hup \<Rightarrow> hup \<Rightarrow> bool" where
  sighup: "h_open h \<Longrightarrow> hup_step h (h\<lparr>h_pending := True, h_signals := Suc (h_signals h)\<rparr>)"
| rotate: "h_pending h \<Longrightarrow> hup_step h (h\<lparr>h_pending := False, h_seen := h_signals h\<rparr>)"
| stop: "hup_step h (stopHUP h)"

text \<open>Signals may share a rotation, but none is forgotten: when nothing is pending, a rotation began after the last one.\<close>

lemma hup_not_forgotten:
  assumes "hup_step\<^sup>*\<^sup>* handleHUP h" "\<not> h_pending h"
  shows "h_seen h = h_signals h"
proof -
  have "h_pending h \<or> h_seen h = h_signals h"
    using assms(1)
    by (induction rule: rtranclp_induct) (auto simp: handleHUP_def stopHUP_def elim!: hup_step.cases split: if_splits)
  with assms(2) show ?thesis
    by blast
qed

end
