(* ===== verification/HandlerSchemas.thy ===== *)
theory HandlerSchemas
  imports Schema Filters Content Proxy Server
begin

text \<open>
  What the handler and filter packages register when the program starts: the constructors with their type names
  (the \<open>init\<close> functions), and the rules their configurations are validated with. With the constructors that have no theory of
  their own: the file server's (\<open>handler/fs.go\<close>), pprof's and expvar's. The bodies of these handlers are third-party
  code and parameters.
\<close>

section \<open>Rules\<close>

definition type_rule :: "string \<Rightarrow> string \<times> rule" where
  "type_rule t = (''type'', RuleString [t])"

definition fsSchemas :: query_rules where
  "fsSchemas = [
     (''.'', RuleMap (Some [
        type_rule ''fs'', (''root'', RuleString []), (''compressRoot'', RuleString []),
        (''compressedFileSuffix'', RuleString []), (''indexNames'', RuleArray), (''cacheDuration'', DurationRule 0),
        (''allowEmptyRoot'', RuleBool), (''compress'', RuleBool), (''compressBrotli'', RuleBool),
        (''compressZstd'', RuleBool), (''generateIndexPages'', RuleBool), (''acceptByteRange'', RuleBool),
        (''skipCache'', RuleBool), (''compressedFileSuffixes'', RuleEvery [(''.'', RuleString [])])])),
     (''.indexNames[]'', RuleString [])]"

definition contentSchemas :: query_rules where
  "contentSchemas = [
     (''.'', RuleMap (Some [
        type_rule ''content'', (''body'', RuleString []), (''status'', RuleInt (Some 100) (Some 599)),
        (''headers'', RuleOr [RuleArray, RuleMap None]),
        (''conditions'', RuleEvery [
           (''.'', RuleMap (Some [
              (''path'', RuleString []), (''queryStringContains'', RuleString []),
              (''percentage'', RuleInt (Some 0) (Some 100)), (''body'', RuleString []),
              (''status'', RuleInt (Some 100) (Some 599)), (''headers'', RuleOr [RuleArray, RuleMap None])]))])]))]"

definition proxySchemas :: "string \<Rightarrow> query_rules" where
  "proxySchemas typeName = [
     (''.'', RuleMap (Some [
        type_rule typeName, (''url'', RuleString []), (''urls'', RuleArray),
        (''algorithm'', RuleString [algoRoundRobin, algoRandom, algoIPHash]),
        (''healthCheckInterval'', RuleInt (Some 0) None)])),
     (''.urls[]'', RuleString [])]"

definition headerSideRules :: rule where
  "headerSideRules = RuleMap (Some [
     (''set'', RuleEvery [(''.'', RuleString [])]), (''add'', RuleEvery [(''.'', RuleString [])]), (''del'', RuleArray)])"

definition headerSchemas :: query_rules where
  "headerSchemas = [
     (''.'', RuleMap (Some [type_rule ''header'', (''request'', headerSideRules), (''response'', headerSideRules)])),
     (''.request.del[]'', RuleString []), (''.response.del[]'', RuleString [])]"

definition basicAuthSchemas :: query_rules where
  "basicAuthSchemas = [
     (''.'', RuleMap (Some [
        type_rule ''basicAuth'', (''realm'', RuleString []), (''usersFile'', RuleString []),
        (''users'', RuleEvery [(''.'', RuleMap (Some [(''name'', RuleString []), (''secret'', RuleString [])]))])]))]"

definition pprofSchemas :: query_rules where
  "pprofSchemas = [(''.'', RuleMap (Some [type_rule ''pprof'']))]"

definition expvarSchemas :: query_rules where
  "expvarSchemas = [(''.'', RuleMap (Some [type_rule ''expvar'']))]"

section \<open>The file server, pprof and expvar\<close>

text \<open>A \<open>fasthttp.FS\<close> is of type \<open>'fs\<close>; \<open>zero_fs\<close> has only \<open>PathNotFound\<close> set, to \<open>SendDefaultError\<close>.\<close>

record ('n, 'fs, 'c) fs_api =
  fs_with_PathNotFound :: "('c \<Rightarrow> 'c) \<Rightarrow> 'fs"
  fs_UnmarshalViaJSON :: "'n \<Rightarrow> 'fs \<Rightarrow> string + 'fs"
  fs_Root :: "'fs \<Rightarrow> string"
  fs_NewRequestHandler :: "'fs \<Rightarrow> 'c request_handler"

definition requireRoot :: string where
  "requireRoot = ''failed to create FS: require '' @ [CHR 0x27] @ ''root'' @ [CHR 0x27] @ '' entry''"

definition NewFS :: "'c fasthttp \<Rightarrow> ('n, 'fs, 'c) fs_api \<Rightarrow> 'n \<Rightarrow> string + 'fs" where
  "NewFS F A cfg =
     (case fs_UnmarshalViaJSON A cfg (fs_with_PathNotFound A (SendDefaultError F)) of
        Inl err \<Rightarrow> Inl err
      | Inr fs \<Rightarrow> if fs_Root A fs = [] then Inl requireRoot else Inr fs)"

definition NewFSHandler :: "'c fasthttp \<Rightarrow> ('n, 'fs, 'c) fs_api \<Rightarrow> ('n, 'c) NewHandlerFunc" where
  "NewFSHandler F A cfg = Inr (map_sum id (fs_NewRequestHandler A) (NewFS F A cfg))"

definition pprofPrefix :: bytes where
  "pprofPrefix = ''/debug/pprof/''"

record 'c Pprof =
  pp_index :: "'c request_handler"
  pp_cmdline :: "'c request_handler"
  pp_profile :: "'c request_handler"
  pp_symbol :: "'c request_handler"
  pp_trace :: "'c request_handler"

definition pprof_warning :: bytes where
  "pprof_warning = ''Warning: pprof works only with the prefix '' @ [CHR 0x22] @ pprofPrefix @ [CHR 0x22]"

definition Pprof_Handle :: "'c fasthttp \<Rightarrow> 'c Pprof \<Rightarrow> 'c request_handler" where
  "Pprof_Handle F h ctx =
     (let path = ctx_Path F ctx
      in if \<not> HasPrefix path pprofPrefix then Inr (resp_SetBody F pprof_warning ctx)
         else let rest = drop (length pprofPrefix) path
              in if rest = ''cmdline'' then pp_cmdline h ctx
                 else if rest = ''profile'' then pp_profile h ctx
                 else if rest = ''symbol'' then pp_symbol h ctx
                 else if rest = ''trace'' then pp_trace h ctx
                 else pp_index h ctx)"

definition NewPprofHandler :: "'c fasthttp \<Rightarrow> 'c Pprof \<Rightarrow> ('n, 'c) NewHandlerFunc" where
  "NewPprofHandler F h cfg = Inr (Inr (Pprof_Handle F h))"

definition NewExpvarHandler :: "'c request_handler \<Rightarrow> ('n, 'c) NewHandlerFunc" where
  "NewExpvarHandler ExpvarHandler cfg = Inr (Inr ExpvarHandler)"

section \<open>Registration\<close>

text \<open>The registries of constructors and of schemas, as the \<open>init\<close> functions of the files extend them.\<close>

type_synonym ('n, 'c) registries = "(string \<Rightarrow> ('n, 'c) NewHandlerFunc option) \<times> schemas"

definition fs_init :: "'c fasthttp \<Rightarrow> ('n, 'fs, 'c) fs_api \<Rightarrow> ('n, 'c) registries \<Rightarrow> ('n, 'c) registries" where
  "fs_init F A r = (RegisterNewHandlerFunc ''fs'' (NewFSHandler F A) (fst r), RegisterHandlerSchema ''fs'' fsSchemas (snd r))"

text \<open>\<open>draws\<close> are the random numbers of a request, \<open>parse_args\<close> the parser of query strings.\<close>

definition NewContentHandler :: "'c fasthttp \<Rightarrow> 'n tree_api \<Rightarrow> (string \<Rightarrow> (bytes \<times> bytes) list) \<Rightarrow> ('c \<Rightarrow> nat \<Rightarrow> int) \<Rightarrow>
    ('n, 'c) NewHandlerFunc" where
  "NewContentHandler F T parse_args draws cfg =
     (let h = NewContent T parse_args cfg in Inr (Inr (\<lambda>ctx. Inr (Content_Handle F h (draws ctx) ctx))))"

definition content_init :: "'c fasthttp \<Rightarrow> 'n tree_api \<Rightarrow> (string \<Rightarrow> (bytes \<times> bytes) list) \<Rightarrow> ('c \<Rightarrow> nat \<Rightarrow> int) \<Rightarrow>
    ('n, 'c) registries \<Rightarrow> ('n, 'c) registries" where
  "content_init F T parse_args draws r =
     (RegisterNewHandlerFunc ''content'' (NewContentHandler F T parse_args draws) (fst r),
      RegisterHandlerSchema ''content'' contentSchemas (snd r))"

text \<open>\<open>adapt\<close> makes a handler of a balancer and its health checker: the adaptor to \<open>net/http\<close> and the proxies.\<close>

definition proxy_init :: "'n tree_api \<Rightarrow> (string \<Rightarrow> string + 'u) \<Rightarrow> ('u proxyBalancer \<times> (int \<times> int) option \<Rightarrow> 'c request_handler) \<Rightarrow>
    ('n, 'c) registries \<Rightarrow> ('n, 'c) registries" where
  "proxy_init T parseURL adapt r =
     (RegisterNewHandlerFunc ''proxy'' (map_sum id (map_sum id adapt) \<circ> NewProxyHandler T parseURL) (fst r),
      RegisterHandlerSchema ''proxy'' (proxySchemas ''proxy'') (snd r))"

definition balancer_init :: "'n tree_api \<Rightarrow> (string \<Rightarrow> string + 'u) \<Rightarrow> ('u proxyBalancer \<times> (int \<times> int) option \<Rightarrow> 'c request_handler) \<Rightarrow>
    ('n, 'c) registries \<Rightarrow> ('n, 'c) registries" where
  "balancer_init T parseURL adapt r =
     (RegisterNewHandlerFunc ''balancer'' (map_sum id (map_sum id adapt) \<circ> NewBalancerHandler T parseURL) (fst r),
      RegisterHandlerSchema ''balancer'' (proxySchemas ''balancer'') (snd r))"

definition pprof_init :: "'c fasthttp \<Rightarrow> 'c Pprof \<Rightarrow> ('n, 'c) registries \<Rightarrow> ('n, 'c) registries" where
  "pprof_init F h r =
     (RegisterNewHandlerFunc ''pprof'' (NewPprofHandler F h) (fst r), RegisterHandlerSchema ''pprof'' pprofSchemas (snd r))"

definition expvar_init :: "'c request_handler \<Rightarrow> ('n, 'c) registries \<Rightarrow> ('n, 'c) registries" where
  "expvar_init h r =
     (RegisterNewHandlerFunc ''expvar'' (NewExpvarHandler h) (fst r), RegisterHandlerSchema ''expvar'' expvarSchemas (snd r))"

definition basicAuth_schema_init :: "schemas \<Rightarrow> schemas" where
  "basicAuth_schema_init r = RegisterFilterSchema ''basicAuth'' basicAuthSchemas r"

definition header_schema_init :: "schemas \<Rightarrow> schemas" where
  "header_schema_init r = RegisterFilterSchema ''header'' headerSchemas r"

text \<open>The initialisation of the packages; pprof and expvar are compiled into debug builds only.\<close>

definition init_registries :: "'c fasthttp \<Rightarrow> 'n tree_api \<Rightarrow> ('n, 'fs, 'c) fs_api \<Rightarrow> (string \<Rightarrow> (bytes \<times> bytes) list) \<Rightarrow>
    ('c \<Rightarrow> nat \<Rightarrow> int) \<Rightarrow> (string \<Rightarrow> string + 'u) \<Rightarrow> ('u proxyBalancer \<times> (int \<times> int) option \<Rightarrow> 'c request_handler) \<Rightarrow> bool \<Rightarrow> 'c Pprof \<Rightarrow> 'c request_handler \<Rightarrow>
    ('n, 'c) registries" where
  "init_registries F T A parse_args draws parseURL adapt debug pprof expvar =
     (let r = balancer_init T parseURL adapt (Map.empty, []);
          r = content_init F T parse_args draws r;
          r = (if debug then expvar_init expvar r else r);
          r = fs_init F A r;
          r = (if debug then pprof_init F pprof r else r)
      in proxy_init T parseURL adapt r)"

definition filter_schemas :: schemas where
  "filter_schemas = header_schema_init (basicAuth_schema_init [])"

section \<open>Schemas and constructors\<close>

text \<open>The rule of a key of a configuration, when its schema allows it.\<close>

definition key_rule :: "query_rules \<Rightarrow> string \<Rightarrow> rule option" where
  "key_rule rules k = (case map_of rules ''.'' of Some (RuleMap (Some m)) \<Rightarrow> map_of m k | _ \<Rightarrow> None)"

lemmas schema_defs = fsSchemas_def contentSchemas_def proxySchemas_def headerSchemas_def basicAuthSchemas_def
  pprofSchemas_def expvarSchemas_def headerSideRules_def type_rule_def

lemmas init_defs = fs_init_def content_init_def proxy_init_def balancer_init_def pprof_init_def expvar_init_def
  filter_schemas_def header_schema_init_def basicAuth_schema_init_def

text \<open>Every handler type the program registers has a schema, and every schema a constructor: so an entry that is validated
  against rules is never refused as of unknown type, and an entry of a known type never escapes validation. The rules
  of a type accept no other type. The same holds of the filters.\<close>

lemma registries_agree:
  fixes F :: "'c fasthttp" and T :: "'n tree_api"
  assumes "init_registries F T A parse_args draws parseURL adapt debug pprof expvar = (constructors, handlerSchemas)"
  shows "(constructors t \<noteq> None \<longleftrightarrow> lookupHandlerRules handlerSchemas t \<noteq> None) \<and>
   (builtin_filters F T unmarshal readFile yaml_users t \<noteq> None \<longleftrightarrow> lookupFilterRules filter_schemas t \<noteq> None) \<and>
   (case lookupHandlerRules handlerSchemas t of
      None \<Rightarrow> True | Some rules \<Rightarrow> key_rule rules ''type'' = Some (RuleString [t])) \<and>
   (case lookupFilterRules filter_schemas t of
      None \<Rightarrow> True | Some rules \<Rightarrow> key_rule rules ''type'' = Some (RuleString [t]))"
proof -
  note regs = init_registries_def init_defs RegisterNewHandlerFunc_def RegisterHandlerSchema_def lookupHandlerRules_def
  have c: "constructors = fst (init_registries F T A parse_args draws parseURL adapt debug pprof expvar)"
    and s: "handlerSchemas = snd (init_registries F T A parse_args draws parseURL adapt debug pprof expvar)"
    using assms by simp_all
  have "constructors t \<noteq> None \<longleftrightarrow> lookupHandlerRules handlerSchemas t \<noteq> None"
    unfolding c s by (simp add: regs Let_def)
  moreover have "builtin_filters F T unmarshal readFile yaml_users t \<noteq> None \<longleftrightarrow> lookupFilterRules filter_schemas t \<noteq> None"
    by (simp add: builtin_filters_def RegisterNewFilterFunc_def lookupFilterRules_def init_defs RegisterFilterSchema_def)
  moreover have "case lookupHandlerRules handlerSchemas t of
      None \<Rightarrow> True | Some rules \<Rightarrow> key_rule rules ''type'' = Some (RuleString [t])"
    unfolding s by (simp add: regs Let_def key_rule_def schema_defs)
  moreover have "case lookupFilterRules filter_schemas t of
      None \<Rightarrow> True | Some rules \<Rightarrow> key_rule rules ''type'' = Some (RuleString [t])"
    by (simp add: lookupFilterRules_def init_defs RegisterFilterSchema_def key_rule_def schema_defs)
  ultimately show ?thesis
    by blast
qed

text \<open>Two configurations that agree on what a schema allows.\<close>

definition agree_on :: "'n tree_api \<Rightarrow> (string \<Rightarrow> rule option) \<Rightarrow> 'n \<Rightarrow> 'n \<Rightarrow> bool" where
  "agree_on T allowed n n' \<longleftrightarrow> (\<forall>k. allowed k \<noteq> None \<longrightarrow> tn_Get T k n = tn_Get T k n' \<and> tn_Has T k n = tn_Has T k n')"

lemma agree_onD:
  assumes "agree_on T allowed n n'" "allowed k \<noteq> None"
  shows "tn_Get T k n = tn_Get T k n'" "tn_Has T k n = tn_Has T k n'"
  using assms by (auto simp: agree_on_def)

text \<open>The constructors read nothing that the schemas do not allow.\<close>

lemma content_keys: "k \<in> {''body'', ''status'', ''headers'', ''conditions''} \<Longrightarrow> key_rule contentSchemas k \<noteq> None"
  by (auto simp: key_rule_def schema_defs)

lemma content_keys_read:
  assumes "agree_on T (key_rule contentSchemas) n n'"
  shows "NewContent T parse_args n = NewContent T parse_args n'"
proof -
  have k: "tn_Get T k n = tn_Get T k n'" "tn_Has T k n = tn_Has T k n'" if "k \<in> {''body'', ''status'', ''headers'', ''conditions''}" for k
    using agree_onD [OF assms content_keys [OF that]] by blast+
  have "buildContentResponse T n None = buildContentResponse T n' None"
    using k by (simp add: buildContentResponse_def)
  moreover have "buildContentCondition T parse_args c (Some n) = buildContentCondition T parse_args c (Some n')" for c
    using k by (simp add: buildContentCondition_def buildContentResponse_def Let_def)
  ultimately show ?thesis
    using k by (simp add: NewContent_def)
qed

lemma proxy_keys_read:
  assumes "agree_on T (key_rule (proxySchemas t)) n n'"
  shows "NewProxyHandler T parseURL n = NewProxyHandler T parseURL n'"
proof -
  have k: "tn_Get T k n = tn_Get T k n'" if "k \<in> {''url'', ''urls'', ''algorithm'', ''healthCheckInterval''}" for k
    using assms that by (intro agree_onD) (auto simp: key_rule_def schema_defs)
  then show ?thesis
    by (simp add: NewProxyHandler_def proxyURLs_def Let_def cong: sum.case_cong)
qed

lemma header_keys_read:
  assumes "agree_on T (key_rule headerSchemas) n n'"
  shows "NewHeaderFilter F T n = NewHeaderFilter F T n'"
proof -
  have k: "tn_Get T k n = tn_Get T k n'" if "k \<in> {''request'', ''response''}" for k
    using assms that by (intro agree_onD) (auto simp: key_rule_def schema_defs)
  then show ?thesis
    by (simp add: NewHeaderFilter_def)
qed

end
