(* ===== verification/HostLoggers.thy ===== *)
theory HostLoggers
  imports AccessLog Server
begin

text \<open>
  The loggers a host and a virtual server hand out: the methods of \<open>logger.Logger\<close>, \<open>nilLogger\<close> and
  \<open>LoggerDelegator\<close> (\<open>pkg/logger/logger.go\<close>), the logger of \<open>newVirtualHandler\<close>, and the part of
  \<open>hostHandler.init\<close> and \<open>hostHandler.Close\<close> that opens and closes the log outputs (\<open>pkg/handler/server.go\<close>),
  over the registry of rotators of \<open>Loggers\<close>.

  \<open>wr i\<close> writes to rotator \<open>i\<close>; \<open>stamp flgs\<close> is the date and time that \<open>log.Logger\<close> writes for its flags.
\<close>

section \<open>Model\<close>

text \<open>One call of \<open>Printf\<close> of the standard library's \<open>log.Logger\<close> with a formatted message: the prefix is
  before the header or, with \<open>Lmsgprefix\<close>, before the message; a missing newline is added; the result of
  the write is dropped.\<close>

definition print_line :: "(int \<Rightarrow> string) \<Rightarrow> string \<Rightarrow> int \<Rightarrow> string \<Rightarrow> bytes" where
  "print_line stamp prefix flgs msg =
     (let buf = (if and flgs Lmsgprefix = 0 then prefix @ stamp flgs else stamp flgs @ prefix) @ msg
      in if buf = [] \<or> last buf \<noteq> CHR 0x0A then buf @ [CHR 0x0A] else buf)"

definition log_Printf :: "(int \<Rightarrow> string) \<Rightarrow> (nat \<Rightarrow> 'w sink) \<Rightarrow> log_logger \<Rightarrow> string \<Rightarrow> 'w \<Rightarrow> 'w" where
  "log_Printf stamp wr lg msg w =
     (case lg of
        NilLogLogger \<Rightarrow> w
      | LogLogger out prefix flgs \<Rightarrow> snd (wr out (print_line stamp prefix flgs msg) w))"

definition logger_Printf :: "(int \<Rightarrow> string) \<Rightarrow> (nat \<Rightarrow> 'w sink) \<Rightarrow> logger \<Rightarrow> string \<Rightarrow> 'w \<Rightarrow> 'w" where
  "logger_Printf stamp wr l msg w =
     (case l of NilLogger \<Rightarrow> w | Logger lg rotator \<Rightarrow> log_Printf stamp wr lg msg w)"

text \<open>\<open>Write\<close> answers the number of bytes written and an error.\<close>

definition logger_Write :: "(nat \<Rightarrow> 'w sink) \<Rightarrow> logger \<Rightarrow> bytes \<Rightarrow> 'w \<Rightarrow> (nat \<times> string option) \<times> 'w" where
  "logger_Write wr l p w =
     (case l of
        NilLogger \<Rightarrow> ((0, None), w)
      | Logger lg rotator \<Rightarrow>
          (case rotator of
             None \<Rightarrow> ((0, None), w)
           | Some i \<Rightarrow>
               (case wr i p w of
                  (None, w) \<Rightarrow> ((length p, None), w)
                | (Some (n, err), w) \<Rightarrow> ((n, Some err), w))))"

definition logger_LogLogger :: "logger \<Rightarrow> log_logger" where
  "logger_LogLogger l = (case l of NilLogger \<Rightarrow> NilLogLogger | Logger lg rotator \<Rightarrow> lg)"

text \<open>A delegator: a nil function is \<open>None\<close>.\<close>

record 'w LoggerDelegator =
  PrintfFunc :: "(string \<Rightarrow> 'w \<Rightarrow> 'w) option"
  RotateFunc :: "('w \<Rightarrow> string option \<times> 'w) option"
  WriteFunc :: "(bytes \<Rightarrow> 'w \<Rightarrow> (nat \<times> string option) \<times> 'w) option"
  CloseFunc :: "('w \<Rightarrow> string option \<times> 'w) option"
  LogLoggerFunc :: "('w \<Rightarrow> log_logger \<times> 'w) option"

definition delegator_Printf :: "'w LoggerDelegator \<Rightarrow> string \<Rightarrow> 'w \<Rightarrow> 'w" where
  "delegator_Printf l msg w = (case PrintfFunc l of Some f \<Rightarrow> f msg w | None \<Rightarrow> w)"

definition delegator_Rotate :: "'w LoggerDelegator \<Rightarrow> 'w \<Rightarrow> string option \<times> 'w" where
  "delegator_Rotate l w = (case RotateFunc l of Some f \<Rightarrow> f w | None \<Rightarrow> (None, w))"

definition delegator_Write :: "'w LoggerDelegator \<Rightarrow> bytes \<Rightarrow> 'w \<Rightarrow> (nat \<times> string option) \<times> 'w" where
  "delegator_Write l p w = (case WriteFunc l of Some f \<Rightarrow> f p w | None \<Rightarrow> ((0, None), w))"

definition delegator_Close :: "'w LoggerDelegator \<Rightarrow> 'w \<Rightarrow> string option \<times> 'w" where
  "delegator_Close l w = (case CloseFunc l of Some f \<Rightarrow> f w | None \<Rightarrow> (None, w))"

definition delegator_LogLogger :: "'w LoggerDelegator \<Rightarrow> 'w \<Rightarrow> log_logger \<times> 'w" where
  "delegator_LogLogger l w = (case LogLoggerFunc l of Some f \<Rightarrow> f w | None \<Rightarrow> (NilLogLogger, w))"

text \<open>The logger of a virtual server: \<open>collect_loggers\<close> keeps the logger of the first host of each output
  (the hosts' configurations with their loggers, and the outputs seen so far); only \<open>PrintfFunc\<close> is set.\<close>

fun collect_loggers :: "('t Config \<times> logger) list \<Rightarrow> string set \<Rightarrow> logger list" where
  "collect_loggers [] outputs = []"
| "collect_loggers ((cfg, l) # hs) outputs =
     (if log_Output (cfg_Log cfg) \<in> outputs then collect_loggers hs outputs
      else l # collect_loggers hs (insert (log_Output (cfg_Log cfg)) outputs))"

definition virtual_logger :: "(int \<Rightarrow> string) \<Rightarrow> (nat \<Rightarrow> 'w sink) \<Rightarrow> ('t Config \<times> logger) list \<Rightarrow> 'w LoggerDelegator" where
  "virtual_logger stamp wr hs =
     \<lparr>PrintfFunc = Some (\<lambda>msg. fold (\<lambda>l. logger_Printf stamp wr l msg) (collect_loggers hs {})),
      RotateFunc = None, WriteFunc = None, CloseFunc = None, LogLoggerFunc = None\<rparr>"

text \<open>The logs of a host: opened at the start of \<open>hostHandler.init\<close>, whose errors are returned at once, and
  the only thing \<open>hostHandler.Close\<close> closes is the access log.\<close>

definition host_open_logs :: "'c log_api \<Rightarrow> string + string \<Rightarrow> (nat \<Rightarrow> string option) \<Rightarrow> 't Config \<Rightarrow> registry \<Rightarrow>
    (string + logger \<times> 'c accessLog option) \<times> registry" where
  "host_open_logs G hostname closeErr cfg st =
     (case NewLogger closeErr (cfg_Log cfg) st of
        (Inl err, st) \<Rightarrow> (Inl err, st)
      | (Inr l, st) \<Rightarrow>
          (case NewAccessLog G hostname closeErr cfg st of
             (Inl err, st) \<Rightarrow> (Inl err, st)
           | (Inr al, st) \<Rightarrow> (Inr (l, al), st)))"

definition host_close_logs :: "'w sink \<Rightarrow> (nat \<Rightarrow> string option) \<Rightarrow> 'c accessLog option \<Rightarrow> registry \<Rightarrow> 'w \<Rightarrow>
    string option \<times> registry \<times> 'w" where
  "host_close_logs wr closeErr al st w =
     (case al of
        None \<Rightarrow> (None, st, w)
      | Some l \<Rightarrow> (let (err, l, st, w) = accessLog_Close wr closeErr l st w in (err, st, w)))"

section \<open>The logger of a virtual server\<close>

text \<open>The outputs of the collected loggers are those of \<open>newVirtualHandler\<close>.\<close>

fun outputs_of :: "('t Config \<times> logger) list \<Rightarrow> string set \<Rightarrow> string list" where
  "outputs_of [] seen = []"
| "outputs_of ((cfg, l) # hs) seen =
     (if log_Output (cfg_Log cfg) \<in> seen then outputs_of hs seen
      else log_Output (cfg_Log cfg) # outputs_of hs (insert (log_Output (cfg_Log cfg)) seen))"

lemma new_host_handlers_outputs:
  "new_host_handlers new cfgs outs = Inr (Inr (hs, outs')) \<Longrightarrow> length ls = length cfgs \<Longrightarrow>
   outs' = outs @ outputs_of (zip cfgs ls) (List.set outs)"
proof (induction new cfgs outs arbitrary: hs outs' ls rule: new_host_handlers.induct)
  case (1 new outputs)
  then show ?case by simp
next
  case (2 new cfg cfgs outputs)
  from 2(3) obtain l ls' where ls: "ls = l # ls'" "length ls' = length cfgs"
    by (cases ls) auto
  let ?out = "log_Output (cfg_Log cfg)"
  let ?outs = "if ?out \<in> List.set outputs then outputs else outputs @ [?out]"
  from 2(2) obtain h hs1 where h: "new cfg = Inr (Inr h)" "new_host_handlers new cfgs ?outs = Inr (Inr (hs1, outs'))"
    by (auto simp: go_try_Inr_iff)
  from 2(1) [OF h(2) ls(2)] show ?case
    using ls by (auto split: if_splits)
qed

lemma outputs_of_distinct:
  "distinct (outputs_of hs seen)"
  "List.set (outputs_of hs seen) = (\<lambda>(cfg, l). log_Output (cfg_Log cfg)) ` List.set hs - seen"
  by (induction hs seen rule: outputs_of.induct) auto

text \<open>With each host's logger open on its own output, \<open>collect_loggers\<close> and the outputs correspond.\<close>

definition logger_output :: "registry \<Rightarrow> logger \<Rightarrow> string" where
  "logger_output st l =
     (case logger_LogLogger l of NilLogLogger \<Rightarrow> [] | LogLogger i prefix flgs \<Rightarrow> for_output (rotators st ! i))"

lemma collect_loggers_outputs:
  "\<forall>(cfg, l) \<in> List.set hs. logger_output st l = log_Output (cfg_Log cfg) \<Longrightarrow>
   map (logger_output st) (collect_loggers hs seen) = outputs_of hs seen"
  by (induction hs seen rule: outputs_of.induct) auto

text \<open>A message of a virtual server goes once to every output one of its hosts logs to, whatever the number
  of hosts that share it; the other methods of its logger do nothing.\<close>

lemma virtual_logger_once:
  assumes "newVirtualHandler new cfgs = Inr (Inr (hhs, outs))" "length ls = length cfgs"
    and "\<forall>(cfg, l) \<in> List.set (zip cfgs ls). logger_output st l = log_Output (cfg_Log cfg)"
  shows "\<exists>cs. map (logger_output st) cs = outs \<and> distinct outs \<and>
      List.set outs = (\<lambda>cfg. log_Output (cfg_Log cfg)) ` List.set cfgs \<and>
      delegator_Printf (virtual_logger stamp wr (zip cfgs ls)) msg w = fold (\<lambda>l. logger_Printf stamp wr l msg) cs w \<and>
      delegator_Write (virtual_logger stamp wr (zip cfgs ls)) p w = ((0, None), w) \<and>
      delegator_LogLogger (virtual_logger stamp wr (zip cfgs ls)) w = (NilLogLogger, w)"
proof (intro exI conjI)
  have outs: "outs = outputs_of (zip cfgs ls) {}"
    using new_host_handlers_outputs [OF _ assms(2)] assms(1) by (fastforce simp: newVirtualHandler_def)
  show "map (logger_output st) (collect_loggers (zip cfgs ls) {}) = outs"
    using collect_loggers_outputs [OF assms(3)] outs by simp
  show "distinct outs"
    by (simp add: outs outputs_of_distinct)
  have "(\<lambda>(cfg, l). log_Output (cfg_Log cfg)) ` List.set (zip cfgs ls) = (\<lambda>cfg. log_Output (cfg_Log cfg)) ` List.set cfgs"
    using assms(2) by (metis (no_types, lifting) case_prod_beta' image_cong image_image list.set_map map_fst_zip)
  then show "List.set outs = (\<lambda>cfg. log_Output (cfg_Log cfg)) ` List.set cfgs"
    by (simp add: outs outputs_of_distinct)
qed (simp_all add: virtual_logger_def delegator_Printf_def delegator_Write_def delegator_LogLogger_def)

section \<open>The outputs a host holds\<close>

lemma for_output_share: "for_output (rotators (share j st) ! i) = for_output (rotators st ! i)"
  by (cases "j < length (rotators st)") (auto simp: share_def nth_list_update list_update_beyond not_less)

lemma for_output_SharedRotator:
  "SharedRotator out cfg st = (j, st') \<Longrightarrow> i < length (rotators st) \<Longrightarrow>
   for_output (rotators st' ! i) = for_output (rotators st ! i)"
  by (auto simp: SharedRotator_def for_output_share nth_append Let_def split: option.splits)

lemma for_output_Close: "for_output (rotators (snd (Close closeErr j st)) ! i) = for_output (rotators st ! i)"
  by (cases "j < length (rotators st)")
    (auto simp: Close_def close_begin_def close_end_def removeSharedRotator_def nth_list_update list_update_beyond not_less Let_def)

lemma held_in_range: "shared_reach st h \<Longrightarrow> i \<in># h \<Longrightarrow> i < length (rotators st)"
  using shared_reach_inv [of st h] by (simp add: shared_inv_def)

text \<open>A client that comes and goes leaves the others' outputs alone.\<close>

lemma open_and_close:
  assumes "shared_reach st h" "SharedRotator out cfg st = (j, st1)"
  shows "shared_reach (snd (Close closeErr j st1)) h"
    and "i \<in># h \<Longrightarrow> for_output (rotators (snd (Close closeErr j st1)) ! i) = for_output (rotators st ! i)"
  using shared_reach.close [OF shared_reach.share [OF assms], of j closeErr]
  by (simp_all add: for_output_Close for_output_SharedRotator [OF assms(2) held_in_range [OF assms(1)]])

lemma NewLogger_takes:
  assumes "NewLogger closeErr cfg st = (Inr l, st1)" "log_Output cfg \<noteq> []"
  shows "\<exists>i flgs. l = Logger (LogLogger i (log_Prefix cfg) flgs) (Some i) \<and>
    SharedRotator (log_Output cfg) (log_Rotation cfg) st = (i, st1)"
  using assms by (auto simp: NewLogger_def newLogger_def split: prod.splits sum.splits)

lemma NewAccessLog_takes:
  assumes "NewAccessLog G hostname closeErr cfg st = (res, st1)"
  shows "case res of
      Inl err \<Rightarrow> (\<exists>out rot j s. SharedRotator out rot st = (j, s) \<and> st1 = snd (Close closeErr j s))
    | Inr None \<Rightarrow> st1 = st
    | Inr (Some l) \<Rightarrow> (\<exists>out rot j. SharedRotator out rot st = (j, st1) \<and> l_out l = Some j \<and> \<not> l_closed l)"
  using assms newAccessLog_open [of G hostname _ cfg]
  by (fastforce simp: NewAccessLog_def log_open_def split: prod.splits sum.splits if_splits)

lemma accessLog_Close_registry:
  "\<not> l_closed l \<Longrightarrow> l_out l = Some j \<Longrightarrow> fst (snd (snd (accessLog_Close wr closeErr l st w))) = snd (Close closeErr j st)"
  by (simp add: accessLog_Close_def Let_def split: prod.splits)

text \<open>A host whose log has an output keeps it: when opening the access log fails, \<open>init\<close> returns without
  closing the logger, and \<open>hostHandler.Close\<close> gives back the access log's rotator only. In both cases the
  registry still has the log's rotator, once more than before, and it is not closed.\<close>

lemma host_keeps_log_output:
  assumes "shared_reach st h" "log_Output (cfg_Log cfg) \<noteq> []"
    and flags: "List.set (log_Flags (cfg_Log cfg)) \<subseteq> {''date'', ''time'', ''microsecond'', ''utc'', ''msgprefix''}"
    and run: "host_open_logs G hostname closeErr cfg st = (res, st1)"
    and st2: "st2 = (case res of Inl err \<Rightarrow> st1 | Inr (l, al) \<Rightarrow> fst (snd (host_close_logs wr closeErr al st1 w)))"
  shows "\<exists>i. shared_reach st2 (add_mset i h) \<and> for_output (rotators st2 ! i) = log_Output (cfg_Log cfg) \<and>
      map_of (sharedRotators st2) (log_Output (cfg_Log cfg)) = Some i \<and> closes (rotators st2 ! i) = 0"
proof -
  obtain l s where l: "NewLogger closeErr (cfg_Log cfg) st = (Inr l, s)"
    using flags assms(2) parse_flags_known [of "log_Flags (cfg_Log cfg)" 0]
    by (cases "SharedRotator (log_Output (cfg_Log cfg)) (log_Rotation (cfg_Log cfg)) st")
      (auto simp: NewLogger_def newLogger_def)
  then obtain i where i: "SharedRotator (log_Output (cfg_Log cfg)) (log_Rotation (cfg_Log cfg)) st = (i, s)"
    using NewLogger_takes assms(2) by blast
  have s: "shared_reach s (add_mset i h)" "for_output (rotators s ! i) = log_Output (cfg_Log cfg)"
    using shared_reach.share [OF assms(1) i] outputs.acquire_good [OF shared_reach_inv [OF assms(1)] i] by auto
  obtain ra s1 where al: "NewAccessLog G hostname closeErr cfg s = (ra, s1)"
    by (cases "NewAccessLog G hostname closeErr cfg s")
  have "st2 = s \<or> (\<exists>out rot j s'. SharedRotator out rot s = (j, s') \<and> st2 = snd (Close closeErr j s'))"
    using NewAccessLog_takes [OF al] run st2 l al accessLog_Close_registry [of _ _ wr closeErr s1 w]
    by (fastforce simp: host_open_logs_def host_close_logs_def split: sum.splits option.splits prod.splits)
  then have "shared_reach st2 (add_mset i h)" "for_output (rotators st2 ! i) = log_Output (cfg_Log cfg)"
    using s open_and_close [OF s(1)] by auto
  then show ?thesis
    using shared_reach_inv [of st2 "add_mset i h"] by (auto simp: shared_inv_def intro!: exI [of _ i])
qed

end
