(* ===== verification/ResultRace.thy ===== *)
theory ResultRace
  imports RouteCaching "HOL-Library.Multiset"
begin

text \<open>
  \<open>CachedRoute\<close> of \<open>pkg/route/route.go\<close> with its pointers: results are objects of a heap, the cache holds
  pointers to them, the pool hands them out again, and any number of goroutines serve requests, each of
  them between any two steps of the others, of the eviction passes and of the release callbacks. A
  goroutine that has got a pointer from the cache copies the object without a lock; the eviction pass may
  release the object meanwhile. \<open>RouteCaching\<close> is the view of a single goroutine, where a request is one step.

  \<open>Q\<close> are the requests that may come in. A step of a goroutine is one call that synchronises (the cache's
  \<open>Get\<close> and \<open>Set\<close>, the pool's \<open>Get\<close> and \<open>Put\<close>) or the work on an object between two of them, which is one step
  although it is not atomic: the invariant shows that nobody else writes the objects it reads or writes.
\<close>

section \<open>Model\<close>

type_synonym request = "nat \<times> bytes \<times> bytes"

record results =
  heap :: "nat \<Rightarrow> Result"
  fresh :: nat
  free :: "nat list"
  by_key :: "(nat, unit) cache"
  clock :: int

text \<open>Where a goroutine is in \<open>CachedRoute\<close> and its caller; pointers are addresses. \<open>Holding\<close> and \<open>Copying\<close>
  remember (as a ghost) when the pointer came from, or went to, the cache.\<close>

datatype goroutine =
    Start request
  | Missed request
  | Routed request nat
  | Holding request nat int
  | Copying request nat nat int
  | Answered request nat
  | Done request Result

text \<open>\<open>sync.Pool.Get\<close>: any pooled object, or a new one.\<close>

inductive acquires :: "results \<Rightarrow> nat \<Rightarrow> results \<Rightarrow> bool" where
  pooled: "a \<in> List.set (free s) \<Longrightarrow> acquires s a (s\<lparr>free := remove1 a (free s)\<rparr>)"
| new: "a = fresh s \<Longrightarrow> acquires s a (s\<lparr>heap := (heap s)(a := zero_result), fresh := Suc a\<rparr>)"

text \<open>\<open>Release\<close> of the object at an address.\<close>

definition release_at :: "nat \<Rightarrow> results \<Rightarrow> results" where
  "release_at a s = s\<lparr>heap := (heap s)(a := Reset (heap s a)), free := a # free s\<rparr>"

text \<open>\<open>Route\<close> working on the object it acquired.\<close>

definition route_into :: "Routes \<Rightarrow> request \<Rightarrow> nat \<Rightarrow> results \<Rightarrow> results" where
  "route_into rs q a s =
     (case q of (off, meth, path) \<Rightarrow>
        s\<lparr>heap := (heap s)(a := fst (Routes_Route (\<lambda>_. 0) rs [heap s a] meth path off))\<rparr>)"

definition key_of :: "maphash \<Rightarrow> request \<Rightarrow> key" where
  "key_of mh q = (case q of (off, meth, path) \<Rightarrow> request_key mh \<lparr>hashed = [], lenBuf = []\<rparr> off meth path)"

inductive go_step :: "maphash \<Rightarrow> Routes \<Rightarrow> results \<Rightarrow> goroutine \<Rightarrow> results \<Rightarrow> goroutine \<Rightarrow> bool" for mh rs where
  hit: "Get (clock s) (key_of mh q) (by_key s) = (Some a, c) \<Longrightarrow>
    go_step mh rs s (Start q) (s\<lparr>by_key := c\<rparr>) (Holding q a (clock s))"
| miss: "Get (clock s) (key_of mh q) (by_key s) = (None, c) \<Longrightarrow>
    go_step mh rs s (Start q) (s\<lparr>by_key := c\<rparr>) (Missed q)"
| route: "acquires s a s' \<Longrightarrow> go_step mh rs s (Missed q) (route_into rs q a s') (Routed q a)"
| store: "go_step mh rs s (Routed q a) (s\<lparr>by_key := Set (clock s) (key_of mh q) (Some a) (by_key s)\<rparr>) (Holding q a (clock s))"
| acquire: "acquires s d s' \<Longrightarrow> go_step mh rs s (Holding q a t) s' (Copying q a d t)"
| copy: "go_step mh rs s (Copying q a d t) (s\<lparr>heap := (heap s)(d := CopyTo (heap s a) (heap s d))\<rparr>) (Answered q d)"
| use: "go_step mh rs s (Answered q d) (release_at d s) (Done q (heap s d))"

text \<open>The steps of the system: a request comes in, a goroutine moves, the clock is read or set, an eviction
  pass that was started runs, one of the release callbacks it started runs.\<close>

inductive res_step :: "maphash \<Rightarrow> Routes \<Rightarrow> request set \<Rightarrow> results \<times> goroutine multiset \<Rightarrow> results \<times> goroutine multiset \<Rightarrow> bool"
  for mh rs Q where
  arrive: "q \<in> Q \<Longrightarrow> res_step mh rs Q (s, gs) (s, add_mset (Start q) gs)"
| run: "go_step mh rs s g s' g' \<Longrightarrow> res_step mh rs Q (s, add_mset g gs) (s', add_mset g' gs)"
| tick: "0 \<le> t \<Longrightarrow> t < 2 ^ 62 \<Longrightarrow> res_step mh rs Q (s, gs) (s\<lparr>clock := t\<rparr>, gs)"
| evict: "e \<in> List.set (pending (by_key s)) \<Longrightarrow> res_step mh rs Q (s, gs) (s\<lparr>by_key := run_evict e (by_key s)\<rparr>, gs)"
| callback: "((), k, Some a) \<in> List.set (released (by_key s)) \<Longrightarrow>
    res_step mh rs Q (s, gs)
      (release_at a (s\<lparr>by_key := (by_key s)\<lparr>released := remove1 ((), k, Some a) (released (by_key s))\<rparr>\<rparr>), gs)"

text \<open>The states reached from a new table by steps that a scheduler condition allows.\<close>

definition res_init :: "int \<Rightarrow> (nat, unit) cache \<Rightarrow> results" where
  "res_init t c = \<lparr>heap = (\<lambda>_. zero_result), fresh = 0, free = [], by_key = c, clock = t\<rparr>"

definition routes_cache :: "int \<Rightarrow> RoutesCache \<Rightarrow> (nat, unit) cache" where
  "routes_cache t cfg = OnRelease (Some ()) (NewCache t \<lparr>Expire = rc_Expire cfg, Interval = rc_Interval cfg, MaxEntries = rc_MaxEntries cfg\<rparr>)"

inductive res_reach :: "maphash \<Rightarrow> Routes \<Rightarrow> request set \<Rightarrow>
    (results \<times> goroutine multiset \<Rightarrow> results \<times> goroutine multiset \<Rightarrow> bool) \<Rightarrow> RoutesCache \<Rightarrow>
    results \<times> goroutine multiset \<Rightarrow> bool" for mh rs Q allowed cfg where
  init: "0 \<le> t \<Longrightarrow> t < 2 ^ 62 \<Longrightarrow> res_reach mh rs Q allowed cfg (res_init t (routes_cache t cfg), {#})"
| step: "res_reach mh rs Q allowed cfg x \<Longrightarrow> res_step mh rs Q x y \<Longrightarrow> allowed x y \<Longrightarrow> res_reach mh rs Q allowed cfg y"

text \<open>The pointer a goroutine is going to copy from, and since when it has it.\<close>

fun source :: "goroutine \<Rightarrow> (nat \<times> int) option" where
  "source (Holding q a t) = Some (a, t)"
| "source (Copying q a d t) = Some (a, t)"
| "source _ = None"

text \<open>A clock that does not go back, and goroutines that copy a result within \<open>expire\<close> milliseconds.\<close>

definition forward :: "results \<times> goroutine multiset \<Rightarrow> results \<times> goroutine multiset \<Rightarrow> bool" where
  "forward x y \<longleftrightarrow> clock (fst x) \<le> clock (fst y)"

definition prompt :: "results \<times> goroutine multiset \<Rightarrow> results \<times> goroutine multiset \<Rightarrow> bool" where
  "prompt x y \<longleftrightarrow> (\<forall>g \<in># snd y. \<forall>a t. source g = Some (a, t) \<longrightarrow> clock (fst y) \<le> t + expire (by_key (fst y)))"

section \<open>Who owns an object\<close>

text \<open>Every object is in the pool, owned by one goroutine, pointed to by one entry of the cache or by one release
  callback, or in none of these places.\<close>

fun owned :: "goroutine \<Rightarrow> nat multiset" where
  "owned (Routed q a) = {#a#}"
| "owned (Copying q a d t) = {#d#}"
| "owned (Answered q d) = {#d#}"
| "owned _ = {#}"

definition stored :: "(nat, unit) cache \<Rightarrow> nat option multiset" where
  "stored c = image_mset snd (mset (entries c))"

definition releasing :: "(nat, unit) cache \<Rightarrow> nat option multiset" where
  "releasing c = image_mset (\<lambda>(f, k, v). v) (mset (released c))"

definition cells :: "results \<Rightarrow> goroutine multiset \<Rightarrow> nat option multiset" where
  "cells s gs = image_mset Some (mset (free s) + \<Sum>\<^sub># (image_mset owned gs)) + stored (by_key s) + releasing (by_key s)"

definition cell_inv :: "results \<Rightarrow> goroutine multiset \<Rightarrow> bool" where
  "cell_inv s gs \<longleftrightarrow> (\<forall>x. count (cells s gs) x \<le> 1) \<and> None \<notin># cells s gs \<and> (\<forall>a. Some a \<in># cells s gs \<longrightarrow> a < fresh s)"

lemma entries_Get [simp]: "entries (snd (Get t k c)) = entries c"
proof -
  have "map_of xs k = Some v \<Longrightarrow> map (\<lambda>(k, v). (k, value v)) (AList.update k (v\<lparr>peek := t\<rparr>) xs) = map (\<lambda>(k, v). (k, value v)) xs"
    for xs :: "(key \<times> 'a cacheValue) list" and v
    by (induction xs) auto
  then show ?thesis
    by (simp add: entries_def cache_simps split: option.split)
qed

lemma stored_Get [simp]: "stored (snd (Get t k c)) = stored c"
  by (simp add: stored_def)

lemma stored_Set: "stored (Set t k v c) \<subseteq># add_mset v (stored c)"
proof -
  have "image_mset (\<lambda>(k, v). value v) (mset (AList.update k w xs)) \<subseteq># add_mset (value w) (image_mset (\<lambda>(k, v). value v) (mset xs))"
    for xs :: "(key \<times> nat cacheValue) list" and w
    by (induction xs) (auto simp: add_mset_commute subset_mset.add_increasing2 intro: subset_mset.order_trans)
  then have "image_mset (\<lambda>(k, v). value v) (mset (AList.update k \<lparr>value = v, peek = t\<rparr> (store c)))
      \<subseteq># add_mset v (image_mset (\<lambda>(k, v). value v) (mset (store c)))"
    by (metis cacheValue.select_convs(1))
  then show ?thesis
    by (simp add: stored_def entries_def cache_simps image_mset.compositionality comp_def split_def)
qed

lemma releasing_fields [simp]:
  "releasing (snd (Get t k c)) = releasing c" "releasing (Set t k v c) = releasing c"
  by (simp_all add: releasing_def)

lemma stored_run_evict:
  assumes "onRelease c = Some ()"
  shows "stored (run_evict e c) + releasing (run_evict e c) = stored c + releasing c"
proof -
  obtain rel where "mset (entries c) = mset (entries (run_evict e c)) + mset rel"
    "released (run_evict e c) = released c @ map (\<lambda>(k, v). ((), k, v)) rel"
    using entries_run_evict [of c e] assms by auto
  then show ?thesis
    by (simp add: stored_def releasing_def image_mset.compositionality comp_def split_def)
qed

lemma stored_lookup: "map_of (store c) k = Some v \<Longrightarrow> value v \<in># stored c"
  by (force simp: stored_def entries_def dest: map_of_SomeD)

lemma cells_add: "cells s (add_mset g gs) = image_mset Some (owned g) + cells s gs"
  by (simp add: cells_def)

lemma acquires_cells:
  assumes "acquires s a s'"
  shows "(cells s gs = add_mset (Some a) (cells s' gs) \<and> fresh s' = fresh s) \<or>
   (cells s' gs = cells s gs \<and> a = fresh s \<and> fresh s' = Suc a)"
  using assms
proof cases
  case pooled
  have "mset (free s) = add_mset a (mset (remove1 a (free s)))"
    using pooled(2) by (simp del: add_mset_remove_trivial_If)
  moreover have "free s' = remove1 a (free s)" "by_key s' = by_key s" "fresh s' = fresh s"
    using pooled(1) by simp_all
  ultimately show ?thesis
    by (simp add: cells_def del: mset_remove1)
qed (simp add: cells_def)

lemma cells_step:
  assumes "go_step mh rs s g s' g'"
  shows "(cells s' (add_mset g' gs) \<subseteq># cells s (add_mset g gs) \<and> fresh s' = fresh s) \<or>
    (cells s' (add_mset g' gs) = add_mset (Some (fresh s)) (cells s (add_mset g gs)) \<and> fresh s' = Suc (fresh s))"
  using assms
proof cases
  case (hit q a c)
  then have "c = snd (Get (clock s) (key_of mh q) (by_key s))" by simp
  then have "cells s' gs = cells s gs" "fresh s' = fresh s"
    using hit(2) by (simp_all add: cells_def)
  with hit show ?thesis by (simp add: cells_add)
next
  case (miss q c)
  then have "c = snd (Get (clock s) (key_of mh q) (by_key s))" by simp
  then have "cells s' gs = cells s gs" "fresh s' = fresh s"
    using miss(2) by (simp_all add: cells_def)
  with miss show ?thesis by (simp add: cells_add)
next
  case (route a s1 q)
  then have "cells s' gs = cells s1 gs" "fresh s' = fresh s1"
    by (simp_all add: route_into_def cells_def split: prod.split)
  with acquires_cells [OF route(4), of gs] show ?thesis
    using route(1,3) by (auto simp: cells_add)
next
  case (store q a)
  have "cells s' gs \<subseteq># add_mset (Some a) (cells s gs)"
    using stored_Set [of "clock s" "key_of mh q" "Some a" "by_key s"] store(2) by (simp add: cells_def)
  with store show ?thesis by (simp add: cells_add)
next
  case (acquire d q a t)
  with acquires_cells [OF acquire(3), of gs] show ?thesis
    by (auto simp: cells_add)
next
  case (copy q a d t)
  then have "cells s' gs = cells s gs" "fresh s' = fresh s"
    by (simp_all add: cells_def)
  with copy show ?thesis by (simp add: cells_add)
next
  case (use q d)
  then have "cells s' gs = add_mset (Some d) (cells s gs)" "fresh s' = fresh s"
    by (simp_all add: cells_def release_at_def)
  with use show ?thesis by (simp add: cells_add)
qed

lemma cell_inv_shrink: "cell_inv s gs \<Longrightarrow> cells s' gs' \<subseteq># cells s gs \<Longrightarrow> fresh s' = fresh s \<Longrightarrow> cell_inv s' gs'"
  unfolding cell_inv_def by (metis mset_subset_eq_count mset_subset_eqD order_trans)

lemma cell_inv_new:
  "cell_inv s gs \<Longrightarrow> cells s' gs' = add_mset (Some (fresh s)) (cells s gs) \<Longrightarrow> fresh s' = Suc (fresh s) \<Longrightarrow> cell_inv s' gs'"
  unfolding cell_inv_def by (force simp: not_in_iff less_Suc_eq)

lemma cell_inv_go: "go_step mh rs s g s' g' \<Longrightarrow> cell_inv s (add_mset g gs) \<Longrightarrow> cell_inv s' (add_mset g' gs)"
  using cells_step [of mh rs s g s' g' gs] cell_inv_shrink cell_inv_new by blast

lemma cell_inv_evict: "cell_inv s gs \<Longrightarrow> onRelease (by_key s) = Some () \<Longrightarrow> cell_inv (s\<lparr>by_key := run_evict e (by_key s)\<rparr>) gs"
  using stored_run_evict [of "by_key s" e]
  by (elim cell_inv_shrink) (simp_all add: cells_def add.assoc)

lemma releasing_remove1:
  assumes "((), k, v) \<in> List.set (released c)"
  shows "releasing c = add_mset v (releasing (c\<lparr>released := remove1 ((), k, v) (released c)\<rparr>))"
proof -
  have "mset (released c) = add_mset ((), k, v) (mset (remove1 ((), k, v) (released c)))"
    using assms by simp
  from arg_cong [OF this, of "image_mset (\<lambda>(f, k, v). v)"] show ?thesis
    by (simp add: releasing_def del: mset_remove1)
qed

lemma cell_inv_callback:
  assumes "cell_inv s gs" "((), k, Some a) \<in> List.set (released (by_key s))"
  shows "cell_inv (release_at a (s\<lparr>by_key := (by_key s)\<lparr>released := remove1 ((), k, Some a) (released (by_key s))\<rparr>\<rparr>)) gs"
proof (rule cell_inv_shrink [OF assms(1)])
  have "stored (c\<lparr>released := r\<rparr>) = stored c" for c r
    by (simp add: stored_def entries_def)
  then show "cells (release_at a (s\<lparr>by_key := (by_key s)\<lparr>released := remove1 ((), k, Some a) (released (by_key s))\<rparr>\<rparr>)) gs \<subseteq># cells s gs"
    using releasing_remove1 [OF assms(2)] by (simp add: cells_def release_at_def)
qed (simp add: release_at_def)

lemma count_Some_image: "count (image_mset Some M) (Some a) = count M a"
  by (induction M) auto

text \<open>What one pointer to an object excludes.\<close>

lemma exclusive:
  assumes "cell_inv s gs"
  shows "a \<in> List.set (free s) \<Longrightarrow> a \<notin># \<Sum>\<^sub># (image_mset owned gs) \<and> Some a \<notin># stored (by_key s) + releasing (by_key s)"
    and "a \<in># \<Sum>\<^sub># (image_mset owned gs) \<Longrightarrow> a \<notin> List.set (free s) \<and> Some a \<notin># stored (by_key s) + releasing (by_key s)"
    and "Some a \<in># stored (by_key s) \<Longrightarrow>
      a \<notin> List.set (free s) \<and> a \<notin># \<Sum>\<^sub># (image_mset owned gs) \<and> Some a \<notin># releasing (by_key s)"
proof -
  have "count (cells s gs) (Some a) \<le> 1"
    using assms by (simp add: cell_inv_def)
  then have le: "count (mset (free s)) a + count (\<Sum>\<^sub># (image_mset owned gs)) a + count (stored (by_key s)) (Some a) +
      count (releasing (by_key s)) (Some a) \<le> 1"
    unfolding cells_def count_union count_Some_image by linarith
  have z: "x \<in># M \<longleftrightarrow> 1 \<le> count M x" for x :: 'b and M
    by (simp add: Suc_le_eq)
  show "a \<in> List.set (free s) \<Longrightarrow> a \<notin># \<Sum>\<^sub># (image_mset owned gs) \<and> Some a \<notin># stored (by_key s) + releasing (by_key s)"
    using le unfolding set_mset_mset [symmetric] z count_union by linarith
  show "a \<in># \<Sum>\<^sub># (image_mset owned gs) \<Longrightarrow> a \<notin> List.set (free s) \<and> Some a \<notin># stored (by_key s) + releasing (by_key s)"
    using le unfolding set_mset_mset [symmetric] z count_union by linarith
  show "Some a \<in># stored (by_key s) \<Longrightarrow> a \<notin> List.set (free s) \<and> a \<notin># \<Sum>\<^sub># (image_mset owned gs) \<and> Some a \<notin># releasing (by_key s)"
    using le unfolding set_mset_mset [symmetric] z count_union by linarith
qed

section \<open>What is written\<close>

text \<open>The objects that are written, now or later: those in the pool, those a goroutine owns and those that are
  being released. The others are read only.\<close>

definition writable :: "results \<Rightarrow> goroutine multiset \<Rightarrow> nat set" where
  "writable s gs = List.set (free s) \<union> set_mset (\<Sum>\<^sub># (image_mset owned gs)) \<union> {a. Some a \<in># releasing (by_key s)}"

lemma acquires_frame:
  "acquires s a s' \<Longrightarrow> by_key s' = by_key s" "acquires s a s' \<Longrightarrow> clock s' = clock s" "acquires s a s' \<Longrightarrow> fresh s \<le> fresh s'"
  by (auto elim: acquires.cases)

lemma acquires_writable:
  "acquires s a s' \<Longrightarrow> b \<notin> writable s gs \<Longrightarrow> b < fresh s \<Longrightarrow> b \<noteq> a \<and> b \<notin> writable s' gs \<and> heap s' b = heap s b"
  by (elim acquires.cases) (auto simp: writable_def dest: notin_set_remove1)

lemma writable_add: "writable s (add_mset g gs) = set_mset (owned g) \<union> writable s gs"
  by (auto simp: writable_def)

lemma go_writes:
  assumes "go_step mh rs s g s' g'" "a \<notin> writable s (add_mset g gs)" "a < fresh s"
  shows "heap s' a = heap s a \<and> a \<notin> writable s' (add_mset g' gs) \<and> a < fresh s'"
proof -
  have out: "a \<notin> set_mset (owned g)" "a \<notin> writable s gs"
    using assms(2) by (simp_all add: writable_add)
  from assms(1) show ?thesis
  proof cases
    case (hit q b c)
    then have "c = snd (Get (clock s) (key_of mh q) (by_key s))" by simp
    then have "writable s' gs = writable s gs"
      using hit(2) by (simp add: writable_def)
    with hit out assms(3) show ?thesis by (simp add: writable_add)
  next
    case (miss q c)
    then have "c = snd (Get (clock s) (key_of mh q) (by_key s))" by simp
    then have "writable s' gs = writable s gs"
      using miss(2) by (simp add: writable_def)
    with miss out assms(3) show ?thesis by (simp add: writable_add)
  next
    case (route b s1 q)
    have s1: "a \<noteq> b" "a \<notin> writable s1 gs" "heap s1 a = heap s a" "fresh s \<le> fresh s1"
      using acquires_writable [OF route(4) out(2) assms(3)] acquires_frame(3) [OF route(4)] by simp_all
    have "writable s' gs = writable s1 gs" "heap s' a = heap s1 a" "fresh s' = fresh s1"
      using route(2) s1(1) by (simp_all add: writable_def route_into_def split: prod.split)
    with route(3) s1 assms(3) show ?thesis by (simp add: writable_add)
  next
    case (store q b)
    then have "writable s' gs = writable s gs"
      by (simp add: writable_def)
    with store out assms(3) show ?thesis by (simp add: writable_add)
  next
    case (acquire d q b t)
    have "a \<noteq> d" "a \<notin> writable s' gs" "heap s' a = heap s a" "fresh s \<le> fresh s'"
      using acquires_writable [OF acquire(3) out(2) assms(3)] acquires_frame(3) [OF acquire(3)] by simp_all
    with acquire(2) assms(3) show ?thesis by (simp add: writable_add)
  next
    case (copy q b d t)
    then have "writable s' gs = writable s gs"
      by (simp add: writable_def)
    with copy out assms(3) show ?thesis by (simp add: writable_add)
  next
    case (use q d)
    then have "writable s' gs = insert d (writable s gs)"
      by (simp add: writable_def release_at_def)
    with use out assms(3) show ?thesis by (simp add: writable_add release_at_def)
  qed
qed

text \<open>A goroutine writes only to what it owns or has just acquired.\<close>

lemma acquires_free:
  assumes "acquires s a s'" "cell_inv s gs" "\<forall>b \<in> List.set (free s). heap s b = zero_result"
  shows "heap s' a = zero_result" "a \<notin> List.set (free s')" "a \<notin># \<Sum>\<^sub># (image_mset owned gs)"
    "\<forall>b \<in> List.set (free s'). heap s' b = zero_result" "\<And>b. b \<noteq> a \<Longrightarrow> heap s' b = heap s b"
    "Some a \<notin># stored (by_key s) + releasing (by_key s)"
proof -
  have bound: "a \<in># \<Sum>\<^sub># (image_mset owned gs) \<or> Some a \<in># stored (by_key s) + releasing (by_key s) \<or> a \<in> List.set (free s)
      \<Longrightarrow> a < fresh s" for a
    using assms(2) by (auto simp: cell_inv_def cells_def)
  have dist: "distinct (free s)"
  proof -
    have "count (mset (free s)) a \<le> 1" for a
      using assms(2) unfolding cell_inv_def cells_def
      by (metis (no_types, lifting) add_leD1 count_Some_image count_union image_mset_union)
    then show ?thesis
      by (simp add: distinct_count_atmost_1 le_Suc_eq)
  qed
  show "heap s' a = zero_result" "a \<notin> List.set (free s')" "a \<notin># \<Sum>\<^sub># (image_mset owned gs)"
    "\<forall>b \<in> List.set (free s'). heap s' b = zero_result" "\<And>b. b \<noteq> a \<Longrightarrow> heap s' b = heap s b"
    "Some a \<notin># stored (by_key s) + releasing (by_key s)"
    using assms(1,3) exclusive(1) [OF assms(2), of a] bound [of a] dist
    by (cases; auto dest: notin_set_remove1)+
qed

section \<open>Times\<close>

definition times_ok :: "(nat, unit) cache \<Rightarrow> int \<Rightarrow> bool" where
  "times_ok c now \<longleftrightarrow> cache_wf c \<and> onRelease c = Some () \<and> 0 \<le> expire c \<and> clock_ok now \<and>
     (\<forall>e \<in> List.set (pending c). 0 \<le> e \<and> e \<le> now) \<and>
     (\<forall>k v. map_of (store c) k = Some v \<longrightarrow> 0 \<le> peek v \<and> peek v \<le> now)"

lemma pending_schedule: "List.set (pending (scheduleEvictLocked now c)) \<subseteq> insert now (List.set (pending c))"
  by (auto simp: scheduleEvictLocked_def)

lemma pending_Get: "List.set (pending (snd (Get now k c))) \<subseteq> insert now (List.set (pending c))"
  using pending_schedule [of now "c\<lparr>store := x\<rparr>" for x] by (auto simp: Get_def split: option.split)

lemma pending_Set: "List.set (pending (Set now k v c)) \<subseteq> insert now (List.set (pending c))"
  using pending_schedule [of now c] pending_schedule [of now "c\<lparr>store := x\<rparr>" for x] by (auto simp: Set_def)

lemma map_of_Get:
  "map_of (store (snd (Get now k c))) k' = (if k' = k then map_option (\<lambda>v. v\<lparr>peek := now\<rparr>) (map_of (store c) k) else map_of (store c) k')"
  by (auto simp: cache_simps update_conv' split: option.split)

lemma map_of_Set:
  "map_of (store (Set now k v c)) k' =
    (if k' = k \<and> \<not> (max_entries c > 0 \<and> int (length (store c)) \<ge> max_entries c \<and> map_of (store c) k = None)
     then Some \<lparr>value = v, peek = now\<rparr> else map_of (store c) k')"
  by (auto simp: cache_simps update_conv')

lemma map_of_run_evict:
  "cache_wf c \<Longrightarrow> map_of (store (run_evict e c)) k =
    (case map_of (store c) k of None \<Rightarrow> None | Some v \<Rightarrow> if i64 (e - peek v) > expire c then None else Some v)"
  by (auto simp: cache_simps cache_wf_def map_of_filter_distinct split: option.split)

lemma times_Get:
  assumes "times_ok c now"
  shows "times_ok (snd (Get now k c)) now"
proof -
  have "0 \<le> now" using assms by (simp add: times_ok_def clock_ok_def)
  then show ?thesis
    using assms wf_Get pending_Get [of now k c]
    unfolding times_ok_def by (auto simp: map_of_Get split: if_splits)
qed

lemma times_Set:
  assumes "times_ok c now"
  shows "times_ok (Set now k v c) now"
proof -
  have "0 \<le> now" using assms by (simp add: times_ok_def clock_ok_def)
  then show ?thesis
    using assms wf_Set pending_Set [of now k v c]
    unfolding times_ok_def by (auto simp: map_of_Set split: if_splits)
qed

lemma times_run_evict:
  assumes "times_ok c now"
  shows "times_ok (run_evict e c) now"
proof -
  have "List.set (pending (run_evict e c)) \<subseteq> List.set (pending c)"
    by (auto simp: run_evict_def dest: notin_set_remove1 intro: ccontr)
  then show ?thesis
    using assms wf_run_evict [of c e] map_of_run_evict [of c e]
    unfolding times_ok_def by (auto split: option.splits if_splits)
qed

lemma times_released: "times_ok (c\<lparr>released := r\<rparr>) now = times_ok c now"
  by (simp add: times_ok_def cache_wf_def)

lemma times_tick: "times_ok c now \<Longrightarrow> now \<le> t \<Longrightarrow> t < 2 ^ 62 \<Longrightarrow> times_ok c t"
  unfolding times_ok_def clock_ok_def by (meson order_trans)

lemma times_go: "go_step mh rs s g s' g' \<Longrightarrow> times_ok (by_key s) (clock s) \<Longrightarrow> times_ok (by_key s') (clock s') \<and> clock s' = clock s"
proof (erule go_step.cases, goal_cases)
  case (1 s q a c)
  then show ?case using times_Get [of "by_key s" "clock s" "key_of mh q"] by simp
next
  case (2 s q c)
  then show ?case using times_Get [of "by_key s" "clock s" "key_of mh q"] by simp
next
  case (3 s a s' q)
  then show ?case by (auto simp: route_into_def acquires_frame split: prod.split)
qed (auto simp: times_Set acquires_frame release_at_def)

section \<open>What is read\<close>

definition result_of :: "Routes \<Rightarrow> request \<Rightarrow> Result" where
  "result_of rs q = (case q of (off, meth, path) \<Rightarrow> route_value rs meth path off)"

fun request_of :: "goroutine \<Rightarrow> request" where
  "request_of (Start q) = q"
| "request_of (Missed q) = q"
| "request_of (Routed q a) = q"
| "request_of (Holding q a t) = q"
| "request_of (Copying q a d t) = q"
| "request_of (Answered q d) = q"
| "request_of (Done q r) = q"

text \<open>A goroutine's own object holds its request's result; the object it copies from does, is never written, and
  cannot be evicted while the clock is within \<open>expire\<close> of the time it was got.\<close>

fun content_ok :: "Routes \<Rightarrow> (nat \<Rightarrow> Result) \<Rightarrow> goroutine \<Rightarrow> bool" where
  "content_ok rs h (Routed q a) \<longleftrightarrow> h a = result_of rs q"
| "content_ok rs h (Answered q d) \<longleftrightarrow> h d = result_of rs q"
| "content_ok rs h (Done q r) \<longleftrightarrow> r = result_of rs q"
| "content_ok rs h _ \<longleftrightarrow> True"

definition source_ok :: "Routes \<Rightarrow> results \<Rightarrow> goroutine multiset \<Rightarrow> goroutine \<Rightarrow> bool" where
  "source_ok rs s gs g \<longleftrightarrow> (\<forall>a t. source g = Some (a, t) \<longrightarrow>
     heap s a = result_of rs (request_of g) \<and> a < fresh s \<and> a \<notin> writable s gs \<and> t \<le> clock s \<and>
     clock s \<le> t + expire (by_key s) \<and>
     (\<forall>k v. map_of (store (by_key s)) k = Some v \<longrightarrow> value v = Some a \<longrightarrow> t \<le> peek v))"

definition heap_inv :: "maphash \<Rightarrow> Routes \<Rightarrow> request set \<Rightarrow> results \<Rightarrow> goroutine multiset \<Rightarrow> bool" where
  "heap_inv mh rs Q s gs \<longleftrightarrow>
     (\<forall>a \<in> List.set (free s). heap s a = zero_result) \<and>
     (\<forall>k a. lookup (by_key s) k = Some a \<longrightarrow> (\<exists>q \<in> Q. k = key_of mh q \<and> heap s a = result_of rs q)) \<and>
     (\<forall>g \<in># gs. request_of g \<in> Q \<and> content_ok rs (heap s) g \<and> source_ok rs s gs g)"

lemma cell_inv_rest: "cell_inv s (add_mset g gs) \<Longrightarrow> cell_inv s gs"
  by (erule cell_inv_shrink) (simp_all add: cells_add)

lemma owned_once:
  assumes "cell_inv s (add_mset g gs)" "a \<in># owned g"
  shows "a \<notin># \<Sum>\<^sub># (image_mset owned gs)"
proof -
  have "count (cells s (add_mset g gs)) (Some a) \<le> 1"
    using assms(1) by (simp add: cell_inv_def)
  then have "count (owned g) a + count (cells s gs) (Some a) \<le> 1"
    unfolding cells_add count_union count_Some_image .
  moreover have "1 \<le> count (owned g) a"
    using assms(2) by (simp add: Suc_le_eq)
  ultimately have "count (cells s gs) (Some a) = 0"
    by linarith
  then show ?thesis
    unfolding cells_def count_union count_Some_image image_mset_union not_in_iff by linarith
qed

lemma stored_not_writable:
  assumes "cell_inv s gs" "lookup (by_key s) k = Some a"
  shows "a \<notin> writable s gs" "a < fresh s"
proof -
  have a: "Some a \<in># stored (by_key s)"
    using assms(2) stored_lookup [of "by_key s" k] by (auto simp: lookup_def split: option.splits)
  with exclusive(3) [OF assms(1), of a] show "a \<notin> writable s gs"
    by (simp add: writable_def)
  from a show "a < fresh s"
    using assms(1) by (simp add: cell_inv_def cells_def)
qed

lemma cell_inj:
  assumes "cell_inv s gs" "lookup (by_key s) k = Some a" "lookup (by_key s) k' = Some a" "cache_wf (by_key s)"
  shows "k' = k"
proof (rule ccontr)
  assume "k' \<noteq> k"
  have two: "2 \<le> count (mset (map snd es)) (Some a)"
    if "(k, Some a) \<in> List.set es" "(k', Some a) \<in> List.set es" for es :: "(key \<times> nat option) list"
    using that \<open>k' \<noteq> k\<close>
  proof (induction es)
    case (Cons e es)
    then show ?case
      by (auto simp: Suc_le_eq count_greater_zero_iff image_iff intro: rev_image_eqI)
         (force simp flip: count_greater_zero_iff)+
  qed simp
  have "(k, Some a) \<in> List.set (entries (by_key s))" "(k', Some a) \<in> List.set (entries (by_key s))"
    using assms(2,3) by (force simp: entries_def lookup_def dest: map_of_SomeD split: option.splits)+
  then have "2 \<le> count (stored (by_key s)) (Some a)"
    using two [of "entries (by_key s)"] by (simp add: stored_def)
  moreover have "count (cells s gs) (Some a) \<le> 1"
    using assms(1) by (simp add: cell_inv_def)
  ultimately show False
    unfolding cells_def count_union by linarith
qed

lemma go_others:
  assumes "go_step mh rs s g s' g'" "cell_inv s (add_mset g gs)" "a \<in># \<Sum>\<^sub># (image_mset owned gs)"
    "\<forall>b \<in> List.set (free s). heap s b = zero_result"
  shows "heap s' a = heap s a"
  using assms(1)
proof cases
  case (route b s1 q)
  from acquires_free(3,5) [OF route(4) cell_inv_rest [OF assms(2)] assms(4)] assms(3)
  have "a \<noteq> b" "heap s1 a = heap s a" by metis+
  with route(2) show ?thesis by (simp add: route_into_def split: prod.split)
next
  case (acquire d q b t)
  from acquires_free(3,5) [OF acquire(3) cell_inv_rest [OF assms(2)] assms(4)] assms(3)
  show ?thesis by metis
next
  case (copy q b d t)
  with owned_once [OF assms(2), of d] assms(3) show ?thesis by auto
next
  case (use q d)
  with owned_once [OF assms(2), of d] assms(3) show ?thesis by (auto simp: release_at_def)
qed simp_all

lemma go_free:
  assumes "go_step mh rs s g s' g'" "cell_inv s (add_mset g gs)" "\<forall>b \<in> List.set (free s). heap s b = zero_result"
  shows "\<forall>b \<in> List.set (free s'). heap s' b = zero_result"
  using assms(1)
proof cases
  case (route b s1 q)
  from acquires_free(2,4) [OF route(4) cell_inv_rest [OF assms(2)] assms(3)] route(2)
  show ?thesis by (auto simp: route_into_def split: prod.split)
next
  case (acquire d q b t)
  from acquires_free(4) [OF acquire(3) cell_inv_rest [OF assms(2)] assms(3)] show ?thesis .
next
  case (copy q b d t)
  have "d \<notin> List.set (free s)"
    using exclusive(2) [OF assms(2), of d] copy(1) by simp
  with copy assms(3) show ?thesis by auto
qed (use assms(3) in \<open>auto simp: release_at_def\<close>)

lemma go_lookup:
  assumes "go_step mh rs s g s' g'" "cell_inv s (add_mset g gs)" "heap_inv mh rs Q s (add_mset g gs)"
    and "lookup (by_key s') k = Some a"
  shows "\<exists>q \<in> Q. k = key_of mh q \<and> heap s' a = result_of rs q"
proof -
  have old: "\<exists>q \<in> Q. k = key_of mh q \<and> heap s' a = result_of rs q" if "lookup (by_key s) k = Some a"
  proof -
    from assms(3) that obtain q where "q \<in> Q" "k = key_of mh q" "heap s a = result_of rs q"
      unfolding heap_inv_def by blast
    then show ?thesis
      using go_writes [OF assms(1) stored_not_writable [OF assms(2) that]] by metis
  qed
  from assms(1) show ?thesis
  proof cases
    case (hit q b c)
    then have "by_key s' = snd (Get (clock s) (key_of mh q) (by_key s))" by simp
    with old assms(4) show ?thesis by (simp add: lookup_Get)
  next
    case (miss q c)
    then have "by_key s' = snd (Get (clock s) (key_of mh q) (by_key s))" by simp
    with old assms(4) show ?thesis by (simp add: lookup_Get)
  next
    case (route b s1 q)
    then have "by_key s' = by_key s"
      using acquires_frame(1) [OF route(4)] by (simp add: route_into_def split: prod.splits)
    with old assms(4) show ?thesis by simp
  next
    case (store q b)
    have "q \<in> Q" "heap s b = result_of rs q"
      using assms(3) store(1) by (simp_all add: heap_inv_def)
    with store old assms(4) show ?thesis
      by (auto simp: lookup_Set split: if_splits)
  next
    case (acquire d q b t)
    with acquires_frame(1) [OF acquire(3)] old assms(4) show ?thesis by simp
  next
    case (copy q b d t)
    with old assms(4) show ?thesis by simp
  next
    case (use q d)
    with old assms(4) show ?thesis by (simp add: release_at_def)
  qed
qed

lemma go_peeks:
  assumes "go_step mh rs s g s' g'" "a \<notin> writable s (add_mset g gs)"
    and "map_of (store (by_key s')) k = Some v" "value v = Some a"
  shows "peek v = clock s \<or> map_of (store (by_key s)) k = Some v"
  using assms(1)
proof cases
  case (hit q b c)
  then have "by_key s' = snd (Get (clock s) (key_of mh q) (by_key s))" by simp
  with assms(3) show ?thesis by (auto simp: map_of_Get split: if_splits)
next
  case (miss q c)
  then have "by_key s' = snd (Get (clock s) (key_of mh q) (by_key s))" by simp
  with assms(3) show ?thesis by (auto simp: map_of_Get split: if_splits)
next
  case (route b s1 q)
  then have "by_key s' = by_key s"
    using acquires_frame(1) [OF route(4)] by (simp add: route_into_def split: prod.splits)
  with assms(3) show ?thesis by simp
next
  case (store q b)
  with assms(3) show ?thesis by (auto simp: map_of_Set split: if_splits)
next
  case (acquire d q b t)
  with acquires_frame(1) [OF acquire(3)] assms(3) show ?thesis by simp
qed (use assms(3) in \<open>simp_all add: release_at_def\<close>)

section \<open>Every step keeps the invariant\<close>

lemma route_into_result:
  "heap s a = zero_result \<Longrightarrow> heap (route_into rs q a s) a = result_of rs q"
  by (cases q) (simp add: route_into_def result_of_def Route_fst pool_ok_def)

lemma go_content:
  assumes "go_step mh rs s g s' g'" "cell_inv s (add_mset g gs)" "heap_inv mh rs Q s (add_mset g gs)"
  shows "content_ok rs (heap s') g'"
proof -
  have free: "\<forall>b \<in> List.set (free s). heap s b = zero_result" and g: "content_ok rs (heap s) g" "source_ok rs s (add_mset g gs) g"
    using assms(3) by (simp_all add: heap_inv_def)
  from assms(1) show ?thesis
  proof cases
    case (route b s1 q)
    with acquires_free(1) [OF route(4) cell_inv_rest [OF assms(2)] free] show ?thesis
      by (simp add: route_into_result)
  qed (use g in \<open>simp_all add: source_ok_def\<close>)
qed

lemma go_source:
  assumes "go_step mh rs s g s' g'" "cell_inv s (add_mset g gs)" "heap_inv mh rs Q s (add_mset g gs)"
    and "times_ok (by_key s) (clock s)" "inj_on (key_of mh) Q"
  shows "source_ok rs s' (add_mset g' gs) g'"
proof -
  have g: "request_of g \<in> Q" "content_ok rs (heap s) g" "source_ok rs s (add_mset g gs) g"
    using assms(3) by (simp_all add: heap_inv_def)
  have ex: "0 \<le> expire (by_key s)"
    using assms(4) by (simp add: times_ok_def)
  from assms(1) show ?thesis
  proof cases
    case (hit q a c)
    then have c: "c = snd (Get (clock s) (key_of mh q) (by_key s))" by simp
    have look: "lookup (by_key s) (key_of mh q) = Some a"
      using hit(4) Get_value [of "clock s" "key_of mh q" "by_key s"] by simp
    then obtain q' where q': "q' \<in> Q" "key_of mh q = key_of mh q'" "heap s a = result_of rs q'"
      using assms(3) unfolding heap_inv_def by blast
    with assms(5) g(1) hit(1) have "q' = q" by (simp add: inj_on_def)
    have peek: "peek v = clock s" if "map_of (store c) k = Some v" "value v = Some a" for k v
    proof -
      have "lookup (by_key s) k = Some a"
        using that lookup_Get [of "clock s" "key_of mh q" "by_key s" k] by (simp add: lookup_def flip: c)
      then have "k = key_of mh q"
        using cell_inj [OF assms(2) look] assms(4) by (simp add: times_ok_def)
      with that show ?thesis by (auto simp: c map_of_Get)
    qed
    have "writable s' (add_mset g' gs) = writable s (add_mset g gs)"
      using hit(1-3) c by (simp add: writable_add writable_def)
    with stored_not_writable [OF assms(2) look] q'(3) \<open>q' = q\<close> peek ex hit(2,3) show ?thesis
      by (simp add: source_ok_def c)
  next
    case (store q a)
    have a: "a \<in># owned g" using store(1) by simp
    have "a \<notin> writable s gs"
      using exclusive(2) [OF assms(2), of a] owned_once [OF assms(2) a] a by (auto simp: writable_def)
    moreover have "a < fresh s"
      using assms(2) a by (simp add: cell_inv_def cells_add)
    moreover have "clock s \<le> peek v" if "map_of (store (by_key s')) k = Some v" "value v = Some a" for k v
    proof (rule ccontr)
      assume "\<not> clock s \<le> peek v"
      with that store(2) have "map_of (store (by_key s)) k = Some v"
        by (auto simp: map_of_Set split: if_splits)
      with that(2) have "Some a \<in># stored (by_key s)"
        using stored_lookup by fastforce
      with exclusive(3) [OF assms(2)] a show False by simp
    qed
    ultimately show ?thesis
      using g(2) store ex by (simp add: source_ok_def writable_def)
  next
    case (acquire d q a t)
    from g(3) acquire(1) have a: "a \<notin> writable s (add_mset g gs)" "a < fresh s" "heap s a = result_of rs q"
      "t \<le> clock s" "clock s \<le> t + expire (by_key s)"
      "\<And>k v. map_of (store (by_key s)) k = Some v \<Longrightarrow> value v = Some a \<Longrightarrow> t \<le> peek v"
      by (auto simp: source_ok_def)
    with go_writes [OF assms(1) a(1,2)] acquires_frame(1,2) [OF acquire(3)] acquire(2) show ?thesis
      by (simp add: source_ok_def)
  qed (simp_all add: source_ok_def)
qed

lemma request_go: "go_step mh rs s g s' g' \<Longrightarrow> request_of g' = request_of g"
  by (erule go_step.cases) simp_all

lemma expire_go:
  assumes "go_step mh rs s g s' g'"
  shows "expire (by_key s') = expire (by_key s)"
  using assms
proof cases
  case (hit q a c)
  then have "by_key s' = snd (Get (clock s) (key_of mh q) (by_key s))" by simp
  then show ?thesis by simp
next
  case (miss q c)
  then have "by_key s' = snd (Get (clock s) (key_of mh q) (by_key s))" by simp
  then show ?thesis by simp
next
  case (route a s1 q)
  with acquires_frame(1) [OF route(4)] show ?thesis by (simp add: route_into_def split: prod.split)
next
  case (acquire d q a t)
  with acquires_frame(1) [OF acquire(3)] show ?thesis by simp
qed (simp_all add: release_at_def)

lemma content_frame: "content_ok rs h g \<Longrightarrow> (\<And>a. a \<in># owned g \<Longrightarrow> h' a = h a) \<Longrightarrow> content_ok rs h' g"
  by (cases g) auto

lemma owned_in_sum: "g \<in># gs \<Longrightarrow> a \<in># owned g \<Longrightarrow> a \<in># \<Sum>\<^sub># (image_mset owned gs)"
  by (auto dest!: multi_member_split)

lemma heap_inv_go:
  assumes go: "go_step mh rs s g s' g'" and inv: "cell_inv s (add_mset g gs)" "heap_inv mh rs Q s (add_mset g gs)"
    and times: "times_ok (by_key s) (clock s)" and inj: "inj_on (key_of mh) Q"
  shows "heap_inv mh rs Q s' (add_mset g' gs)"
  unfolding heap_inv_def
proof (intro conjI ballI allI impI)
  have free: "\<forall>b \<in> List.set (free s). heap s b = zero_result"
    using inv(2) by (simp add: heap_inv_def)
  show "heap s' a = zero_result" if "a \<in> List.set (free s')" for a
    using go_free [OF go inv(1) free] that by blast
  show "\<exists>q \<in> Q. k = key_of mh q \<and> heap s' a = result_of rs q" if "lookup (by_key s') k = Some a" for k a
    by (rule go_lookup [OF go inv that])
  fix x assume x: "x \<in># add_mset g' gs"
  show "request_of x \<in> Q"
    using x inv(2) request_go [OF go] by (auto simp: heap_inv_def)
  show "content_ok rs (heap s') x"
  proof (cases "x = g'")
    case False
    then have "x \<in># gs" "content_ok rs (heap s) x"
      using x inv(2) by (simp_all add: heap_inv_def)
    then show ?thesis
      using go_others [OF go inv(1) _ free] owned_in_sum by (blast intro: content_frame)
  qed (simp add: go_content [OF go inv])
  show "source_ok rs s' (add_mset g' gs) x"
  proof (cases "x = g'")
    case False
    then have *: "source_ok rs s (add_mset g gs) x"
      using x inv(2) by (simp add: heap_inv_def)
    show ?thesis
      unfolding source_ok_def
    proof (intro allI impI)
      fix a t assume src: "source x = Some (a, t)"
      with * have a: "heap s a = result_of rs (request_of x)" "a < fresh s" "a \<notin> writable s (add_mset g gs)"
        "t \<le> clock s" "clock s \<le> t + expire (by_key s)"
        "\<And>k v. map_of (store (by_key s)) k = Some v \<Longrightarrow> value v = Some a \<Longrightarrow> t \<le> peek v"
        unfolding source_ok_def by blast+
      have "t \<le> peek v" if "map_of (store (by_key s')) k = Some v" "value v = Some a" for k v
        using go_peeks [OF go a(3) that] a(4,6) that(2) by fastforce
      with go_writes [OF go a(3,2)] a times_go [OF go times] expire_go [OF go]
      show "heap s' a = result_of rs (request_of x) \<and> a < fresh s' \<and> a \<notin> writable s' (add_mset g' gs) \<and> t \<le> clock s' \<and>
          clock s' \<le> t + expire (by_key s') \<and>
          (\<forall>k v. map_of (store (by_key s')) k = Some v \<longrightarrow> value v = Some a \<longrightarrow> t \<le> peek v)"
        by simp
    qed
  qed (simp add: go_source [OF go inv times inj])
qed

text \<open>An eviction pass releases no object that is being copied from.\<close>

lemma releasing_run_evict:
  assumes "Some a \<in># releasing (run_evict e c)" "cache_wf c"
  shows "Some a \<in># releasing c \<or> (\<exists>k v. map_of (store c) k = Some v \<and> value v = Some a \<and> i64 (e - peek v) > expire c)"
proof -
  have "released (run_evict e c) = released c @
     (case onRelease c of None \<Rightarrow> [] | Some f \<Rightarrow> map (\<lambda>(k, v). (f, k, value v))
         (filter (\<lambda>(k, v). i64 (e - peek v) > expire c) (store c)))"
    by (simp add: run_evict_def cache_simps split: option.split)
  then have "Some a \<in># releasing c \<or> (\<exists>k v. (k, v) \<in> List.set (store c) \<and> value v = Some a \<and> i64 (e - peek v) > expire c)"
    using assms(1) by (auto simp: releasing_def split: option.splits)
  then show ?thesis
    using assms(2) by (auto simp: cache_wf_def)
qed

lemma heap_inv_evict:
  assumes inv: "heap_inv mh rs Q s gs" and times: "times_ok (by_key s) (clock s)" and e: "e \<in> List.set (pending (by_key s))"
  shows "heap_inv mh rs Q (s\<lparr>by_key := run_evict e (by_key s)\<rparr>) gs"
proof -
  let ?c = "by_key s"
  have wf: "cache_wf ?c" using times by (simp add: times_ok_def)
  have look: "lookup (run_evict e ?c) k = Some a \<Longrightarrow> lookup ?c k = Some a" for k a
    using rc.evict_content [OF wf, of e k] by auto
  have "source_ok rs (s\<lparr>by_key := run_evict e ?c\<rparr>) gs g" if *: "source_ok rs s gs g" for g
    unfolding source_ok_def
  proof (intro allI impI)
    fix a t assume "source g = Some (a, t)"
    with * have a: "heap s a = result_of rs (request_of g)" "a < fresh s" "a \<notin> writable s gs"
      "t \<le> clock s" "clock s \<le> t + expire ?c"
      "\<And>k v. map_of (store ?c) k = Some v \<Longrightarrow> value v = Some a \<Longrightarrow> t \<le> peek v"
      unfolding source_ok_def by blast+
    have "\<not> i64 (e - peek v) > expire ?c" if v: "map_of (store ?c) k = Some v" "value v = Some a" for k v
    proof -
      have "0 \<le> e" "e \<le> clock s" "0 \<le> peek v" "peek v \<le> clock s" "clock s < 2 ^ 62" "t \<le> peek v"
        using times e v a(6) [OF v] by (auto simp: times_ok_def clock_ok_def)
      with a(5) show ?thesis by (simp add: i64_id)
    qed
    then have "Some a \<notin># releasing (run_evict e ?c)"
      using a(3) releasing_run_evict [of a e ?c] wf by (auto simp: writable_def)
    moreover have "t \<le> peek v" if "map_of (store (run_evict e ?c)) k = Some v" "value v = Some a" for k v
      using that a(6) map_of_run_evict [OF wf, of e k] by (auto split: option.splits if_splits)
    ultimately show "heap (s\<lparr>by_key := run_evict e ?c\<rparr>) a = result_of rs (request_of g) \<and>
        a < fresh (s\<lparr>by_key := run_evict e ?c\<rparr>) \<and> a \<notin> writable (s\<lparr>by_key := run_evict e ?c\<rparr>) gs \<and>
        t \<le> clock (s\<lparr>by_key := run_evict e ?c\<rparr>) \<and>
        clock (s\<lparr>by_key := run_evict e ?c\<rparr>) \<le> t + expire (by_key (s\<lparr>by_key := run_evict e ?c\<rparr>)) \<and>
        (\<forall>k v. map_of (store (by_key (s\<lparr>by_key := run_evict e ?c\<rparr>))) k = Some v \<longrightarrow> value v = Some a \<longrightarrow> t \<le> peek v)"
      using a by (simp add: writable_def)
  qed
  with inv look show ?thesis
    unfolding heap_inv_def by simp
qed

lemma heap_inv_callback:
  assumes inv: "cell_inv s gs" "heap_inv mh rs Q s gs" and cb: "((), k, Some a) \<in> List.set (released (by_key s))"
  shows "heap_inv mh rs Q
    (release_at a (s\<lparr>by_key := (by_key s)\<lparr>released := remove1 ((), k, Some a) (released (by_key s))\<rparr>\<rparr>)) gs"
    (is "heap_inv mh rs Q ?s gs")
proof -
  have a: "Some a \<in># releasing (by_key s)"
    using releasing_remove1 [OF cb] by simp
  have "Some b \<in># releasing (by_key ?s) \<Longrightarrow> Some b \<in># releasing (by_key s)" for b
    using releasing_remove1 [OF cb] by (simp add: release_at_def)
  with a have w: "writable ?s gs \<subseteq> writable s gs"
    by (auto simp: writable_def release_at_def)
  have same: "lookup (by_key ?s) = lookup (by_key s)" "store (by_key ?s) = store (by_key s)" "expire (by_key ?s) = expire (by_key s)"
    "clock ?s = clock s" "fresh ?s = fresh s"
    by (simp_all add: release_at_def lookup_def fun_eq_iff)
  have h: "heap ?s b = heap s b" if "b \<noteq> a" for b
    using that by (simp add: release_at_def)
  show ?thesis
    unfolding heap_inv_def
  proof (intro conjI ballI allI impI)
    show "heap ?s b = zero_result" if "b \<in> List.set (free ?s)" for b
      using that inv(2) by (auto simp: heap_inv_def release_at_def)
    show "\<exists>q \<in> Q. k = key_of mh q \<and> heap ?s b = result_of rs q" if "lookup (by_key ?s) k = Some b" for k b
    proof -
      from that have l: "lookup (by_key s) k = Some b" by (simp add: same)
      with stored_not_writable(1) [OF inv(1) l] a have "b \<noteq> a" by (auto simp: writable_def)
      with inv(2) l show ?thesis by (simp add: heap_inv_def h)
    qed
    fix g assume g: "g \<in># gs"
    show "request_of g \<in> Q" using inv(2) g by (simp add: heap_inv_def)
    have "a \<notin># \<Sum>\<^sub># (image_mset owned gs)"
      using exclusive(2) [OF inv(1), of a] a by auto
    then have other: "b \<noteq> a" if "b \<in># owned g" for b
      using owned_in_sum [OF g that] by blast
    have "content_ok rs (heap s) g" using inv(2) g by (simp add: heap_inv_def)
    then show "content_ok rs (heap ?s) g"
      by (rule content_frame) (rule h [OF other])
    have "source_ok rs s gs g" using inv(2) g by (simp add: heap_inv_def)
    moreover have "heap ?s b = heap s b \<and> b \<notin> writable ?s gs" if "b \<notin> writable s gs" for b
    proof -
      have "b \<noteq> a" using that a by (auto simp: writable_def)
      with h w that show ?thesis by blast
    qed
    ultimately show "source_ok rs ?s gs g"
      unfolding source_ok_def same by simp
  qed
qed

text \<open>All steps together.\<close>

definition results_inv :: "maphash \<Rightarrow> Routes \<Rightarrow> request set \<Rightarrow> results \<times> goroutine multiset \<Rightarrow> bool" where
  "results_inv mh rs Q = (\<lambda>(s, gs). cell_inv s gs \<and> times_ok (by_key s) (clock s) \<and> heap_inv mh rs Q s gs)"

lemma results_inv_init: "clock_ok t \<Longrightarrow> results_inv mh rs Q (res_init t (routes_cache t cfg), {#})"
  by (auto simp: results_inv_def res_init_def routes_cache_def cell_inv_def cells_def stored_def releasing_def entries_def
      times_ok_def heap_inv_def NewCache_def OnRelease_def cache_wf_def lookup_def Let_def defaultCacheExpire_def)

lemma results_inv_step:
  assumes "res_step mh rs Q x y" "results_inv mh rs Q x" "forward x y" "prompt x y" "inj_on (key_of mh) Q"
  shows "results_inv mh rs Q y"
  using assms(1)
proof cases
  case (arrive q s gs)
  have "cells s (add_mset (Start q) gs) = cells s gs" "writable s (add_mset (Start q) gs) = writable s gs"
    by (simp_all add: cells_add writable_add)
  then show ?thesis
    using arrive assms(2) by (simp add: results_inv_def cell_inv_def heap_inv_def source_ok_def)
next
  case (run s g s' g' gs)
  then show ?thesis
    using assms(2,5) cell_inv_go [OF run(3)] conjunct1 [OF times_go [OF run(3)]] heap_inv_go [OF run(3)]
    by (simp add: results_inv_def)
next
  case (tick t s gs)
  have le: "clock s \<le> t" using assms(3) tick by (simp add: forward_def)
  have "source_ok rs (s\<lparr>clock := t\<rparr>) gs g" if "g \<in># gs" for g
  proof -
    have "source_ok rs s gs g" using assms(2) tick that by (simp add: results_inv_def heap_inv_def)
    moreover have "t \<le> t' + expire (by_key s)" if "source g = Some (a, t')" for a t'
      using assms(4) tick \<open>g \<in># gs\<close> that by (simp add: prompt_def)
    ultimately show ?thesis
      using le by (fastforce simp: source_ok_def writable_def)
  qed
  then show ?thesis
    using assms(2) tick times_tick [OF _ le] by (simp add: results_inv_def heap_inv_def cell_inv_def cells_def)
next
  case (evict e s gs)
  then show ?thesis
    using assms(2) cell_inv_evict [of s gs e] times_run_evict [of "by_key s" "clock s" e] heap_inv_evict [of mh rs Q s gs e]
    by (simp add: results_inv_def times_ok_def)
next
  case (callback k a s gs)
  then show ?thesis
    using assms(2) cell_inv_callback [OF _ callback(3)] heap_inv_callback [OF _ _ callback(3)]
    by (simp add: results_inv_def times_released release_at_def)
qed

lemma results_inv_reach:
  assumes "res_reach mh rs Q (\<lambda>x y. forward x y \<and> prompt x y) cfg x" "inj_on (key_of mh) Q"
  shows "results_inv mh rs Q x"
  using assms(1)
proof induction
  case (init t)
  then show ?case by (intro results_inv_init) (simp add: clock_ok_def)
next
  case (step x y)
  then show ?case using results_inv_step [OF step(2,4)] assms(2) by blast
qed

lemma key_of_inj:
  assumes "\<forall>q \<in> Q. request_ok q" "inj_on mh (key_bytes ` Q)"
  shows "inj_on (key_of mh) Q"
proof (rule inj_onI)
  fix q q' assume q: "q \<in> Q" "q' \<in> Q" "key_of mh q = key_of mh q'"
  have "key_of mh q = mh (key_bytes q)" for q
    by (cases q) (simp add: key_of_def request_key_bytes)
  with q assms(2) have "key_bytes q = key_bytes q'" by (auto dest: inj_onD)
  with q assms(1) key_bytes_inject show "q = q'" by blast
qed

end
