(* ===== verification/ResultRuns.thy ===== *)
theory ResultRuns
  imports ResultRace
begin

text \<open>
  Runs of the system of \<open>ResultRace\<close>: single requests from start to end, and the two runs in which a request gets
  the result of another one, because a goroutine is slow or because the clock is set back.
\<close>

section \<open>Runs that go wrong\<close>

text \<open>Schedulers that keep one of the two conditions, or both.\<close>

definition allowed :: "bool \<Rightarrow> bool \<Rightarrow> results \<times> goroutine multiset \<Rightarrow> results \<times> goroutine multiset \<Rightarrow> bool" where
  "allowed f p x y \<longleftrightarrow> (f \<longrightarrow> forward x y) \<and> (p \<longrightarrow> prompt x y)"

lemma prompt_same:
  "prompt x (s, gs) \<Longrightarrow> clock s' = clock s \<Longrightarrow> expire (by_key s') = expire (by_key s) \<Longrightarrow> 0 \<le> expire (by_key s) \<Longrightarrow>
   (\<And>g a t. g \<in># gs' \<Longrightarrow> source g = Some (a, t) \<Longrightarrow> (\<exists>g' \<in># gs. source g' = Some (a, t)) \<or> t = clock s) \<Longrightarrow>
   prompt y (s', gs')"
  by (fastforce simp: prompt_def)

lemma reach_prompt: "res_reach mh rs Q (allowed f True) cfg y \<Longrightarrow> prompt x y"
  by (erule res_reach.cases) (auto simp: allowed_def prompt_def)

lemma reach_same:
  assumes "res_reach mh rs Q (allowed f p) cfg (s, gs)" "res_step mh rs Q (s, gs) (s', gs')"
    and "clock s' = clock s" "expire (by_key s') = expire (by_key s)" "0 \<le> expire (by_key s)"
    and "\<And>g a t. g \<in># gs' \<Longrightarrow> source g = Some (a, t) \<Longrightarrow> (\<exists>g' \<in># gs. source g' = Some (a, t)) \<or> t = clock s"
  shows "res_reach mh rs Q (allowed f p) cfg (s', gs')"
proof (rule res_reach.step [OF assms(1,2)])
  have "p \<longrightarrow> prompt (s, gs) (s', gs')"
    using reach_prompt [of mh rs Q f cfg "(s, gs)" "(s, gs)"] assms(1) prompt_same [OF _ assms(3-6)] by auto
  then show "allowed f p (s, gs) (s', gs')"
    by (simp add: allowed_def forward_def assms(3))
qed

lemma clock_go:
  assumes "go_step mh rs s g s' g'"
  shows "clock s' = clock s" "\<And>a t. source g' = Some (a, t) \<Longrightarrow> source g = Some (a, t) \<or> t = clock s"
  using assms by (cases; auto simp: release_at_def route_into_def acquires_frame(2) split: prod.splits)+

lemma reach_go:
  assumes "res_reach mh rs Q (allowed f p) cfg (s, add_mset g gs)" "go_step mh rs s g s' g'" "0 \<le> expire (by_key s)"
  shows "res_reach mh rs Q (allowed f p) cfg (s', add_mset g' gs)"
proof (rule reach_same [OF assms(1) res_step.run [OF assms(2)] clock_go(1) [OF assms(2)] expire_go [OF assms(2)] assms(3)])
  fix x a t assume "x \<in># add_mset g' gs" "source x = Some (a, t)"
  then show "(\<exists>y \<in># add_mset g gs. source y = Some (a, t)) \<or> t = clock s"
    using clock_go(2) [OF assms(2)] by auto
qed

lemma reach_arrive:
  assumes "res_reach mh rs Q (allowed f p) cfg (s, gs)" "q \<in> Q" "0 \<le> expire (by_key s)"
  shows "res_reach mh rs Q (allowed f p) cfg (s, add_mset (Start q) gs)"
  by (rule reach_same [OF assms(1) res_step.arrive [OF assms(2)]]) (use assms(3) in auto)

lemma reach_evict:
  assumes "res_reach mh rs Q (allowed f p) cfg (s, gs)" "e \<in> List.set (pending (by_key s))" "0 \<le> expire (by_key s)"
  shows "res_reach mh rs Q (allowed f p) cfg (s\<lparr>by_key := run_evict e (by_key s)\<rparr>, gs)"
  by (rule reach_same [OF assms(1) res_step.evict [OF assms(2)]]) (use assms(3) in auto)

text \<open>A request that is not cached, up to the point where its result is in the cache, in a new object.\<close>

lemma reach_serve:
  assumes R: "res_reach mh rs Q (allowed f p) cfg (s, gs)" and q: "q \<in> Q" and ex: "0 \<le> expire (by_key s)"
    and miss: "map_of (store (by_key s)) (key_of mh q) = None"
  shows "res_reach mh rs Q (allowed f p) cfg
    (s\<lparr>heap := (heap s)(fresh s := result_of rs q), fresh := Suc (fresh s),
       by_key := Set (clock s) (key_of mh q) (Some (fresh s)) (by_key s)\<rparr>,
     add_mset (Holding q (fresh s) (clock s)) gs)"
proof -
  let ?a = "fresh s"
  let ?s1 = "s\<lparr>heap := (heap s)(?a := zero_result), fresh := Suc ?a\<rparr>"
  note 1 = reach_arrive [OF R q ex]
  have "Get (clock s) (key_of mh q) (by_key s) = (None, by_key s)"
    using miss by (simp add: Get_def)
  from reach_go [OF 1 go_step.miss [OF this] ex]
  have 2: "res_reach mh rs Q (allowed f p) cfg (s, add_mset (Missed q) gs)" by simp
  from reach_go [OF 2 go_step.route [OF acquires.new [OF refl]] ex]
  have 3: "res_reach mh rs Q (allowed f p) cfg (route_into rs q ?a ?s1, add_mset (Routed q ?a) gs)" .
  have eq: "route_into rs q ?a ?s1 = s\<lparr>heap := (heap s)(?a := result_of rs q), fresh := Suc ?a\<rparr>"
    by (cases q) (simp add: route_into_def result_of_def Route_fst pool_ok_def)
  from reach_go [OF 3 go_step.store] ex show ?thesis
    by (simp add: eq)
qed

text \<open>The end of a run that goes wrong: the object \<open>a\<close>, from which one goroutine is about to copy, is released, and the
  pool gives it to another one, which copies its own result into it.\<close>

lemma stale_copy:
  assumes R: "res_reach mh rs Q (allowed f p) cfg (s, add_mset (Holding q a t) (add_mset (Holding q' b t') gs))"
    and rel: "((), k, Some a) \<in> List.set (released (by_key s))" and ab: "a \<noteq> b" "a < fresh s" and ex: "0 \<le> expire (by_key s)"
  shows "\<exists>s' gs'. res_reach mh rs Q (allowed f p) cfg (s', gs') \<and> Done q (heap s b) \<in># gs'"
proof -
  define s1 where "s1 = release_at a (s\<lparr>by_key := (by_key s)\<lparr>released := remove1 ((), k, Some a) (released (by_key s))\<rparr>\<rparr>)"
  have s1: "a \<in> List.set (free s1)" "heap s1 b = heap s b" "fresh s1 = fresh s" "expire (by_key s1) = expire (by_key s)" "clock s1 = clock s"
    using ab(1) by (simp_all add: s1_def release_at_def)
  have 1: "res_reach mh rs Q (allowed f p) cfg (s1, add_mset (Holding q' b t') (add_mset (Holding q a t) gs))"
    unfolding s1_def add_mset_commute [of "Holding q' b t'"]
    by (rule reach_same [OF R res_step.callback [OF rel]]) (use ex in \<open>auto simp: release_at_def\<close>)
  define s2 where "s2 = s1\<lparr>free := remove1 a (free s1)\<rparr>"
  have 2: "res_reach mh rs Q (allowed f p) cfg (s2, add_mset (Copying q' b a t') (add_mset (Holding q a t) gs))"
    unfolding s2_def using reach_go [OF 1 go_step.acquire [OF acquires.pooled [OF s1(1)]]] ex s1(4) by simp
  define s3 where "s3 = s2\<lparr>heap := (heap s2)(a := CopyTo (heap s2 b) (heap s2 a))\<rparr>"
  have "res_reach mh rs Q (allowed f p) cfg (s3, add_mset (Answered q' a) (add_mset (Holding q a t) gs))"
    unfolding s3_def using reach_go [OF 2 go_step.copy] ex s1(4) by (simp add: s2_def)
  then have 3: "res_reach mh rs Q (allowed f p) cfg (s3, add_mset (Holding q a t) (add_mset (Answered q' a) gs))"
    by (simp add: add_mset_commute)
  have s3: "heap s3 a = heap s b" "expire (by_key s3) = expire (by_key s)" "a \<noteq> fresh s3"
    using s1 ab by (simp_all add: s3_def s2_def)
  define s4 where "s4 = s3\<lparr>heap := (heap s3)(fresh s3 := zero_result), fresh := Suc (fresh s3)\<rparr>"
  have 4: "res_reach mh rs Q (allowed f p) cfg (s4, add_mset (Copying q a (fresh s3) t) (add_mset (Answered q' a) gs))"
    unfolding s4_def using reach_go [OF 3 go_step.acquire [OF acquires.new [OF refl]]] ex s3(2) by simp
  have 5: "res_reach mh rs Q (allowed f p) cfg
      (s4\<lparr>heap := (heap s4)(fresh s3 := CopyTo (heap s4 a) (heap s4 (fresh s3)))\<rparr>, add_mset (Answered q (fresh s3)) (add_mset (Answered q' a) gs))"
    using reach_go [OF 4 go_step.copy] ex s3(2) by (simp add: s4_def)
  show ?thesis
    using reach_go [OF 5 go_step.use] ex s3 by (fastforce simp: s4_def)
qed

lemma routes_cache_fields:
  "store (routes_cache t cfg) = []" "pending (routes_cache t cfg) = []" "released (routes_cache t cfg) = []"
  "onRelease (routes_cache t cfg) = Some ()" "max_entries (routes_cache t cfg) = rc_MaxEntries cfg"
  "0 < expire (routes_cache t cfg)" "0 < interval (routes_cache t cfg)"
  "expire (routes_cache t cfg) \<le> max defaultCacheExpire (rc_Expire cfg)"
  "interval (routes_cache t cfg) \<le> max defaultCacheInterval (rc_Interval cfg)"
  "next_at (routes_cache t cfg) = i64 (t + interval (routes_cache t cfg))"
  by (simp_all add: routes_cache_def NewCache_def OnRelease_def Let_def defaultCacheExpire_def defaultCacheInterval_def)

text \<open>An entry last used at time 0 is evicted by a pass that the writing of another one starts at \<open>T\<close>.\<close>

lemma evict_stale:
  assumes c1: "map_of (store c) ka = Some v" "value v = Some a" "peek v = 0" and c: "0 < expire c" "expire c < T" "T < 2 ^ 62" "onRelease c = Some ()"
  shows "((), ka, Some a) \<in> List.set (released (run_evict T c))"
proof -
  have "(ka, v) \<in> List.set (store c)" using c1(1) by (rule map_of_SomeD)
  moreover have "i64 (T - peek v) > expire c"
    using c c1(3) by simp
  ultimately show ?thesis
    using c1(2) c(4) by (force simp: run_evict_def cache_simps)
qed

text \<open>Both runs: a first result is stored at time 0, at \<open>T\<close> another one, which starts an eviction pass.\<close>

lemma two_results:
  assumes q: "qa \<in> Q" "qb \<in> Q" "key_of mh qa \<noteq> key_of mh qb" and cfg: "rc_Expire cfg \<le> 2 ^ 60" "rc_Interval cfg \<le> 2 ^ 60"
    and mid: "\<And>s. res_reach mh rs Q (allowed f p) cfg (s, {#Holding qa 0 0#}) \<Longrightarrow> heap s = (\<lambda>_. zero_result)(0 := result_of rs qa) \<Longrightarrow>
        fresh s = 1 \<Longrightarrow> by_key s = Set 0 (key_of mh qa) (Some 0) (routes_cache 0 cfg) \<Longrightarrow> free s = [] \<Longrightarrow> clock s = 0 \<Longrightarrow>
        \<exists>s' gs. res_reach mh rs Q (allowed f p) cfg (s', gs) \<and> by_key s' = by_key s \<and> heap s' 0 = result_of rs qa \<and> 0 < fresh s' \<and>
          clock s' = expire (by_key s) + interval (by_key s) + 1 \<and> gs = G \<and> fresh s' = n"
  shows "\<exists>s v. res_reach mh rs Q (allowed f p) cfg (s, add_mset (Holding qb n (clock s)) G) \<and> heap s n = result_of rs qb \<and>
    heap s 0 = result_of rs qa \<and> 0 < n \<and> n < fresh s \<and> clock s \<in> List.set (pending (by_key s)) \<and> onRelease (by_key s) = Some () \<and>
    0 < expire (by_key s) \<and> expire (by_key s) < clock s \<and> clock s < 2 ^ 62 \<and> 0 < next_at (by_key s) \<and>
    map_of (store (by_key s)) (key_of mh qa) = Some v \<and> value v = Some 0 \<and> peek v = 0"
proof -
  let ?c0 = "routes_cache 0 cfg"
  let ?c1 = "Set 0 (key_of mh qa) (Some 0) ?c0"
  let ?T = "expire ?c0 + interval ?c0 + 1"
  note fields = routes_cache_fields [of 0 cfg]
  have T: "?T < 2 ^ 62" "interval ?c0 < 2 ^ 62"
    using fields(8,9) cfg by (simp_all add: defaultCacheExpire_def defaultCacheInterval_def)
  have 0: "res_reach mh rs Q (allowed f p) cfg (res_init 0 ?c0, {#})"
    by (rule res_reach.init) simp_all
  have c1: "store ?c1 = [(key_of mh qa, \<lparr>value = Some 0, peek = 0\<rparr>)]" "pending ?c1 = []" "next_at ?c1 = interval ?c0"
    using fields T(2) by (simp_all add: Set_def scheduleEvictLocked_def)
  have "res_reach mh rs Q (allowed f p) cfg (\<lparr>heap = (\<lambda>_. zero_result)(0 := result_of rs qa), fresh = 1, free = [], by_key = ?c1, clock = 0\<rparr>, {#Holding qa 0 0#})"
    using reach_serve [OF 0 q(1)] fields(6) by (simp add: res_init_def fields)
  from mid [OF this] obtain s gs where s: "res_reach mh rs Q (allowed f p) cfg (s, gs)" "by_key s = ?c1" "heap s 0 = result_of rs qa"
    "0 < fresh s" "clock s = ?T" "gs = G" "fresh s = n"
    by auto
  let ?c2 = "Set ?T (key_of mh qb) (Some n) ?c1"
  have "map_of (store (by_key s)) (key_of mh qb) = None"
    using q(3) by (simp add: s(2) c1)
  from reach_serve [OF s(1) q(2) _ this] fields(6)
  have R: "res_reach mh rs Q (allowed f p) cfg
      (s\<lparr>heap := (heap s)(n := result_of rs qb), fresh := Suc n, by_key := ?c2\<rparr>, add_mset (Holding qb n ?T) G)"
    by (simp add: s)
  have "?T \<in> List.set (pending ?c2)" "0 < next_at ?c2"
    using fields(6,7) c1(3) T by (simp_all add: Set_def [of ?T] scheduleEvictLocked_def)
  moreover have "map_of (store ?c2) (key_of mh qa) = Some \<lparr>value = Some 0, peek = 0\<rparr>"
    using q(3) by (simp add: map_of_Set c1)
  ultimately show ?thesis
    using R s fields T
    by (intro exI [of _ "s\<lparr>heap := (heap s)(n := result_of rs qb), fresh := Suc n, by_key := ?c2\<rparr>"]
        exI [of _ "\<lparr>value = Some 0, peek = 0\<rparr>"]) simp
qed

text \<open>A goroutine that is not scheduled for a while.\<close>

lemma race_slow:
  assumes q: "qa \<in> Q" "qb \<in> Q" "key_of mh qa \<noteq> key_of mh qb" and cfg: "rc_Expire cfg \<le> 2 ^ 60" "rc_Interval cfg \<le> 2 ^ 60"
  shows "\<exists>s gs. res_reach mh rs Q (allowed True False) cfg (s, gs) \<and> Done qa (result_of rs qb) \<in># gs"
proof -
  have "\<exists>s v. res_reach mh rs Q (allowed True False) cfg (s, add_mset (Holding qb 1 (clock s)) {#Holding qa 0 0#}) \<and>
    heap s 1 = result_of rs qb \<and> heap s 0 = result_of rs qa \<and> 0 < (1 :: nat) \<and> 1 < fresh s \<and>
    clock s \<in> List.set (pending (by_key s)) \<and> onRelease (by_key s) = Some () \<and>
    0 < expire (by_key s) \<and> expire (by_key s) < clock s \<and> clock s < 2 ^ 62 \<and> 0 < next_at (by_key s) \<and>
    map_of (store (by_key s)) (key_of mh qa) = Some v \<and> value v = Some 0 \<and> peek v = 0"
  proof (rule two_results [OF q cfg])
    fix s assume R: "res_reach mh rs Q (allowed True False) cfg (s, {#Holding qa 0 0#})"
      and s: "heap s = (\<lambda>_. zero_result)(0 := result_of rs qa)" "fresh s = 1"
        "by_key s = Set 0 (key_of mh qa) (Some 0) (routes_cache 0 cfg)" "clock s = 0"
    let ?T = "expire (by_key s) + interval (by_key s) + 1"
    have T: "0 \<le> ?T" "?T < 2 ^ 62"
      using routes_cache_fields(6-9) [of 0 cfg] cfg by (simp_all add: s(3) defaultCacheExpire_def defaultCacheInterval_def)
    have "res_reach mh rs Q (allowed True False) cfg (s\<lparr>clock := ?T\<rparr>, {#Holding qa 0 0#})"
      using R res_step.tick [OF T] by (rule res_reach.step) (use T s in \<open>simp add: allowed_def forward_def\<close>)
    with s show "\<exists>s' gs. res_reach mh rs Q (allowed True False) cfg (s', gs) \<and> by_key s' = by_key s \<and>
        heap s' 0 = result_of rs qa \<and> 0 < fresh s' \<and> clock s' = ?T \<and> gs = {#Holding qa 0 0#} \<and> fresh s' = 1"
      by (intro exI [of _ "s\<lparr>clock := ?T\<rparr>"]) simp
  qed
  then obtain s v where s: "res_reach mh rs Q (allowed True False) cfg (s, {#Holding qb 1 (clock s), Holding qa 0 0#})"
    "heap s 1 = result_of rs qb" "1 < fresh s" "clock s \<in> List.set (pending (by_key s))" "onRelease (by_key s) = Some ()"
    "0 < expire (by_key s)" "expire (by_key s) < clock s" "clock s < 2 ^ 62"
    "map_of (store (by_key s)) (key_of mh qa) = Some v" "value v = Some 0" "peek v = 0"
    by auto
  let ?s = "s\<lparr>by_key := run_evict (clock s) (by_key s)\<rparr>"
  have R: "res_reach mh rs Q (allowed True False) cfg (?s, {#Holding qa 0 0, Holding qb 1 (clock s)#})"
    using reach_evict [OF s(1,4)] s(6) by (simp add: add_mset_commute)
  have rel: "((), key_of mh qa, Some 0) \<in> List.set (released (by_key ?s))"
    using evict_stale [OF s(9-11,6-8,5)] by simp
  from stale_copy [OF R rel] s show ?thesis by simp
qed

text \<open>A clock that is set back: \<open>qa\<close> is served once and read again at time 0, after the pass was started at \<open>T\<close>.\<close>

lemma race_clock:
  assumes q: "qa \<in> Q" "qb \<in> Q" "key_of mh qa \<noteq> key_of mh qb" and cfg: "rc_Expire cfg \<le> 2 ^ 60" "rc_Interval cfg \<le> 2 ^ 60"
  shows "\<exists>s gs. res_reach mh rs Q (allowed False True) cfg (s, gs) \<and> Done qa (result_of rs qb) \<in># gs"
proof -
  let ?G = "{#Done qa (result_of rs qa)#}"
  have "\<exists>s v. res_reach mh rs Q (allowed False True) cfg (s, add_mset (Holding qb 2 (clock s)) ?G) \<and>
    heap s 2 = result_of rs qb \<and> heap s 0 = result_of rs qa \<and> 0 < (2 :: nat) \<and> 2 < fresh s \<and>
    clock s \<in> List.set (pending (by_key s)) \<and> onRelease (by_key s) = Some () \<and>
    0 < expire (by_key s) \<and> expire (by_key s) < clock s \<and> clock s < 2 ^ 62 \<and> 0 < next_at (by_key s) \<and>
    map_of (store (by_key s)) (key_of mh qa) = Some v \<and> value v = Some 0 \<and> peek v = 0"
  proof (rule two_results [OF q cfg])
    fix s assume R: "res_reach mh rs Q (allowed False True) cfg (s, {#Holding qa 0 0#})"
      and s: "heap s = (\<lambda>_. zero_result)(0 := result_of rs qa)" "fresh s = 1"
        "by_key s = Set 0 (key_of mh qa) (Some 0) (routes_cache 0 cfg)" "clock s = 0"
    have ex: "0 < expire (by_key s)"
      using routes_cache_fields(6) [of 0 cfg] by (simp add: s(3))
    let ?T = "expire (by_key s) + interval (by_key s) + 1"
    have T: "0 \<le> ?T" "?T < 2 ^ 62"
      using routes_cache_fields(6-9) [of 0 cfg] cfg by (simp_all add: s(3) defaultCacheExpire_def defaultCacheInterval_def)
    let ?s1 = "s\<lparr>heap := (heap s)(1 := zero_result), fresh := 2\<rparr>"
    let ?s2 = "?s1\<lparr>heap := (heap ?s1)(1 := CopyTo (heap ?s1 0) (heap ?s1 1))\<rparr>"
    let ?s = "release_at 1 ?s2"
    from reach_go [OF R go_step.acquire [OF acquires.new [OF refl]]] ex s(2)
    have 1: "res_reach mh rs Q (allowed False True) cfg (?s1, {#Copying qa 0 1 0#})"
      by (simp add: numeral_2_eq_2)
    have 2: "res_reach mh rs Q (allowed False True) cfg (?s2, {#Answered qa 1#})"
      by (rule reach_go [OF 1 go_step.copy]) (use ex in simp)
    have "res_reach mh rs Q (allowed False True) cfg (?s, {#Done qa (heap ?s2 1)#})"
      by (rule reach_go [OF 2 go_step.use]) (use ex in simp)
    then have 3: "res_reach mh rs Q (allowed False True) cfg (?s, ?G)"
      by (simp add: s(1))
    have "res_reach mh rs Q (allowed False True) cfg (?s\<lparr>clock := ?T\<rparr>, ?G)"
      using 3 res_step.tick [OF T] by (rule res_reach.step) (simp add: allowed_def prompt_def)
    with s show "\<exists>s' gs. res_reach mh rs Q (allowed False True) cfg (s', gs) \<and> by_key s' = by_key s \<and>
        heap s' 0 = result_of rs qa \<and> 0 < fresh s' \<and> clock s' = ?T \<and> gs = ?G \<and> fresh s' = 2"
      by (intro exI [of _ "?s\<lparr>clock := ?T\<rparr>"]) (simp add: release_at_def)
  qed
  then obtain s v where s: "res_reach mh rs Q (allowed False True) cfg (s, add_mset (Holding qb 2 (clock s)) ?G)"
    "heap s 2 = result_of rs qb" "2 < fresh s" "clock s \<in> List.set (pending (by_key s))" "onRelease (by_key s) = Some ()"
    "0 < expire (by_key s)" "expire (by_key s) < clock s" "clock s < 2 ^ 62" "0 < next_at (by_key s)"
    "map_of (store (by_key s)) (key_of mh qa) = Some v" "value v = Some 0" "peek v = 0"
    by auto
  let ?T = "clock s"
  let ?s0 = "s\<lparr>clock := 0\<rparr>"
  have "res_reach mh rs Q (allowed False True) cfg (?s0, add_mset (Holding qb 2 ?T) ?G)"
    using s(1) res_step.tick [of 0] by (rule res_reach.step) (use s in \<open>simp_all add: allowed_def prompt_def\<close>)
  from reach_arrive [OF this q(1)] s(6)
  have 1: "res_reach mh rs Q (allowed False True) cfg (?s0, add_mset (Start qa) (add_mset (Holding qb 2 ?T) ?G))"
    by simp
  define c where "c = snd (Get 0 (key_of mh qa) (by_key s))"
  have get: "Get (clock ?s0) (key_of mh qa) (by_key ?s0) = (Some 0, c)"
    using s(10,11) Get_value [of 0 "key_of mh qa" "by_key s"] by (simp add: c_def lookup_def prod_eq_iff)
  have c: "map_of (store c) (key_of mh qa) = Some (v\<lparr>peek := 0\<rparr>)" "?T \<in> List.set (pending c)" "onRelease c = Some ()"
    "expire c = expire (by_key s)"
    using s(4,5,9,10) by (simp_all add: c_def map_of_Get) (simp add: Get_def scheduleEvictLocked_def)
  from reach_go [OF 1 go_step.hit [OF get]] s(6)
  have 2: "res_reach mh rs Q (allowed False True) cfg (?s0\<lparr>by_key := c\<rparr>, add_mset (Holding qa 0 0) (add_mset (Holding qb 2 ?T) ?G))"
    by simp
  let ?s = "?s0\<lparr>by_key := run_evict ?T c\<rparr>"
  have 3: "res_reach mh rs Q (allowed False True) cfg (?s, add_mset (Holding qa 0 0) (add_mset (Holding qb 2 ?T) ?G))"
    using reach_evict [OF 2, of ?T] c s(6) by simp
  have rel: "((), key_of mh qa, Some 0) \<in> List.set (released (by_key ?s))"
    using evict_stale [OF c(1)] c s by simp
  from stale_copy [OF 3 rel] s c show ?thesis by simp
qed

text \<open>A request served from start to end.\<close>

lemma reach_done:
  assumes "res_reach mh rs Q (allowed f p) cfg (s, gs)" "q \<in> Q" "0 \<le> expire (by_key s)"
    "map_of (store (by_key s)) (key_of mh q) = None"
  shows "\<exists>s' gs'. res_reach mh rs Q (allowed f p) cfg (s', gs') \<and> (\<exists>r. Done q r \<in># gs')"
proof -
  note 1 = reach_serve [OF assms]
  have ex: "0 \<le> expire (by_key (s\<lparr>heap := (heap s)(fresh s := result_of rs q), fresh := Suc (fresh s),
       by_key := Set (clock s) (key_of mh q) (Some (fresh s)) (by_key s)\<rparr>))"
    using assms(3) by simp
  note 2 = reach_go [OF 1 go_step.acquire [OF acquires.new [OF refl]] ex]
  note 3 = reach_go [OF 2 go_step.copy]
  note 4 = reach_go [OF 3 go_step.use]
  show ?thesis
    by (rule exI, rule exI, rule conjI, rule 4) (use ex in auto)
qed

definition length_hash :: maphash where
  "length_hash bs = word_of_nat (length bs)"

definition demo_requests :: "request set" where
  "demo_requests = {(0, ''GET'', ''/admin''), (0, ''GET'', ''/new'')}"

definition demo_routes_cache :: RoutesCache where
  "demo_routes_cache = \<lparr>rc_Enable = True, rc_Expire = 1000, rc_Interval = 100, rc_MaxEntries = 1\<rparr>"

lemma demo_requests_ok: "\<forall>q \<in> demo_requests. request_ok q" "inj_on length_hash (key_bytes ` demo_requests)"
  "key_of length_hash (0, ''GET'', ''/admin'') \<noteq> key_of length_hash (0, ''GET'', ''/new'')"
proof -
  have kb: "length (key_bytes (0, ''GET'', ''/new'')) = 23" "length (key_bytes (0, ''GET'', ''/admin'')) = 25"
    by (simp_all add: key_bytes_def enc_field_def)
  show "\<forall>q \<in> demo_requests. request_ok q"
    by (simp add: demo_requests_def request_ok_def)
  show "inj_on length_hash (key_bytes ` demo_requests)"
    by (simp add: demo_requests_def inj_on_def length_hash_def kb)
  show "key_of length_hash (0, ''GET'', ''/admin'') \<noteq> key_of length_hash (0, ''GET'', ''/new'')"
    by (simp add: key_of_def request_key_bytes length_hash_def kb)
qed

section \<open>Properties\<close>

text \<open>C4. With any number of concurrent requests, in any interleaving with each other, the eviction passes and the release
  callbacks, every request gets the result of uncached routing, as long as the clock does not go back, every
  goroutine copies a result within \<open>expire\<close> milliseconds of getting the pointer, and \<open>maphash\<close> has no collision.\<close>

theorem shared_results_right:
  assumes "res_reach mh rs Q (\<lambda>x y. forward x y \<and> prompt x y) cfg (s, gs)"
    and "\<forall>q \<in> Q. request_ok q" "inj_on mh (key_bytes ` Q)" "Done (off, meth, path) r \<in># gs"
  shows "r = route_value rs meth path off"
  using results_inv_reach [OF assms(1) key_of_inj [OF assms(2,3)]] assms(4)
  by (auto simp: results_inv_def heap_inv_def result_of_def)

theorem shared_results_right_witness:
  "\<exists>s gs r. res_reach length_hash demo_routes demo_requests (\<lambda>x y. forward x y \<and> prompt x y) demo_routes_cache (s, gs) \<and>
     Done (0, ''GET'', ''/admin'') r \<in># gs \<and> StatusCode r = 403"
proof -
  have eq: "(\<lambda>x y. forward x y \<and> prompt x y) = allowed True True"
    by (simp add: allowed_def fun_eq_iff)
  have "res_reach length_hash demo_routes demo_requests (allowed True True) demo_routes_cache
      (res_init 0 (routes_cache 0 demo_routes_cache), {#})"
    by (rule res_reach.init) simp_all
  from reach_done [OF this, of "(0, ''GET'', ''/admin'')"] obtain s gs r where
    R: "res_reach length_hash demo_routes demo_requests (allowed True True) demo_routes_cache (s, gs)"
      "Done (0, ''GET'', ''/admin'') r \<in># gs"
    using routes_cache_fields(6) [of 0 demo_routes_cache]
    by (auto simp: res_init_def routes_cache_fields demo_requests_def)
  from shared_results_right [OF R(1) [folded eq] demo_requests_ok(1,2) R(2)]
  have "StatusCode r = 403"
    by (simp add: route_value_loop demo_defs)
  with R show ?thesis unfolding eq by blast
qed

text \<open>C3. Without either condition a request can get the result of another one, and with it the other's handler, without
  its own filters: the object its pointer refers to is released while it copies from it, and the pool gives it to
  another request. It is enough that a goroutine is not scheduled for longer than \<open>expire\<close>, or that the clock is
  set back by more than that.\<close>

theorem shared_results_race:
  assumes "Q = {(offa, metha, patha), (offb, methb, pathb)}" "key_of mh (offa, metha, patha) \<noteq> key_of mh (offb, methb, pathb)"
    and "rc_Expire cfg \<le> 2 ^ 60" "rc_Interval cfg \<le> 2 ^ 60"
  shows "(\<exists>s gs. res_reach mh rs Q forward cfg (s, gs) \<and> Done (offa, metha, patha) (route_value rs methb pathb offb) \<in># gs) \<and>
    (\<exists>s gs. res_reach mh rs Q prompt cfg (s, gs) \<and> Done (offa, metha, patha) (route_value rs methb pathb offb) \<in># gs)"
proof -
  have "allowed True False = forward" "allowed False True = prompt"
    by (simp_all add: allowed_def fun_eq_iff)
  with race_slow [of "(offa, metha, patha)" Q "(offb, methb, pathb)" mh cfg rs]
    race_clock [of "(offa, metha, patha)" Q "(offb, methb, pathb)" mh cfg rs] assms
  show ?thesis by (simp add: result_of_def)
qed

theorem shared_results_race_witness:
  "\<exists>s gs r. res_reach length_hash demo_routes demo_requests forward demo_routes_cache (s, gs) \<and>
     Done (0, ''GET'', ''/admin'') r \<in># gs \<and> StatusCode r = 0 \<and> Handler r = ''static'' \<and>
     StatusCode (route_value demo_routes ''GET'' ''/admin'' 0) = 403"
proof -
  have "Handler (route_value demo_routes ''GET'' ''/new'' 0) = ''static''" "StatusCode (route_value demo_routes ''GET'' ''/new'' 0) = 0"
    "StatusCode (route_value demo_routes ''GET'' ''/admin'' 0) = 403"
    by (simp_all add: route_value_loop demo_defs)
  moreover have "rc_Expire demo_routes_cache \<le> 2 ^ 60" "rc_Interval demo_routes_cache \<le> 2 ^ 60"
    by (simp_all add: demo_routes_cache_def)
  ultimately show ?thesis
    using shared_results_race [OF demo_requests_def demo_requests_ok(3), of demo_routes_cache demo_routes] by blast
qed

end
