(* ===== verification/Serving.thy ===== *)
theory Serving
  imports Process ResultRuns
begin

text \<open>
  A started listener at work: the callbacks that \<open>newServer\<close> (\<open>pkg/cmd/fasthttpd.go\<close>) takes from the server handler
  (\<open>pkg/handler/server.go\<close>) are called by \<open>fasthttp.Server\<close> for the requests and the broken connections of all the hosts
  of the address. \<open>Handle\<close> and \<open>HandleError\<close> of a server handler are those of its host or of its virtual hosts; the state of
  the handler (error pages, route caches) and the pool of results pass from one call to the next.
\<close>

section \<open>Model\<close>

definition ServerHandler_Handle :: "'c fasthttp \<Rightarrow> maphash \<Rightarrow> (nat \<Rightarrow> route_env) \<Rightarrow> ('t, 'c) ServerHandler \<Rightarrow>
    result_pool \<Rightarrow> 'c \<Rightarrow> (('t, 'c) ServerHandler \<times> result_pool \<times> 'c) go option" where
  "ServerHandler_Handle F mh envs sh pool ctx =
     (case sh of
        HostServer h \<Rightarrow>
          (case hostHandler_Handle F mh envs h pool ctx of
             None \<Rightarrow> None
           | Some (Inl e) \<Rightarrow> Some (Inl e)
           | Some (Inr (h, pool, ctx)) \<Rightarrow> Some (Inr (HostServer h, pool, ctx)))
      | VirtualServer hs outs \<Rightarrow>
          (case virtualHandler_Handle F mh envs hs pool ctx of
             None \<Rightarrow> None
           | Some (Inl e) \<Rightarrow> Some (Inl e)
           | Some (Inr (hs, pool, ctx)) \<Rightarrow> Some (Inr (VirtualServer hs outs, pool, ctx))))"

definition ServerHandler_HandleError :: "'c fasthttp \<Rightarrow> ('t, 'c) ServerHandler \<Rightarrow> 'c \<Rightarrow> conn_error \<Rightarrow>
    (('t, 'c) ServerHandler \<times> 'c) go" where
  "ServerHandler_HandleError F sh ctx err =
     (case sh of
        HostServer h \<Rightarrow> go_bind (HandleError F h ctx err) (\<lambda>(h, ctx). Inr (HostServer h, ctx))
      | VirtualServer hs outs \<Rightarrow>
          go_bind (virtualHandler_HandleError F hs ctx err) (\<lambda>(hs, ctx). Inr (VirtualServer hs outs, ctx)))"

text \<open>What a listener gets: requests, and connections whose request cannot be read.\<close>

datatype 'c conn_event = Incoming "nat \<Rightarrow> route_env" 'c | Broken 'c conn_error

definition on_event :: "'c fasthttp \<Rightarrow> maphash \<Rightarrow> ('t, 'c) ServerHandler \<Rightarrow> result_pool \<Rightarrow> 'c conn_event \<Rightarrow>
    (('t, 'c) ServerHandler \<times> result_pool \<times> 'c) go option" where
  "on_event F mh sh pool e =
     (case e of
        Incoming envs ctx \<Rightarrow> ServerHandler_Handle F mh envs sh pool ctx
      | Broken ctx err \<Rightarrow>
          Some (go_bind (ServerHandler_HandleError F sh ctx err) (\<lambda>(sh, ctx). Inr (sh, pool, ctx))))"

fun on_events :: "'c fasthttp \<Rightarrow> maphash \<Rightarrow> ('t, 'c) ServerHandler \<Rightarrow> result_pool \<Rightarrow> 'c conn_event list \<Rightarrow> 'c list go option" where
  "on_events F mh sh pool [] = Some (Inr [])"
| "on_events F mh sh pool (e # es) =
     (case on_event F mh sh pool e of
        None \<Rightarrow> None
      | Some (Inl p) \<Rightarrow> Some (Inl p)
      | Some (Inr (sh, pool, ctx)) \<Rightarrow>
          (case on_events F mh sh pool es of
             Some (Inr ctxs) \<Rightarrow> Some (Inr (ctx # ctxs))
           | other \<Rightarrow> other))"

section \<open>Well-formed server handlers\<close>

fun hosts_in :: "('t, 'c) ServerHandler \<Rightarrow> ('t, 'c) hostHandler list" where
  "hosts_in (HostServer h) = [h]"
| "hosts_in (VirtualServer hs outs) = hs"

definition server_wf :: "'c fasthttp \<Rightarrow> ('t, 'c) ServerHandler \<Rightarrow> bool" where
  "server_wf F sh \<longleftrightarrow> hosts_in sh \<noteq> [] \<and> (\<forall>h \<in> List.set (hosts_in sh). hh_wf F h)"

definition no_retry :: "('t, 'c) ServerHandler \<Rightarrow> bool" where
  "no_retry sh \<longleftrightarrow> (\<forall>h \<in> List.set (hosts_in sh). \<forall>r \<in> List.set (routes (hh_routes h)). \<not> nextIfNotFound r)"

text \<open>An answer to a broken connection has the status of the error.\<close>

definition status_ok :: "'c fasthttp \<Rightarrow> 'c conn_event \<Rightarrow> 'c \<Rightarrow> bool" where
  "status_ok F e ctx \<longleftrightarrow>
     (case e of
        Incoming envs c \<Rightarrow> True
      | Broken c err \<Rightarrow> resp_StatusCode F ctx =
          (case err of ErrSmallBuffer \<Rightarrow> 431 | NetOpError timeout \<Rightarrow> if timeout then 408 else 400 | OtherError \<Rightarrow> 400))"

lemma chosen_host:
  assumes "hs \<noteq> []"
  shows "\<exists>k < length hs. virtualHandler_handler hs b = Inr k"
proof -
  have "find_host x hs i = Some k \<Longrightarrow> i \<le> k \<and> k < i + length hs" for x i k
    by (induction hs arbitrary: i) (fastforce split: if_splits)+
  from this [of _ 0] show ?thesis
    using assms by (auto simp: virtualHandler_handler_def Let_def split: option.splits)
qed

lemma wf_update: "server_wf F (VirtualServer hs outs) \<Longrightarrow> hh_wf F h \<Longrightarrow> server_wf F (VirtualServer (hs[k := h]) outs)"
  by (auto simp: server_wf_def dest: set_update_subset_insert [THEN subsetD])

lemma HandleError_returns:
  assumes "fasthttp_ok F" "hh_wf F h"
  shows "\<exists>h' c'. HandleError F h c err = Inr (h', c') \<and> hh_wf F h' \<and> same_host h' h \<and> status_ok F (Broken c err) c'"
proof -
  let ?s = "case err of ErrSmallBuffer \<Rightarrow> 431 | NetOpError timeout \<Rightarrow> if timeout then 408 else 400 | OtherError \<Rightarrow> (400 :: int)"
  have *: "HandleError F h c err = handle_error_page F h (resp_SetStatusCode F ?s c)"
    by (simp add: HandleError_def split: conn_error.split)
  obtain p c' where p: "handle_error_page F h (resp_SetStatusCode F ?s c) = Inr (h\<lparr>errorPages := p\<rparr>, c')" "pages_wf p"
    "resp_StatusCode F c' = resp_StatusCode F (resp_SetStatusCode F ?s c)"
    using handle_error_page_returns [OF assms(1)] assms(2) unfolding hh_wf_def by metis
  have same: "same_host (h\<lparr>errorPages := p\<rparr>) h"
    unfolding same_host_def by (intro exI [of _ p] exI [of _ "hh_routes h"]) simp
  have "?s \<noteq> 0" by (simp split: conn_error.split)
  then have "resp_StatusCode F c' = ?s"
    using p(3) assms(1) by (simp add: fasthttp_ok_def)
  then show ?thesis
    using p same assms(2) declared_same [OF same] by (auto simp: * hh_wf_def status_ok_def)
qed

section \<open>Every event is answered\<close>

text \<open>The panics of the code of other packages the hosts of a listener call. What a call does to the hosts leaves them
  as they are.\<close>

definition foreign_panic :: "('t, 'c) ServerHandler \<Rightarrow> go_panic \<Rightarrow> bool" where
  "foreign_panic sh e \<longleftrightarrow> (\<exists>h \<in> List.set (hosts_in sh). handler_panic h e \<or> log_panic h e)"

text \<open>The hosts after a call: the same, in the same places, up to error pages and route caches.\<close>

definition same_hosts :: "('t, 'c) ServerHandler \<Rightarrow> ('t, 'c) ServerHandler \<Rightarrow> bool" where
  "same_hosts sh' sh \<longleftrightarrow> list_all2 same_host (hosts_in sh') (hosts_in sh)"

lemma same_hosts_keep:
  assumes "same_hosts sh' sh"
  shows "no_retry sh \<Longrightarrow> no_retry sh'" "foreign_panic sh' e \<Longrightarrow> foreign_panic sh e"
proof -
  have all: "\<exists>h \<in> List.set (hosts_in sh). same_host h' h" if "h' \<in> List.set (hosts_in sh')" for h'
    using assms that unfolding same_hosts_def list_all2_conv_all_nth by (metis in_set_conv_nth)
  then show "no_retry sh \<Longrightarrow> no_retry sh'"
    using same_host_fields unfolding no_retry_def by metis
  show "foreign_panic sh' e \<Longrightarrow> foreign_panic sh e"
    using all same_host_panics unfolding foreign_panic_def by metis
qed

lemma same_hosts_refl: "same_hosts sh sh"
  by (simp add: same_hosts_def list_all2_refl)

lemma same_hosts_update:
  "k < length hs \<Longrightarrow> same_host h (hs ! k) \<Longrightarrow> same_hosts (VirtualServer (hs[k := h]) outs) (VirtualServer hs outs)"
  by (auto simp: same_hosts_def list_all2_conv_all_nth nth_list_update)

lemma on_event_safe:
  assumes ok: "fasthttp_ok F" and wf: "server_wf F sh" "pool_ok pool" and run: "on_event F mh sh pool e = Some y"
  shows "case y of Inl p \<Rightarrow> foreign_panic sh p
    | Inr (sh', pool', c') \<Rightarrow> server_wf F sh' \<and> pool_ok pool' \<and> status_ok F e c' \<and> same_hosts sh' sh"
proof (cases sh)
  case (HostServer h)
  then have h: "hh_wf F h" using wf(1) by (simp add: server_wf_def)
  show ?thesis
  proof (cases e)
    case (Incoming envs c)
    with run HostServer obtain z where z: "hostHandler_Handle F mh envs h pool c = Some z"
      by (auto simp: on_event_def ServerHandler_Handle_def split: option.splits)
    from Handle_safe [OF z ok h wf(2)] z run HostServer Incoming show ?thesis
      by (cases z) (auto simp: on_event_def ServerHandler_Handle_def server_wf_def status_ok_def same_hosts_def foreign_panic_def)
  next
    case (Broken c err)
    from HandleError_returns [OF ok h, of c err] obtain h' c' where
      "HandleError F h c err = Inr (h', c')" "hh_wf F h'" "same_host h' h" "status_ok F (Broken c err) c'" by blast
    with run HostServer Broken wf(2) show ?thesis
      by (auto simp: on_event_def ServerHandler_HandleError_def server_wf_def same_hosts_def)
  qed
next
  case (VirtualServer hs outs)
  then have hs: "hs \<noteq> []" and all: "h \<in> List.set hs \<Longrightarrow> hh_wf F h" for h
    using wf(1) by (simp_all add: server_wf_def)
  have wf': "server_wf F (VirtualServer hs outs)" using wf(1) VirtualServer by simp
  show ?thesis
  proof (cases e)
    case (Incoming envs c)
    obtain k where k: "k < length hs" "virtualHandler_handler hs (ctx_Host F c) = Inr k"
      using chosen_host [OF hs] by blast
    with run VirtualServer Incoming obtain z where z: "hostHandler_Handle F mh envs (hs ! k) pool c = Some z"
      by (auto simp: on_event_def ServerHandler_Handle_def virtualHandler_Handle_def split: option.splits)
    note safe = Handle_safe [OF z ok all [OF nth_mem [OF k(1)]] wf(2)]
    show ?thesis
    proof (cases z)
      case (Inl p)
      then have "y = Inl p"
        using z run VirtualServer Incoming k by (simp add: on_event_def ServerHandler_Handle_def virtualHandler_Handle_def)
      then show ?thesis
        using safe Inl VirtualServer nth_mem [OF k(1)] by (auto simp: foreign_panic_def)
    next
      case (Inr x)
      with safe obtain h' pool' c' where
        r: "z = Inr (h', pool', c')" "hh_wf F h'" "pool_ok pool'" "same_host h' (hs ! k)" by (cases x) auto
      then have "y = Inr (VirtualServer (hs[k := h']) outs, pool', c')"
        using z run VirtualServer Incoming k by (simp add: on_event_def ServerHandler_Handle_def virtualHandler_Handle_def)
      with wf_update [OF wf' r(2)] same_hosts_update [OF k(1) r(4)] r(3) VirtualServer Incoming show ?thesis
        by (auto simp: status_ok_def)
    qed
  next
    case (Broken c err)
    obtain k where k: "k < length hs" "virtualHandler_handler hs (ctx_Host F c) = Inr k"
      using chosen_host [OF hs] by blast
    from HandleError_returns [OF ok all, of "hs ! k" c err] k obtain h' c' where
      r: "HandleError F (hs ! k) c err = Inr (h', c')" "hh_wf F h'" "same_host h' (hs ! k)" "status_ok F (Broken c err) c'"
      by auto
    then have "y = Inr (VirtualServer (hs[k := h']) outs, pool, c')"
      using run VirtualServer Broken k by (simp add: on_event_def ServerHandler_HandleError_def virtualHandler_HandleError_def)
    with wf_update [OF wf' r(2)] same_hosts_update [OF k(1) r(3)] r(4) wf(2) VirtualServer Broken show ?thesis
      by auto
  qed
qed

lemma on_event_returns:
  assumes ok: "fasthttp_ok F" and wf: "server_wf F sh" "pool_ok pool" and nr: "no_retry sh"
  shows "\<exists>y. on_event F mh sh pool e = Some y"
proof (cases e)
  case (Incoming envs c)
  show ?thesis
  proof (cases sh)
    case (HostServer h)
    with Handle_answers [OF ok _ wf(2), of h mh envs c] wf(1) nr Incoming show ?thesis
      by (auto simp: on_event_def ServerHandler_Handle_def server_wf_def no_retry_def split: sum.split)
  next
    case (VirtualServer hs outs)
    obtain k where k: "k < length hs" "virtualHandler_handler hs (ctx_Host F c) = Inr k"
      using chosen_host [of hs] wf(1) VirtualServer by (auto simp: server_wf_def)
    have "hh_wf F (hs ! k)" "\<forall>r \<in> List.set (routes (hh_routes (hs ! k))). \<not> nextIfNotFound r"
      using wf(1) nr VirtualServer nth_mem [OF k(1)] by (auto simp: server_wf_def no_retry_def)
    from Handle_answers [OF ok this(1) wf(2) this(2), of mh envs c] k Incoming VirtualServer show ?thesis
      by (auto simp: on_event_def ServerHandler_Handle_def virtualHandler_Handle_def split: sum.split)
  qed
qed (simp add: on_event_def)

lemma on_events_safe:
  assumes ok: "fasthttp_ok F" and "server_wf F sh" "pool_ok pool" "on_events F mh sh pool es = Some y"
  shows "case y of Inl p \<Rightarrow> foreign_panic sh p | Inr outs \<Rightarrow> list_all2 (status_ok F) es outs"
  using assms(2-4)
proof (induction es arbitrary: sh pool y)
  case Nil
  then show ?case by auto
next
  case (Cons e es)
  then obtain z where z: "on_event F mh sh pool e = Some z"
    by (auto split: option.splits)
  note safe = on_event_safe [OF ok Cons.prems(1,2) z]
  show ?case
  proof (cases z)
    case (Inl p)
    then show ?thesis
      using safe z Cons.prems(3) by auto
  next
    case (Inr x)
    with safe obtain sh' pool' c' where
      r: "z = Inr (sh', pool', c')" "server_wf F sh'" "pool_ok pool'" "status_ok F e c'" "same_hosts sh' sh" by (cases x) auto
    with z Cons.prems(3) obtain w where w: "on_events F mh sh' pool' es = Some w"
      by (auto split: option.splits)
    show ?thesis
      using Cons.IH [OF r(2,3) w] w z r Cons.prems(3) same_hosts_keep(2) [OF r(5)] by (cases w) auto
  qed
qed

lemma on_events_return:
  assumes ok: "fasthttp_ok F" and "server_wf F sh" "pool_ok pool" "no_retry sh"
  shows "\<exists>y. on_events F mh sh pool es = Some y"
  using assms(2-4)
proof (induction es arbitrary: sh pool)
  case (Cons e es)
  obtain z where z: "on_event F mh sh pool e = Some z"
    using on_event_returns [OF ok Cons.prems] by blast
  show ?case
  proof (cases z)
    case (Inl p)
    with z show ?thesis by simp
  next
    case (Inr x)
    with on_event_safe [OF ok Cons.prems(1,2) z] obtain sh' pool' c' where
      r: "z = Inr (sh', pool', c')" "server_wf F sh'" "pool_ok pool'" "same_hosts sh' sh" by (cases x) auto
    obtain w where "on_events F mh sh' pool' es = Some w"
      using Cons.IH [OF r(2,3) same_hosts_keep(1) [OF r(4) Cons.prems(3)]] by blast
    with z r(1) show ?thesis
      by (auto split: sum.split)
  qed
qed simp

section \<open>What \<open>NewServerHandler\<close> builds\<close>

lemma new_host_handlers_all2:
  "new_host_handlers new cfgs outs = Inr (Inr (hs, outs')) \<Longrightarrow> list_all2 (\<lambda>cfg h. new cfg = Inr (Inr h)) cfgs hs"
  by (induction new cfgs outs arbitrary: hs outs' rule: new_host_handlers.induct) (auto simp: go_try_Inr_iff)

lemma NewServerHandler_hosts:
  assumes "NewServerHandler new cfgs = Inr (Inr sh)"
  shows "list_all2 (\<lambda>cfg h. new cfg = Inr (Inr h)) cfgs (hosts_in sh)"
proof (cases "length cfgs = 1")
  case True
  then obtain cfg where "cfgs = [cfg]" by (auto simp: length_Suc_conv)
  with assms show ?thesis
    by (auto simp: NewServerHandler_def go_try_Inr_iff)
next
  case False
  with assms show ?thesis
    by (auto simp: NewServerHandler_def newVirtualHandler_def go_try_Inr_iff dest: new_host_handlers_all2)
qed

lemma start_listener_handler:
  assumes "start_listener new netListen is_tcp A dir_order ParseDuration (listen, cfgs) = Returns st"
  shows "NewServerHandler new cfgs = Inr (Inr (fs_wired (sd_server st))) \<and> cfgs \<noteq> []"
  using assms
  by (auto simp: start_listener_def of_try_def of_result_def newServer_def ApplyTo_def zero_server_def go_bind_Inr_iff Let_def
      split: sum.splits outcome.splits if_splits)

lemma NewServerHandler_wf:
  assumes "NewServerHandler (newHostHandler newLogger newAccessLog newFS T (builtin_filters F T unmarshal readFile yaml_users)
      handlerReg compile now) cfgs = Inr (Inr sh)" "cfgs \<noteq> []"
  shows "server_wf F sh"
    and "\<forall>cfg \<in> List.set cfgs. \<forall>rcfg \<in> List.set (cfg_Routes cfg). \<not> rt_NextIfNotFound rcfg \<Longrightarrow> no_retry sh"
proof -
  note all = NewServerHandler_hosts [OF assms(1)]
  have made: "\<exists>cfg \<in> List.set cfgs. newHostHandler newLogger newAccessLog newFS T (builtin_filters F T unmarshal readFile yaml_users)
      handlerReg compile now cfg = Inr (Inr h)" if h: "h \<in> List.set (hosts_in sh)" for h
  proof -
    obtain i where "i < length (hosts_in sh)" "h = hosts_in sh ! i"
      using h by (auto simp: in_set_conv_nth)
    with all show ?thesis
      unfolding list_all2_conv_all_nth by (metis nth_mem)
  qed
  have "hosts_in sh \<noteq> []"
    using all assms(2) by auto
  with made newHostHandler_wf(1) show "server_wf F sh"
    unfolding server_wf_def by blast
  show "no_retry sh" if "\<forall>cfg \<in> List.set cfgs. \<forall>rcfg \<in> List.set (cfg_Routes cfg). \<not> rt_NextIfNotFound rcfg"
    unfolding no_retry_def
  proof (intro ballI)
    fix h r assume h: "h \<in> List.set (hosts_in sh)" and r: "r \<in> List.set (routes (hh_routes h))"
    from made [OF h] obtain cfg where cfg: "cfg \<in> List.set cfgs" "newHostHandler newLogger newAccessLog newFS T
        (builtin_filters F T unmarshal readFile yaml_users) handlerReg compile now cfg = Inr (Inr h)" by blast
    obtain rs where "NewRoutes compile now cfg = Inr rs" "hh_routes h = rs"
      using newHostHandler_wf(2) [OF cfg(2)] by blast
    with r that cfg(1) NewRoutes_next show "\<not> nextIfNotFound r" by metis
  qed
qed

section \<open>Properties\<close>

text \<open>C1. A listener that has been started answers, for any configurations with the built-in filters. Whatever sequence
  of requests and broken connections reaches the hosts of its address: if a call panics, then with a panic of a handler or
  of the access log of one of these hosts (both are parameters that may panic: the JSON and LTSV logs do on a response
  sent in chunks), so the server's own code never does (it looks up no missing host, filter, handler, route or cache slot); and if no route of these hosts uses \<open>nextIfNotFound\<close>, the calls all end, and if none panics every
  request and every broken connection is answered, the broken ones with 431, 408 or 400. The file server of the error
  pages is assumed to return.\<close>

theorem listener_answers:
  assumes "fasthttp_ok F"
    and "start_listener (newHostHandler newLogger newAccessLog newFS T (builtin_filters F T unmarshal readFile yaml_users)
      handlerReg compile now) netListen is_tcp A dir_order ParseDuration (listen, cfgs) = Returns st"
  shows "(on_events F mh (fs_wired (sd_server st)) [] es = Some (Inl p) \<longrightarrow>
      (\<exists>h \<in> List.set (hosts_in (fs_wired (sd_server st))). handler_panic h p \<or> log_panic h p)) \<and>
    ((\<forall>cfg \<in> List.set cfgs. \<forall>rcfg \<in> List.set (cfg_Routes cfg). \<not> rt_NextIfNotFound rcfg) \<longrightarrow>
      (\<exists>y. on_events F mh (fs_wired (sd_server st)) [] es = Some y \<and>
        (\<forall>outs. y = Inr outs \<longrightarrow> list_all2 (status_ok F) es outs)))"
proof -
  have sh: "NewServerHandler (newHostHandler newLogger newAccessLog newFS T (builtin_filters F T unmarshal readFile yaml_users)
      handlerReg compile now) cfgs = Inr (Inr (fs_wired (sd_server st)))" "cfgs \<noteq> []"
    using start_listener_handler [OF assms(2)] by blast+
  note safe = on_events_safe [OF assms(1) NewServerHandler_wf(1) [OF sh] pool_ok_Nil]
  show ?thesis
    using safe on_events_return [OF assms(1) NewServerHandler_wf(1) [OF sh] pool_ok_Nil NewServerHandler_wf(2) [OF sh]]
    unfolding foreign_panic_def by fastforce
qed

theorem listener_answers_witness:
  "\<exists>st outs. start_listener start_new (\<lambda>network listen. Inr listen) (\<lambda>l. True) sample_tls id (\<lambda>s. Inr 0)
       ('':443'', [start_host ''a'' '':443'' [], start_host ''c'' '':443'' ''c.pem'']) = Returns st \<and>
     on_events ref_fasthttp length_hash (fs_wired (sd_server st)) []
       [Incoming demo_envs (ref_request ''GET'' ''/x''), Broken (ref_request ''GET'' ''/'') ErrSmallBuffer] = Some (Inr outs) \<and>
     resp_StatusCode ref_fasthttp (outs ! 1) = 431"
proof -
  let ?cs = "[start_host ''a'' '':443'' [], start_host ''c'' '':443'' ''c.pem'']"
  let ?es = "[Incoming demo_envs (ref_request ''GET'' ''/x''), Broken (ref_request ''GET'' ''/'') ErrSmallBuffer]"
  obtain st where st: "start_listener start_new (\<lambda>network listen. Inr listen) (\<lambda>l. True) sample_tls id (\<lambda>s. Inr 0)
      ('':443'', ?cs) = Returns st"
    using start_hosts_started by blast
  have routes: "\<forall>cfg \<in> List.set ?cs. \<forall>rcfg \<in> List.set (cfg_Routes cfg). \<not> rt_NextIfNotFound rcfg"
    by (simp add: start_host_def zero_config_def)
  have quiet: "\<not> handler_panic h e \<and> \<not> log_panic h e" if h: "h \<in> List.set (hosts_in (fs_wired (sd_server st)))" for h e
  proof -
    obtain cfg where "start_new cfg = Inr (Inr h)" "cfg \<in> List.set ?cs"
      using NewServerHandler_hosts [OF start_listener_handler [OF st, THEN conjunct1]] h
      unfolding list_all2_conv_all_nth in_set_conv_nth by metis
    then have "accessLog h = quiet_log" "hh_handlers h = Map.empty"
      by (auto simp: start_new_def newHostHandler_def go_try_Inr_iff start_host_def zero_config_def NewRoutes_def)
    then show ?thesis
      by (simp add: handler_panic_def log_panic_def quiet_log_def)
  qed
  obtain y where y: "on_events ref_fasthttp length_hash (fs_wired (sd_server st)) [] ?es = Some y"
    "\<forall>outs. y = Inr outs \<longrightarrow> list_all2 (status_ok ref_fasthttp) ?es outs"
    using listener_answers [OF ref_fasthttp_ok st [unfolded start_new_def demo_filters_def], THEN conjunct2] routes by blast
  have "y \<noteq> Inl p" for p
    using listener_answers [OF ref_fasthttp_ok st [unfolded start_new_def demo_filters_def], THEN conjunct1] quiet y(1) by blast
  then obtain outs where outs: "on_events ref_fasthttp length_hash (fs_wired (sd_server st)) [] ?es = Some (Inr outs)"
    "list_all2 (status_ok ref_fasthttp) ?es outs"
    using y by (cases y) auto
  from outs(2) have "resp_StatusCode ref_fasthttp (outs ! 1) = 431"
    by (auto simp: list_all2_Cons1 status_ok_def)
  with st outs(1) show ?thesis by blast
qed

end
