(* ===== verification/Spec2Isabelle.thy ===== *)
theory Spec2Isabelle
  imports GoPrelude UtilBytes UtilHttp CacheKey CacheStore ConfigTypes RouteResult Routing RouteCaching
    CtxApi ConfigTree ErrorPages ErrorPagesRuns Base64 Filters Server Content Proxy Loggers GoTime Strftime
    LogCtx JsonLog LtsvLog NcsaLog Bufio AccessLog ConfigValues ConfigLoad Schema Listeners Dump Process HandlerSchemas HostLoggers ResultRace ResultRuns Serving
begin

text \<open>
  fasthttpd is an HTTP server in Go over the library \<open>valyala/fasthttp\<close>. This library models its code, except for
  what is listed at the end, and states what it guarantees. Every definition is a translation of the Go function or type of the same name;
  where Go allows what HOL names do not (two methods of one name, a word with a meaning here) the type's name or a part of it
  is prefixed.

  \<^bold>\<open>The program and its parts.\<close> \<open>cmd\<close> reads the flags and the configuration (\<open>config\<close>), groups the hosts by the
  address they listen on, and starts for each address a \<open>fasthttp.Server\<close> on a listener (\<open>net\<close>) whose callbacks are those of a
  server handler (\<open>handler/server.go\<close>). That chooses the host by name; a host asks its route table (\<open>route\<close>) for the
  result of a request, possibly through a cache (\<open>util/cache.go\<close>), runs the filters of the result (\<open>filter\<close>), then its
  handler (\<open>handler/content.go\<close>, \<open>proxy.go\<close>, \<open>balancer.go\<close>), retries the route table after a 404 when the route says so, replaces
  error answers with error pages (\<open>errorpages.go\<close>) and writes the access log (\<open>logger/accesslog\<close>) through a
  buffer onto a rotator that hosts may share (\<open>logger/rotator.go\<close>).

  \<^bold>\<open>Go in HOL.\<close> \<open>int\<close> and its relatives are \<open>int\<close>, with \<open>i64\<close> (wrap-around to 64 bits) written where a result may leave the
  range; sums of 32-bit values use words. Strings and byte slices are lists of characters. A run-time panic is a value:
  \<open>'a go\<close> is \<open>go_panic + 'a\<close>, with \<open>go_bind\<close> for sequencing; returned errors are the left summand of a sum or an option
  (\<open>go_try\<close> sequences what may do both). Handlers, their constructors and the access log as the server calls them are parameters with a
  panic as a possible outcome, which the server, the listeners and the process pass on.
  Objects that are changed are records passed along and returned. A Go map is a function to \<open>option\<close>, or an association list where the
  code walks it; the order of a walk is then a parameter. Locks, channels and goroutines appear where their interleavings
  matter, as steps of a relation; elsewhere an operation is atomic because a lock makes it so.

  Third-party code is never invented: the \<open>fasthttp\<close> request context is a record of its accessors and effects
  (\<open>CtxApi\<close>), \<open>mojatter/tree\<close> nodes are an abstract type with accessors (\<open>ConfigTree\<close>), and regular expressions, YAML and
  JSON, TLS, the file system and clocks are parameters. What the proofs need of them are named predicates
  (for instance \<open>fasthttp_ok\<close>, \<open>request_ok\<close>, \<open>shutdown_ends_serve\<close>), satisfied by the reference instances the witnesses use.

  \<^bold>\<open>Theories.\<close>
  \<^item> \<open>GoPrelude\<close>: bytes, panics, wrap-around, package \<open>bytes\<close>, status texts; the named theorems and simplification rules
    the others share.
  \<^item> \<open>UtilBytes\<close>, \<open>UtilHttp\<close> (\<open>util/bytes.go\<close>, \<open>http.go\<close>, \<open>strings.go\<close>): digits, padding, URIs, string sets.
  \<^item> \<open>CacheKey\<close>, \<open>CacheStore\<close> (\<open>util/cache.go\<close>): the injective keys; entries with expiry, capacity, eviction paced by
    an interval and release callbacks. The laws of the locale \<open>cache_laws\<close> are interpreted on these definitions.
  \<^item> \<open>ConfigTypes\<close>, \<open>ConfigValues\<close>, \<open>ConfigLoad\<close>, \<open>Schema\<close> (\<open>config/config.go\<close>, \<open>load.go\<close>, \<open>schema.go\<close>): the data with its
    defaults, sizes and durations, the recursion over included files, edit expressions, the schema generated from the Go types,
    validation.
  \<^item> \<open>RouteResult\<close>, \<open>Routing\<close>, \<open>RouteCaching\<close> (\<open>route\<close>): pooled results, the loop over the routes with rewriting,
    the cached variant and its equivalence with the uncached one; \<open>ResultRace\<close>, \<open>ResultRuns\<close>: the same with the pointers the
    goroutines share, the objects in the pool and in the cache, and who may write them when.
  \<^item> \<open>CtxApi\<close>, \<open>ConfigTree\<close>: the interfaces to \<open>fasthttp\<close> and \<open>tree\<close>, with reference instances.
  \<^item> \<open>ErrorPages\<close>, \<open>ErrorPagesRuns\<close> (requests that overlap in it), \<open>Base64\<close>, \<open>Filters\<close>, \<open>Content\<close>, \<open>Proxy\<close>, \<open>HandlerSchemas\<close>: the handlers and filters, and the rules
    their configurations are validated with.
  \<^item> \<open>Server\<close> (\<open>handler/server.go\<close>, \<open>handler.go\<close>): hosts, virtual hosts, construction from a configuration, the retry loop.
  \<^item> \<open>Loggers\<close>, \<open>GoTime\<close>, \<open>Strftime\<close>, \<open>LogCtx\<close>, \<open>JsonLog\<close>, \<open>LtsvLog\<close>, \<open>NcsaLog\<close>, \<open>Bufio\<close>, \<open>AccessLog\<close> (\<open>logger\<close>,
    \<open>accesslog\<close>, \<open>util/strftime.go\<close>): shared rotators, time formats, the three log formats, the buffered writer, the life of an access log.
  \<^item> \<open>HostLoggers\<close> (\<open>logger/logger.go\<close>, \<open>handler/server.go\<close>): what a message of a logger writes, the delegating logger of a
    virtual server (once to every output), the log outputs a host opens and closes.
  \<^item> \<open>Listeners\<close> (\<open>net\<close>), \<open>Dump\<close>, \<open>Process\<close> (\<open>cmd\<close>): sockets and certificates; flags, the configuration stage and the dump;
    the process with its signals; \<open>Serving\<close>: the callbacks of a started server, for all hosts of its address.

  \<^bold>\<open>What is shown.\<close>
  \<^item> Requests: an answer for every request and broken connection at a started listener, and no panic but those of its handlers and
    access logs (\<open>Serving\<close>), unless a loop
    of \<open>nextIfNotFound\<close> routes never ends, which it can (\<open>Server\<close>); what a request is routed to, with rewriting and with the cache
    (\<open>Routing\<close>, \<open>RouteCaching\<close>), under which conditions concurrent requests get their own results, and that they need not
    get them otherwise (\<open>ResultRuns\<close>); which filters stop it (\<open>Filters\<close>); which page an error gets (\<open>ErrorPages\<close>), also when
    requests overlap (\<open>ErrorPagesRuns\<close>).
  \<^item> State: the cache never exceeds its capacity and paces its evictions (\<open>CacheStore\<close>); rotators are counted (\<open>Loggers\<close>);
    an access log writes whole lines in order until \<open>Close\<close>, and what goes wrong when \<open>Log\<close> runs into it (\<open>AccessLog\<close>).
  \<^item> Texts: times against a reference text per directive (\<open>Strftime\<close>), log records are read back, JSON records when their fields are
    UTF-8 (\<open>JsonLog\<close>, \<open>LtsvLog\<close>), base64 and cache keys round-trip.
  \<^item> Configuration: loading ends and finds exactly the circular includes; the configuration stage ends with an
    error or with normalized configurations; the schema of a configuration is written out in full; the rules agree with the
    decoders up to some numbers; sizes are read in every documented spelling (\<open>ConfigLoad\<close>, \<open>Schema\<close>, \<open>Dump\<close>, \<open>ConfigValues\<close>).
  \<^item> Process: which settings, certificates and hosts an address gets; \<open>run\<close> returns only after every \<open>Serve\<close>; a shutdown
    can be cut short, an early signal is lost and a signal between two \<open>append\<close>s makes the process panic (\<open>Listeners\<close>, \<open>Process\<close>).

  Some of these state defects: they describe the code as it is.

  \<^bold>\<open>Loops and bounds.\<close> Loops over lists are structural. The retry loop of a host and the recursion over includes are
  \<open>partial_function (option)\<close>: \<open>None\<close> means that the call does not return, and termination is a theorem of its own, under the
  condition that makes it true (no route with \<open>nextIfNotFound\<close> answers 404 forever; finitely many readable files). Formatting loops recurse on
  the value that is divided. No fuel is used.

  \<^bold>\<open>Not modelled.\<close> The bodies of third-party handlers (the file server, expvar, pprof, the reverse proxy's transport) and the
  TLS handshake; the copy of the configuration into \<open>fasthttp.FS\<close> by JSON is a parameter, since the fields are that library's. Usage texts
  and the version. Data races that Go leaves undefined are reported with the manifest's findings and are modelled
  only where an interleaving of whole statements already shows the effect. The mutex around the schema registries, which are written during
  initialisation only. The log formats are modelled where their numbers
  are not negative (\<open>request_ok\<close>): that \<open>AppendUint\<close> panics otherwise is left to the panics an access log may have. A recursive Go type, on which the schema generation does not end; the configuration has none.
\<close>

end
